(* ===== verification/Raftz_Prelude.thy ===== *)
theory Raftz_Prelude
  imports Main "HOL-Library.Multiset"
begin

text \<open>
  Shared vocabulary of the development: Python text as code points, the exception
  monad in which every checker runs, the loops of that monad, and the decimal
  printer behind Python's formatting of integers.  Nothing here is specific to one
  checker; the component theories build on the simp sets declared below.
\<close>

named_theorems run_simps \<open>what a successful run of a monadic checker tells\<close>

section \<open>Python text\<close>

text \<open>
  A Python \<open>str\<close> is a sequence of Unicode code points, surrogates included.  Literals of
  the source are ASCII and are written with \<open>lit\<close>.
\<close>

type_synonym pstr = "nat list"

definition lit :: "string \<Rightarrow> pstr" where
  "lit s = map of_char s"

lemma inj_of_char_nat: "inj (of_char :: char \<Rightarrow> nat)"
  by (rule injI) (simp only: of_char_eq_iff)

lemma lit_eq_iff [simp]: "lit s = lit t \<longleftrightarrow> s = t"
  by (simp add: lit_def inj_map_eq_map [OF inj_of_char_nat])

lemma lit_Nil [simp]: "lit [] = []"
  by (simp add: lit_def)

lemma lit_eq_Nil [simp]: "lit s = [] \<longleftrightarrow> s = []"
  by (simp add: lit_def)

lemma length_lit [simp]: "length (lit s) = length s"
  by (simp add: lit_def)

lemma inj_lit: "inj lit"
  by (rule injI) simp

lemma lit_in_image [simp]: "lit s \<in> lit ` A \<longleftrightarrow> s \<in> A"
  by (rule inj_image_mem_iff [OF inj_lit])

text \<open>\<open>needle in text\<close> on strings, and the lines a \<open>\\n\<close>-separated text consists of.\<close>

fun contains :: "pstr \<Rightarrow> pstr \<Rightarrow> bool" where
  "contains needle [] \<longleftrightarrow> needle = []"
| "contains needle (c # cs) \<longleftrightarrow> take (length needle) (c # cs) = needle \<or> contains needle cs"

lemma contains_iff: "contains needle s \<longleftrightarrow> (\<exists>a b. s = a @ needle @ b)"
proof (induction s)
  case (Cons c cs)
  show ?case
  proof
    assume "contains needle (c # cs)"
    then consider "take (length needle) (c # cs) = needle" | "contains needle cs" by auto
    then show "\<exists>a b. c # cs = a @ needle @ b"
    proof cases
      case 1
      then have "c # cs = [] @ needle @ drop (length needle) (c # cs)"
        by (metis append_Nil append_take_drop_id)
      then show ?thesis by blast
    next
      case 2
      then obtain a b where "cs = a @ needle @ b" using Cons.IH by blast
      then have "c # cs = (c # a) @ needle @ b" by simp
      then show ?thesis by blast
    qed
  next
    assume "\<exists>a b. c # cs = a @ needle @ b"
    then obtain a b where eq: "c # cs = a @ needle @ b" by blast
    show "contains needle (c # cs)"
    proof (cases a)
      case Nil
      then have "take (length needle) (c # cs) = needle" using eq by simp
      then show ?thesis unfolding contains.simps by (rule disjI1)
    next
      case (Cons d a')
      then show ?thesis using eq Cons.IH by auto
    qed
  qed
qed simp

fun enum_from :: "int \<Rightarrow> 'a list \<Rightarrow> (int \<times> 'a) list" where
  "enum_from i [] = []"
| "enum_from i (x # xs) = (i, x) # enum_from (i + 1) xs"

lemma length_enum_from [simp]: "length (enum_from i xs) = length xs"
  by (induction xs arbitrary: i) auto

lemma nth_enum_from: "k < length xs \<Longrightarrow> enum_from i xs ! k = (i + int k, xs ! k)"
  by (induction xs arbitrary: i k) (auto simp: nth_Cons split: nat.splits)

lemma snd_enum_from [simp]: "map snd (enum_from i xs) = xs"
  by (induction xs arbitrary: i) auto

lemma set_enum_from: "p \<in> set (enum_from i xs) \<Longrightarrow> \<exists>k < length xs. p = (i + int k, xs ! k)"
  by (auto simp: in_set_conv_nth nth_enum_from)

lemma enum_from_append:
  "enum_from i (xs @ ys) = enum_from i xs @ enum_from (i + int (length xs)) ys"
  by (induction xs arbitrary: i) (auto simp: algebra_simps)

lemma index_range: "1 \<le> x \<and> x \<le> int n \<longleftrightarrow> (\<exists>i\<in>{Suc 0..n}. x = int i)"
proof
  assume "1 \<le> x \<and> x \<le> int n"
  then have "nat x \<in> {Suc 0..n}" and "x = int (nat x)" by auto
  then show "\<exists>i\<in>{Suc 0..n}. x = int i" by blast
qed auto

lemma distinct_singleton:
  assumes "distinct xs" and "set xs = {x}"
  shows "xs = [x]"
proof -
  have "length xs = 1" using assms distinct_card [of xs] by simp
  then show ?thesis using assms(2) by (cases xs) auto
qed

section \<open>The exception monad\<close>

text \<open>
  A computation that may raise is a sum: \<open>Inl\<close> carries the exception, \<open>Inr\<close> the value.
\<close>

definition bindE :: "'e + 'a \<Rightarrow> ('a \<Rightarrow> 'e + 'b) \<Rightarrow> 'e + 'b" where
  "bindE m f = (case m of Inl e \<Rightarrow> Inl e | Inr x \<Rightarrow> f x)"

definition guardE :: "bool \<Rightarrow> 'e \<Rightarrow> 'e + unit" where
  "guardE c e = (if c then Inr () else Inl e)"

fun mapE :: "('a \<Rightarrow> 'e + 'b) \<Rightarrow> 'a list \<Rightarrow> 'e + 'b list" where
  "mapE f [] = Inr []"
| "mapE f (x # xs) = bindE (f x) (\<lambda>y. bindE (mapE f xs) (\<lambda>ys. Inr (y # ys)))"

fun foldE :: "('s \<Rightarrow> 'a \<Rightarrow> 'e + 's) \<Rightarrow> 's \<Rightarrow> 'a list \<Rightarrow> 'e + 's" where
  "foldE f s [] = Inr s"
| "foldE f s (x # xs) = bindE (f s x) (\<lambda>s'. foldE f s' xs)"

lemma bindE_simps [simp]: "bindE (Inr x) f = f x" "bindE (Inl e) f = Inl e"
  by (simp_all add: bindE_def)

lemma bindE_eq_Inr [run_simps]: "bindE m f = Inr y \<longleftrightarrow> (\<exists>x. m = Inr x \<and> f x = Inr y)"
  by (cases m) simp_all

lemma bindE_eq_Inl [run_simps]:
  "bindE m f = Inl e \<longleftrightarrow> m = Inl e \<or> (\<exists>x. m = Inr x \<and> f x = Inl e)"
  by (cases m) simp_all

lemma bindE_cong [fundef_cong]:
  "m = m' \<Longrightarrow> (\<And>x. m' = Inr x \<Longrightarrow> f x = f' x) \<Longrightarrow> bindE m f = bindE m' f'"
  by (cases m') simp_all

lemma bindE_assoc: "bindE (bindE m f) g = bindE m (\<lambda>x. bindE (f x) g)"
  by (cases m) simp_all

lemma guardE_simps [simp]: "guardE True e = Inr ()" "guardE False e = Inl e"
  by (simp_all add: guardE_def)

lemma guardE_eq_Inr [run_simps]: "guardE c e = Inr u \<longleftrightarrow> c"
  by (simp add: guardE_def)

lemma guardE_eq_Inl [run_simps]: "guardE c e = Inl e' \<longleftrightarrow> \<not> c \<and> e' = e"
  by (auto simp: guardE_def)

lemma mapE_eq_Inr: "mapE f xs = Inr ys \<longleftrightarrow> list_all2 (\<lambda>x y. f x = Inr y) xs ys"
  by (induction xs arbitrary: ys) (auto simp: run_simps list_all2_Cons1)

lemma mapE_length: "mapE f xs = Inr ys \<Longrightarrow> length ys = length xs"
  by (auto simp: mapE_eq_Inr dest: list_all2_lengthD)

lemma mapE_nth: "mapE f xs = Inr ys \<Longrightarrow> i < length xs \<Longrightarrow> f (xs ! i) = Inr (ys ! i)"
  by (auto simp: mapE_eq_Inr dest: list_all2_nthD)

lemma mapE_ex_Inr: "(\<exists>ys. mapE f xs = Inr ys) \<longleftrightarrow> (\<forall>x \<in> set xs. \<exists>y. f x = Inr y)"
  by (induction xs) (auto simp: run_simps)

lemma mapE_set:
  assumes "mapE f xs = Inr ys" and "y \<in> set ys"
  obtains x where "x \<in> set xs" and "f x = Inr y"
proof -
  obtain i where "i < length ys" and y: "y = ys ! i"
    using assms(2) by (auto simp: in_set_conv_nth)
  then have "i < length xs" using mapE_length [OF assms(1)] by simp
  with mapE_nth [OF assms(1)] y show thesis by (auto intro: that [of "xs ! i"])
qed

lemma mapE_cong [fundef_cong]:
  "xs = ys \<Longrightarrow> (\<And>x. x \<in> set ys \<Longrightarrow> f x = g x) \<Longrightarrow> mapE f xs = mapE g ys"
proof -
  assume "xs = ys" and eq: "\<And>x. x \<in> set ys \<Longrightarrow> f x = g x"
  from eq have "mapE f ys = mapE g ys" by (induction ys) auto
  with \<open>xs = ys\<close> show ?thesis by simp
qed

lemma mapE_Inr_map: "(\<And>x. x \<in> set xs \<Longrightarrow> f x = Inr (g x)) \<Longrightarrow> mapE f xs = Inr (map g xs)"
  by (induction xs) auto

lemma foldE_append: "foldE f s (xs @ ys) = bindE (foldE f s xs) (\<lambda>s'. foldE f s' ys)"
  by (induction xs arbitrary: s) (auto simp: bindE_assoc)

lemma foldE_cong [fundef_cong]:
  assumes "s = s'" and "xs = xs'" and "\<And>t x. x \<in> set xs' \<Longrightarrow> f t x = g t x"
  shows "foldE f s xs = foldE g s' xs'"
proof -
  have "foldE f t xs' = foldE g t xs'" for t
    using assms(3) by (induction xs' arbitrary: t) (auto intro: bindE_cong)
  with assms(1,2) show ?thesis by simp
qed

section \<open>Loops that keep an invariant\<close>

text \<open>
  Every checker of the source is a loop over a list that either raises or goes on with
  an updated state.  The contract of such a loop: its body keeps an invariant, which may
  mention the elements already consumed.
\<close>

locale checked_loop =
  fixes body :: "'s \<Rightarrow> 'a \<Rightarrow> 'e + 's"
    and inv :: "'a list \<Rightarrow> 's \<Rightarrow> bool"
  assumes body_inv: "inv seen s \<Longrightarrow> body s x = Inr s' \<Longrightarrow> inv (seen @ [x]) s'"
begin

lemma loop_inv: "inv seen s \<Longrightarrow> foldE body s xs = Inr s' \<Longrightarrow> inv (seen @ xs) s'"
proof (induction xs arbitrary: seen s)
  case Nil
  then show ?case by simp
next
  case (Cons x xs)
  then obtain t where t: "body s x = Inr t" and rest: "foldE body t xs = Inr s'"
    by (auto simp: run_simps)
  from Cons.prems(1) t have "inv (seen @ [x]) t" by (rule body_inv)
  from Cons.IH [OF this rest] show ?case by simp
qed

lemma loop_inv_from_start: "inv [] s \<Longrightarrow> foldE body s xs = Inr s' \<Longrightarrow> inv xs s'"
  using loop_inv [of "[]"] by simp

end

section \<open>Decimal text\<close>

fun dec :: "nat \<Rightarrow> pstr" where
  "dec n = (if n < 10 then [48 + n] else dec (n div 10) @ [48 + n mod 10])"

declare dec.simps [simp del]

definition dec_int :: "int \<Rightarrow> pstr" where
  "dec_int i = (if i < 0 then 45 # dec (nat (- i)) else dec (nat i))"

definition undec :: "pstr \<Rightarrow> nat" where
  "undec ds = foldl (\<lambda>a d. 10 * a + (d - 48)) 0 ds"

definition is_digit :: "nat \<Rightarrow> bool" where
  "is_digit c \<longleftrightarrow> 48 \<le> c \<and> c \<le> 57"

lemma undec_dec [simp]: "undec (dec n) = n"
proof (induction n rule: dec.induct)
  case (1 n)
  show ?case
  proof (cases "n < 10")
    case True
    then show ?thesis by (simp add: dec.simps [of n] undec_def)
  next
    case False
    with 1 have "foldl (\<lambda>a d. 10 * a + (d - 48)) 0 (dec (n div 10)) = n div 10"
      by (simp add: undec_def)
    with False show ?thesis by (simp add: dec.simps [of n] undec_def)
  qed
qed

lemma dec_eq_iff [simp]: "dec m = dec n \<longleftrightarrow> m = n"
  by (metis undec_dec)

lemma dec_not_Nil [simp]: "dec n \<noteq> []"
  by (simp add: dec.simps)

lemma dec_digits: "c \<in> set (dec n) \<Longrightarrow> is_digit c"
proof (induction n rule: dec.induct)
  case (1 n)
  show ?case
  proof (cases "n < 10")
    case True
    with "1.prems" show ?thesis by (auto simp: dec.simps [of n] is_digit_def)
  next
    case False
    have "48 + n mod 10 \<le> 57" using mod_less_divisor [of 10 n] by linarith
    with False "1.prems" "1.IH" show ?thesis
      by (auto simp: dec.simps [of n] is_digit_def)
  qed
qed

lemma hd_dec_ne_minus [simp]: "dec n \<noteq> 45 # xs"
proof
  assume "dec n = 45 # xs"
  then have "is_digit 45" using dec_digits [of 45 n] by simp
  then show False by (simp add: is_digit_def)
qed

lemma dec_int_eq_iff [simp]: "dec_int i = dec_int j \<longleftrightarrow> i = j"
  by (auto simp: dec_int_def dest: sym)

lemma dec_int_not_Nil [simp]: "dec_int i \<noteq> []"
  by (simp add: dec_int_def)

lemma dec_int_chars: "c \<in> set (dec_int i) \<Longrightarrow> is_digit c \<or> c = 45"
  by (auto simp: dec_int_def dest: dec_digits split: if_splits)

end
