(* ===== verification/Py_Values.thy ===== *)
theory Py_Values
  imports Raftz_Prelude
begin

text \<open>
  The Python values the checkers handle.  All their inputs come from \<open>json.loads\<close> and all
  their outputs go to \<open>json.dumps\<close>, so a value is a JSON value as Python represents it.
  This theory also holds the exceptions, subscripting, truth values, equality with
  constants and the three validators every checker uses (\<open>require\<close>, \<open>fields\<close>,
  \<open>natural\<close> of trace_check.py).
\<close>

section \<open>Values and exceptions\<close>

text \<open>
  A \<open>dict\<close> is its list of items in insertion order; its keys are strings, since JSON has no
  others.  A \<open>float\<close> is kept as the text \<open>json.dumps\<close> prints for it (\<open>float.__repr__\<close>, or
  NaN, Infinity, -Infinity), which is all the checkers observe of it.
\<close>

datatype pyval =
    PNone
  | PBool bool
  | PInt int
  | PFloat pstr
  | PStr pstr
  | PList "pyval list"
  | PDict "(pstr \<times> pyval) list"

text \<open>
  Exceptions, with the message text where the source gives one; an interpolated value
  is kept beside the text.  \<open>ConformanceError\<close> is the subclass of \<open>RuntimeError\<close> that
  trace_check.py declares; \<open>UnicodeEncodeError\<close> is a subclass of \<open>ValueError\<close>.
\<close>

datatype exc =
    ValueError string
  | ValueErrorArg string pyval
  | UnicodeEncodeError
  | KeyError string
  | TypeError
  | AttributeError
  | IndexError
  | StopIteration
  | OSError
  | RuntimeError string
  | ConformanceError string

type_synonym 'a res = "exc + 'a"

definition is_value_error :: "exc \<Rightarrow> bool" where
  "is_value_error e = (case e of
      ValueError _ \<Rightarrow> True | ValueErrorArg _ _ \<Rightarrow> True | UnicodeEncodeError \<Rightarrow> True | _ \<Rightarrow> False)"

section \<open>Reading values\<close>

text \<open>\<open>obj[k]\<close> with a string subscript: only a \<open>dict\<close> accepts one.\<close>

definition getitem :: "pyval \<Rightarrow> string \<Rightarrow> pyval res" where
  "getitem obj k = (case obj of
      PDict kvs \<Rightarrow> (case map_of kvs (lit k) of None \<Rightarrow> Inl (KeyError k) | Some v \<Rightarrow> Inr v)
    | _ \<Rightarrow> Inl TypeError)"

text \<open>The value under a key that is known to be present.\<close>

definition item :: "pyval \<Rightarrow> string \<Rightarrow> pyval" where
  "item obj k = (case getitem obj k of Inr v \<Rightarrow> v | Inl _ \<Rightarrow> PNone)"

text \<open>\<open>k in obj\<close> on a \<open>dict\<close>.\<close>

definition has_key :: "(pstr \<times> pyval) list \<Rightarrow> string \<Rightarrow> bool" where
  "has_key kvs k \<longleftrightarrow> map_of kvs (lit k) \<noteq> None"

text \<open>\<open>obj[k] = v\<close> and \<open>del obj[k]\<close>: an existing key keeps its position, a new one goes last.\<close>

fun dict_set :: "pstr \<Rightarrow> pyval \<Rightarrow> (pstr \<times> pyval) list \<Rightarrow> (pstr \<times> pyval) list" where
  "dict_set k v [] = [(k, v)]"
| "dict_set k v ((k', v') # kvs) =
     (if k' = k then (k', v) # kvs else (k', v') # dict_set k v kvs)"

definition dict_del :: "pstr \<Rightarrow> (pstr \<times> pyval) list \<Rightarrow> (pstr \<times> pyval) list" where
  "dict_del k kvs = filter (\<lambda>kv. fst kv \<noteq> k) kvs"

fun truthy :: "pyval \<Rightarrow> bool" where
  "truthy PNone = False"
| "truthy (PBool b) = b"
| "truthy (PInt i) = (i \<noteq> 0)"
| "truthy (PFloat r) = (r \<noteq> lit ''0.0'' \<and> r \<noteq> lit ''-0.0'')"
| "truthy (PStr s) = (s \<noteq> [])"
| "truthy (PList xs) = (xs \<noteq> [])"
| "truthy (PDict kvs) = (kvs \<noteq> [])"

text \<open>
  \<open>v == n\<close> for a small integer constant: \<open>True\<close> is 1, \<open>False\<close> is 0, and a float equals the
  integer it denotes, whose \<open>repr\<close> ends in ``.0''.  Equality with a string constant is
  structural: no other JSON value equals a \<open>str\<close>.
\<close>

fun eq_int :: "pyval \<Rightarrow> int \<Rightarrow> bool" where
  "eq_int (PBool b) n = ((if b then 1 else 0) = n)"
| "eq_int (PInt i) n = (i = n)"
| "eq_int (PFloat r) n = (r = dec_int n @ lit ''.0'' \<or> n = 0 \<and> r = lit ''-0.0'')"
| "eq_int _ n = False"

definition is_lit :: "pyval \<Rightarrow> string \<Rightarrow> bool" where
  "is_lit v s \<longleftrightarrow> v = PStr (lit s)"

text \<open>Membership in a tuple of strings compares; membership in a set or dict hashes first.\<close>

definition in_tuple :: "pyval \<Rightarrow> string list \<Rightarrow> bool" where
  "in_tuple v names \<longleftrightarrow> list_ex (is_lit v) names"

fun hashable :: "pyval \<Rightarrow> bool" where
  "hashable (PList _) = False"
| "hashable (PDict _) = False"
| "hashable _ = True"

definition in_set :: "pyval \<Rightarrow> string list \<Rightarrow> bool res" where
  "in_set v names = (if hashable v then Inr (in_tuple v names) else Inl TypeError)"

definition is_str :: "pyval \<Rightarrow> bool" where
  "is_str v = (case v of PStr _ \<Rightarrow> True | _ \<Rightarrow> False)"

definition the_list :: "pyval \<Rightarrow> pyval list" where
  "the_list v = (case v of PList xs \<Rightarrow> xs | _ \<Rightarrow> [])"

definition the_str :: "pyval \<Rightarrow> pstr" where
  "the_str v = (case v of PStr s \<Rightarrow> s | _ \<Rightarrow> [])"

definition the_int :: "pyval \<Rightarrow> int" where
  "the_int v = (case v of PInt i \<Rightarrow> i | _ \<Rightarrow> 0)"

section \<open>The validators of trace_check.py\<close>

definition require :: "bool \<Rightarrow> string \<Rightarrow> unit res" where
  "require condition message = guardE condition (ValueError message)"

text \<open>
  \<open>fields(obj, names)\<close>; the source passes the names as one blank-separated literal and
  splits it, here they are the list.
\<close>

definition fields :: "pyval \<Rightarrow> string list \<Rightarrow> unit res" where
  "fields obj names = guardE
     (case obj of PDict kvs \<Rightarrow> fst ` set kvs = lit ` set names | _ \<Rightarrow> False)
     (ValueErrorArg ''Unexpected fields: '' obj)"

definition natural_upto :: "int \<Rightarrow> pyval \<Rightarrow> unit res" where
  "natural_upto maximum n = guardE
     (case n of PInt i \<Rightarrow> 0 \<le> i \<and> i \<le> maximum | _ \<Rightarrow> False)
     (ValueErrorArg ''Unsupported integer: '' n)"

abbreviation natural :: "pyval \<Rightarrow> unit res" where
  "natural \<equiv> natural_upto 1000000"

text \<open>\<open>unique_object\<close>, the \<open>object_pairs_hook\<close> that refuses a repeated key.\<close>

definition unique_object_step ::
  "(pstr \<times> pyval) list \<Rightarrow> pstr \<times> pyval \<Rightarrow> (pstr \<times> pyval) list res" where
  "unique_object_step result kv = (case kv of (k, v) \<Rightarrow>
     bindE (guardE (k \<notin> fst ` set result) (ValueErrorArg ''Duplicate JSON key: '' (PStr k)))
       (\<lambda>_. Inr (dict_set k v result)))"

definition unique_object :: "(pstr \<times> pyval) list \<Rightarrow> pyval res" where
  "unique_object pairs = bindE (foldE unique_object_step [] pairs) (\<lambda>result. Inr (PDict result))"

section \<open>Lemmas\<close>

lemma require_eq_Inr [run_simps]: "require c m = Inr u \<longleftrightarrow> c"
  by (simp add: require_def run_simps)

lemma require_eq_Inl [run_simps]: "require c m = Inl e \<longleftrightarrow> \<not> c \<and> e = ValueError m"
  by (simp add: require_def run_simps)

lemma require_simps [simp]:
  "require True m = Inr ()" "require False m = Inl (ValueError m)"
  by (simp_all add: require_def)

lemma fields_eq_Inr [run_simps]:
  "fields obj names = Inr u \<longleftrightarrow> (\<exists>kvs. obj = PDict kvs \<and> fst ` set kvs = lit ` set names)"
  by (auto simp: fields_def run_simps split: pyval.splits)

lemma natural_upto_eq_Inr [run_simps]:
  "natural_upto m n = Inr u \<longleftrightarrow> (\<exists>i. n = PInt i \<and> 0 \<le> i \<and> i \<le> m)"
  by (auto simp: natural_upto_def run_simps split: pyval.splits)

lemma natural_upto_PInt [simp]:
  "0 \<le> i \<Longrightarrow> i \<le> m \<Longrightarrow> natural_upto m (PInt i) = Inr ()"
  by (simp add: natural_upto_def)

lemma getitem_dict:
  "getitem (PDict kvs) k = (case map_of kvs (lit k) of None \<Rightarrow> Inl (KeyError k) | Some v \<Rightarrow> Inr v)"
  by (simp add: getitem_def)

lemma getitem_eq_Inr [run_simps]:
  "getitem obj k = Inr v \<longleftrightarrow> (\<exists>kvs. obj = PDict kvs \<and> map_of kvs (lit k) = Some v)"
  by (auto simp: getitem_def split: pyval.splits option.splits)

lemma fields_getitem:
  assumes "fields obj names = Inr u" and "k \<in> set names"
  shows "\<exists>v. getitem obj k = Inr v"
proof -
  obtain kvs where obj: "obj = PDict kvs" and keys: "fst ` set kvs = lit ` set names"
    using assms(1) by (auto simp: run_simps)
  have "lit k \<in> fst ` set kvs" using keys assms(2) by simp
  then have "map_of kvs (lit k) \<noteq> None" by (simp add: map_of_eq_None_iff)
  then show ?thesis using obj by (auto simp: run_simps)
qed

lemma item_eq: "getitem obj k = Inr v \<Longrightarrow> item obj k = v"
  by (simp add: item_def)

lemma fields_getitem_None:
  assumes "fields obj names = Inr u" and "k \<notin> set names"
  shows "getitem obj k = Inl (KeyError k)"
proof -
  obtain kvs where obj: "obj = PDict kvs" and keys: "fst ` set kvs = lit ` set names"
    using assms(1) by (auto simp: run_simps)
  then have "map_of kvs (lit k) = None" using assms(2) by (simp add: map_of_eq_None_iff)
  then show ?thesis using obj by (simp add: getitem_def)
qed

lemma is_lit_PStr [simp]: "is_lit (PStr s) t \<longleftrightarrow> s = lit t"
  by (simp add: is_lit_def)

lemma is_lit_unique: "is_lit v s \<Longrightarrow> is_lit v t \<longleftrightarrow> s = t"
  by (auto simp: is_lit_def)

lemma in_tuple_iff: "in_tuple v names \<longleftrightarrow> (\<exists>s \<in> set names. is_lit v s)"
  by (simp add: in_tuple_def list_ex_iff)

lemma in_tuple_Nil [simp]: "\<not> in_tuple v []"
  by (simp add: in_tuple_def)

lemma in_tuple_Cons [simp]: "in_tuple v (s # names) \<longleftrightarrow> is_lit v s \<or> in_tuple v names"
  by (simp add: in_tuple_def)

lemma in_set_eq_Inr [run_simps]: "in_set v names = Inr b \<longleftrightarrow> hashable v \<and> b = in_tuple v names"
  by (auto simp: in_set_def)

lemma is_str_iff: "is_str v \<longleftrightarrow> (\<exists>s. v = PStr s)"
  by (cases v) (simp_all add: is_str_def)

lemma is_str_PStr [simp]: "is_str (PStr s)"
  by (simp add: is_str_def)

lemma the_str_PStr [simp]: "the_str (PStr s) = s"
  by (simp add: the_str_def)

lemma the_int_PInt [simp]: "the_int (PInt i) = i"
  by (simp add: the_int_def)

lemma the_list_PList [simp]: "the_list (PList xs) = xs"
  by (simp add: the_list_def)

text \<open>The guards \<open>isinstance(v, list) and ...\<close>, \<open>type(v) is int and ...\<close> and \<open>isinstance(v, str) and ...\<close>.\<close>

lemma list_guard [run_simps]:
  "(case v of PList xs \<Rightarrow> P xs | _ \<Rightarrow> False) \<longleftrightarrow> (\<exists>xs. v = PList xs \<and> P xs)"
  by (cases v) simp_all

lemma int_guard [run_simps]:
  "(case v of PInt i \<Rightarrow> Q i | _ \<Rightarrow> False) \<longleftrightarrow> (\<exists>i. v = PInt i \<and> Q i)"
  by (cases v) simp_all

lemma str_guard [run_simps]:
  "(case v of PStr s \<Rightarrow> R s | _ \<Rightarrow> False) \<longleftrightarrow> (\<exists>s. v = PStr s \<and> R s)"
  by (cases v) simp_all

lemma dict_set_keys: "fst ` set (dict_set k v kvs) = insert k (fst ` set kvs)"
  by (induction k v kvs rule: dict_set.induct) (simp_all add: insert_commute)

lemma map_of_dict_set: "map_of (dict_set k v kvs) = (map_of kvs)(k \<mapsto> v)"
  by (induction kvs) auto

lemma dict_set_new: "k \<notin> fst ` set kvs \<Longrightarrow> dict_set k v kvs = kvs @ [(k, v)]"
  by (induction kvs) auto

lemma map_of_dict_del: "map_of (dict_del k kvs) k' = (if k' = k then None else map_of kvs k')"
  by (induction kvs) (auto simp: dict_del_def)

lemma dict_del_keys: "fst ` set (dict_del k kvs) = fst ` set kvs - {k}"
  by (auto simp: dict_del_def)

lemma dict_set_distinct: "distinct (map fst kvs) \<Longrightarrow> distinct (map fst (dict_set k v kvs))"
proof (induction kvs)
  case (Cons kv kvs)
  moreover have "fst ` set (dict_set k v kvs) = insert k (fst ` set kvs)"
    by (rule dict_set_keys)
  ultimately show ?case by (cases kv) auto
qed simp

interpretation unique_object_loop: checked_loop unique_object_step
  "\<lambda>pairs result. result = pairs \<and> distinct (map fst pairs)"
proof unfold_locales
  fix seen result kv result'
  assume "result = seen \<and> distinct (map fst seen)" and "unique_object_step result kv = Inr result'"
  then show "result' = seen @ [kv] \<and> distinct (map fst (seen @ [kv]))"
    by (auto simp: unique_object_step_def run_simps dict_set_new split: prod.splits)
qed

lemma unique_object_loop_accepts:
  "distinct (map fst (result @ pairs)) \<Longrightarrow>
   foldE unique_object_step result pairs = Inr (result @ pairs)"
proof (induction pairs arbitrary: result)
  case (Cons kv pairs)
  obtain k v where kv: "kv = (k, v)" by (cases kv)
  from Cons.prems have "k \<notin> fst ` set result" by (auto simp: kv)
  then have step: "unique_object_step result kv = Inr (result @ [kv])"
    by (simp add: unique_object_step_def kv dict_set_new)
  have "distinct (map fst ((result @ [kv]) @ pairs))" using Cons.prems by simp
  from Cons.IH [OF this] step show ?case by simp
qed simp

lemma unique_object_eq_Inr:
  "unique_object pairs = Inr v \<longleftrightarrow> v = PDict pairs \<and> distinct (map fst pairs)"
proof
  assume "unique_object pairs = Inr v"
  then show "v = PDict pairs \<and> distinct (map fst pairs)"
    by (auto simp: unique_object_def run_simps dest: unique_object_loop.loop_inv_from_start [rotated])
next
  assume "v = PDict pairs \<and> distinct (map fst pairs)"
  then show "unique_object pairs = Inr v"
    using unique_object_loop_accepts [of "[]" pairs] by (simp add: unique_object_def)
qed

end
