(* ===== verification/Json_Text.thy ===== *)
theory Json_Text
  imports Py_Values "HOL-Library.List_Lexorder"
begin

text \<open>
  \<open>json.dumps\<close> as the checkers call it: with its default separators and \<open>ensure_ascii\<close>, and with
  \<open>sort_keys\<close> in \<open>key\<close> of trace_check.py.  The checkers compare values by comparing their
  \<open>key\<close> texts; the main lemma says when that comparison is exact.
\<close>

section \<open>Definitions\<close>

text \<open>UTF-16 code units of a code point; \<open>ensure_ascii\<close> escapes astral characters as two units.\<close>

definition units16 :: "nat \<Rightarrow> nat list" where
  "units16 c = (if c < 0x10000 then [c]
     else [0xD800 + (c - 0x10000) div 1024, 0xDC00 + (c - 0x10000) mod 1024])"

definition hex_char :: "nat \<Rightarrow> nat" where
  "hex_char n = (if n < 10 then 48 + n else 87 + n)"

text \<open>
  The escapes: quote 34, backslash 92, and the control characters with a letter of their
  own (n 110, r 114, t 116, f 102, b 98); what is not printable ASCII becomes \<open>\\uXXXX\<close> (u 117).
\<close>

definition esc_unit :: "nat \<Rightarrow> pstr" where
  "esc_unit u =
     (if u = 34 then [92, 34]
      else if u = 92 then [92, 92]
      else if u = 10 then [92, 110]
      else if u = 13 then [92, 114]
      else if u = 9 then [92, 116]
      else if u = 12 then [92, 102]
      else if u = 8 then [92, 98]
      else if 32 \<le> u \<and> u \<le> 126 then [u]
      else [92, 117, hex_char (u div 4096 mod 16), hex_char (u div 256 mod 16),
            hex_char (u div 16 mod 16), hex_char (u mod 16)])"

definition json_string :: "pstr \<Rightarrow> pstr" where
  "json_string s = 34 # concat (map esc_unit (concat (map units16 s))) @ [34]"

fun join :: "pstr \<Rightarrow> pstr list \<Rightarrow> pstr" where
  "join sep [] = []"
| "join sep [x] = x"
| "join sep (x # xs) = x @ sep @ join sep xs"

fun dumps :: "bool \<Rightarrow> pyval \<Rightarrow> pstr" where
  "dumps sort_keys PNone = lit ''null''"
| "dumps sort_keys (PBool b) = (if b then lit ''true'' else lit ''false'')"
| "dumps sort_keys (PInt i) = dec_int i"
| "dumps sort_keys (PFloat r) = r"
| "dumps sort_keys (PStr s) = json_string s"
| "dumps sort_keys (PList xs) = lit ''['' @ join (lit '', '') (map (dumps sort_keys) xs) @ lit '']''"
| "dumps sort_keys (PDict kvs) =
     (let items = map (\<lambda>(k, v). (k, dumps sort_keys v)) kvs;
          items = (if sort_keys then sort_key fst items else items)
      in lit ''{'' @ join (lit '', '') (map (\<lambda>(k, t). json_string k @ lit '': '' @ t) items) @ lit ''}'')"

text \<open>\<open>key\<close> of trace_check.py.\<close>

definition key :: "pyval \<Rightarrow> pstr" where
  "key m = dumps True m"

section \<open>Well-formed values\<close>

text \<open>
  A value with every \<open>dict\<close> put in the order of its keys: two values are the same JSON
  value exactly when these agree.
\<close>

fun canon :: "pyval \<Rightarrow> pyval" where
  "canon (PList xs) = PList (map canon xs)"
| "canon (PDict kvs) = PDict (sort_key fst (map (\<lambda>(k, v). (k, canon v)) kvs))"
| "canon v = v"

definition wf_float :: "pstr \<Rightarrow> bool" where
  "wf_float r \<longleftrightarrow> r \<in> {lit ''NaN'', lit ''Infinity'', lit ''-Infinity''} \<or>
     list_all (\<lambda>c. is_digit c \<or> c \<in> {43, 45, 46, 101}) r \<and> list_ex (\<lambda>c. c \<in> {46, 101}) r"

definition high_surrogate :: "nat \<Rightarrow> bool" where
  "high_surrogate c \<longleftrightarrow> 0xD800 \<le> c \<and> c < 0xDC00"

definition low_surrogate :: "nat \<Rightarrow> bool" where
  "low_surrogate c \<longleftrightarrow> 0xDC00 \<le> c \<and> c < 0xE000"

text \<open>
  No high surrogate directly before a low one: \<open>json.loads\<close> joins such a pair into one
  code point, so no string it produces from escapes holds one.
\<close>

fun wf_pstr :: "pstr \<Rightarrow> bool" where
  "wf_pstr (c # d # s) = (c < 0x110000 \<and> \<not> (high_surrogate c \<and> low_surrogate d) \<and> wf_pstr (d # s))"
| "wf_pstr [c] = (c < 0x110000)"
| "wf_pstr [] = True"

fun wf_pyval :: "pyval \<Rightarrow> bool" where
  "wf_pyval (PFloat r) = wf_float r"
| "wf_pyval (PStr s) = wf_pstr s"
| "wf_pyval (PList xs) = list_all wf_pyval xs"
| "wf_pyval (PDict kvs) = (distinct (map fst kvs) \<and> list_all (\<lambda>(k, v). wf_pstr k \<and> wf_pyval v) kvs)"
| "wf_pyval _ = True"

section \<open>Strings\<close>

definition unhex_char :: "nat \<Rightarrow> nat" where
  "unhex_char c = (if c < 58 then c - 48 else c - 87)"

definition unesc_unit :: "pstr \<Rightarrow> nat" where
  "unesc_unit cs = (case cs of
      [c] \<Rightarrow> c
    | [_, c] \<Rightarrow> (if c = 110 then 10 else if c = 114 then 13 else if c = 116 then 9
               else if c = 102 then 12 else if c = 98 then 8 else c)
    | [_, _, a, b, c, d] \<Rightarrow>
        unhex_char a * 4096 + unhex_char b * 256 + unhex_char c * 16 + unhex_char d
    | _ \<Rightarrow> 0)"

lemma unhex_hex_char: "n < 16 \<Longrightarrow> unhex_char (hex_char n) = n"
  by (simp add: hex_char_def unhex_char_def)

lemma split_hex: "(u :: nat) < 0x10000 \<Longrightarrow>
  u div 4096 mod 16 * 4096 + u div 256 mod 16 * 256 + u div 16 mod 16 * 16 + u mod 16 = u"
proof -
  assume "u < 0x10000"
  then have top: "u div 4096 mod 16 = u div 4096" by simp
  have a: "u div 16 * 16 + u mod 16 = u" by (rule div_mult_mod_eq)
  have "u div 16 div 16 = u div 256" by (simp add: div_mult2_eq [symmetric])
  then have b: "u div 256 * 16 + u div 16 mod 16 = u div 16" by (metis div_mult_mod_eq)
  have "u div 256 div 16 = u div 4096" by (simp add: div_mult2_eq [symmetric])
  then have c: "u div 4096 * 16 + u div 256 mod 16 = u div 256" by (metis div_mult_mod_eq)
  show ?thesis using top a b c by linarith
qed

lemma unesc_esc_unit: "u < 0x10000 \<Longrightarrow> unesc_unit (esc_unit u) = u"
proof -
  assume u: "u < 0x10000"
  have long: "unhex_char (hex_char (u div 4096 mod 16)) * 4096 + unhex_char (hex_char (u div 256 mod 16)) * 256
    + unhex_char (hex_char (u div 16 mod 16)) * 16 + unhex_char (hex_char (u mod 16)) = u"
    using split_hex [OF u] by (simp only: unhex_hex_char mod_less_divisor zero_less_numeral)
  show ?thesis
    unfolding esc_unit_def by (simp add: unesc_unit_def long del: mod_mod_trivial)
qed

lemma esc_unit_shape:
  "u < 0x10000 \<Longrightarrow>
     (\<exists>c. esc_unit u = [c] \<and> c \<noteq> 92 \<and> c \<noteq> 34)
   \<or> (\<exists>c. esc_unit u = [92, c] \<and> c \<noteq> 117)
   \<or> (\<exists>a b c d. esc_unit u = [92, 117, a, b, c, d])"
  by (auto simp: esc_unit_def)

lemma esc_unit_prefix:
  assumes "u < 0x10000" and "v < 0x10000" and "esc_unit u @ x = esc_unit v @ y"
  shows "u = v \<and> x = y"
proof -
  have "esc_unit u = esc_unit v \<and> x = y"
    using esc_unit_shape [OF assms(1)] esc_unit_shape [OF assms(2)] assms(3) by auto
  then show ?thesis using unesc_esc_unit assms(1,2) by metis
qed

lemma esc_unit_hd: "u < 0x10000 \<Longrightarrow> esc_unit u @ x \<noteq> 34 # y"
  using esc_unit_shape [of u] by auto

lemma esc_units_prefix:
  assumes "list_all (\<lambda>u. u < 0x10000) us" and "list_all (\<lambda>u. u < 0x10000) vs"
    and "concat (map esc_unit us) @ 34 # x = concat (map esc_unit vs) @ 34 # y"
  shows "us = vs \<and> x = y"
  using assms
proof (induction us arbitrary: vs)
  case Nil
  then show ?case by (cases vs) (auto dest: esc_unit_hd sym)
next
  case (Cons u us)
  from Cons.prems obtain v vs' where vs: "vs = v # vs'"
    by (cases vs) (auto dest: esc_unit_hd)
  from Cons.prems vs have "u = v \<and> concat (map esc_unit us) @ 34 # x = concat (map esc_unit vs') @ 34 # y"
    by (intro esc_unit_prefix) auto
  with Cons vs show ?case by auto
qed

fun join16 :: "nat list \<Rightarrow> pstr" where
  "join16 (u # v # us) =
     (if high_surrogate u \<and> low_surrogate v
      then (0x10000 + (u - 0xD800) * 1024 + (v - 0xDC00)) # join16 us
      else u # join16 (v # us))"
| "join16 [u] = [u]"
| "join16 [] = []"

lemma units16_range: "c < 0x110000 \<Longrightarrow> list_all (\<lambda>u. u < 0x10000) (units16 c)"
  by (auto simp: units16_def)

lemma join16_astral:
  assumes "0x10000 \<le> c" and "c < 0x110000"
  shows "join16 (units16 c @ us) = c # join16 us"
proof -
  let ?v = "c - 0x10000"
  have "?v div 1024 < 1024" using assms by simp
  moreover have "?v mod 1024 < 1024" by simp
  moreover have "?v div 1024 * 1024 + ?v mod 1024 = ?v" by (rule div_mult_mod_eq)
  ultimately show ?thesis using assms
    by (simp add: units16_def high_surrogate_def low_surrogate_def)
qed

lemma units16_hd:
  assumes "d < 0x110000"
  shows "\<exists>e es. units16 d = e # es \<and> (low_surrogate e \<longleftrightarrow> low_surrogate d)"
proof (cases "d < 0x10000")
  case True
  then show ?thesis by (simp add: units16_def)
next
  case False
  then have "(d - 0x10000) div 1024 < 1024" using assms by simp
  then show ?thesis using False by (simp add: units16_def low_surrogate_def)
qed

lemma wf_pstr_Cons: "wf_pstr (c # s) \<Longrightarrow> c < 0x110000 \<and> wf_pstr s"
  by (cases s) auto

lemma join16_units16: "wf_pstr s \<Longrightarrow> join16 (concat (map units16 s)) = s"
proof (induction s rule: wf_pstr.induct)
  case (1 c d s)
  show ?case
  proof (cases "c < 0x10000")
    case True
    obtain e es where e: "units16 d = e # es" and low: "low_surrogate e \<longleftrightarrow> low_surrogate d"
      using units16_hd [of d] wf_pstr_Cons [of d s] 1 by auto
    have "\<not> (high_surrogate c \<and> low_surrogate e)" using 1 low by simp
    then show ?thesis using True 1 e by (simp add: units16_def [of c])
  next
    case False
    then show ?thesis using 1 by (simp add: join16_astral)
  qed
next
  case (2 c)
  then show ?case
    using join16_astral [of c "[]"] by (cases "c < 0x10000") (auto simp: units16_def)
qed simp

lemma units16_list_range: "wf_pstr s \<Longrightarrow> list_all (\<lambda>u. u < 0x10000) (concat (map units16 s))"
  by (induction s rule: wf_pstr.induct) (auto simp: units16_range)

lemma json_string_prefix:
  assumes "wf_pstr s" and "wf_pstr t" and "json_string s @ x = json_string t @ y"
  shows "s = t \<and> x = y"
proof -
  have "concat (map units16 s) = concat (map units16 t) \<and> x = y"
    using assms units16_list_range by (intro esc_units_prefix) (auto simp: json_string_def)
  then show ?thesis using join16_units16 assms(1,2) by metis
qed

section \<open>The text determines the value\<close>

definition delim :: "pstr \<Rightarrow> bool" where
  "delim r \<longleftrightarrow> r = [] \<or> hd r \<in> {44, 93, 125, 10}"

lemma delim_Cons [simp]: "delim (c # r) \<longleftrightarrow> c \<in> {44, 93, 125, 10}"
  by (simp add: delim_def)

lemma append_delim_eq:
  assumes "\<And>c. c \<in> set a \<Longrightarrow> c \<notin> {44, 93, 125, 10}" and "\<And>c. c \<in> set b \<Longrightarrow> c \<notin> {44, 93, 125, 10}"
    and "delim r" and "delim s" and "a @ r = b @ s"
  shows "a = b \<and> r = s"
  using assms
proof (induction a arbitrary: b)
  case Nil
  then show ?case by (cases b) (auto simp: delim_def)
next
  case (Cons c a)
  show ?case
  proof (cases b)
    case Nil
    then show ?thesis using Cons.prems by auto
  next
    case (Cons d b')
    then show ?thesis using Cons.IH [of b'] Cons.prems by auto
  qed
qed

text \<open>Values whose text has no inner structure.\<close>

fun atom :: "pyval \<Rightarrow> bool" where
  "atom (PStr _) = False"
| "atom (PList _) = False"
| "atom (PDict _) = False"
| "atom _ = True"

lemma lit_codes:
  "lit ''null'' = [110, 117, 108, 108]" "lit ''true'' = [116, 114, 117, 101]"
  "lit ''false'' = [102, 97, 108, 115, 101]" "lit ''NaN'' = [78, 97, 78]"
  "lit ''Infinity'' = [73, 110, 102, 105, 110, 105, 116, 121]"
  "lit ''-Infinity'' = [45, 73, 110, 102, 105, 110, 105, 116, 121]"
  "lit ''['' = [91]" "lit '']'' = [93]" "lit ''{'' = [123]" "lit ''}'' = [125]"
  "lit '', '' = [44, 32]" "lit '': '' = [58, 32]"
  by (simp_all add: lit_def)

lemma dec_int_code: "c \<in> set (dec_int i) \<Longrightarrow> c = 45 \<or> (48 \<le> c \<and> c \<le> 57)"
  by (auto dest: dec_int_chars simp: is_digit_def)

lemma wf_float_code:
  "wf_float r \<Longrightarrow> c \<in> set r \<Longrightarrow>
     c \<in> {43, 45, 46, 101, 78, 97, 73, 110, 102, 105, 116, 121} \<or> (48 \<le> c \<and> c \<le> 57)"
  by (auto simp: wf_float_def lit_codes list_all_iff is_digit_def)

lemma wf_float_not_int: "wf_float r \<Longrightarrow> \<exists>c \<in> set r. c \<in> {46, 101, 78, 73}"
proof -
  assume "wf_float r"
  then consider "r \<in> {lit ''NaN'', lit ''Infinity'', lit ''-Infinity''}" | "list_ex (\<lambda>c. c \<in> {46, 101}) r"
    unfolding wf_float_def by blast
  then show ?thesis
  proof cases
    case 1
    then have "78 \<in> set r \<or> 73 \<in> set r" by (auto simp: lit_codes)
    then show ?thesis by blast
  next
    case 2
    then show ?thesis unfolding list_ex_iff by blast
  qed
qed

lemma wf_float_ne: "wf_float r \<Longrightarrow> r \<noteq> []"
  by (auto simp: wf_float_def lit_codes)

lemma wf_float_keywords:
  "\<not> wf_float (lit ''null'')" "\<not> wf_float (lit ''true'')" "\<not> wf_float (lit ''false'')"
  by (auto simp: wf_float_def lit_codes is_digit_def)

lemma dec_int_keywords:
  "dec_int i \<noteq> lit ''null''" "dec_int i \<noteq> lit ''true''" "dec_int i \<noteq> lit ''false''"
proof -
  have "117 \<notin> set (dec_int i)" and "115 \<notin> set (dec_int i)"
    using dec_int_code [of 117 i] dec_int_code [of 115 i] by auto
  then show "dec_int i \<noteq> lit ''null''" "dec_int i \<noteq> lit ''true''" "dec_int i \<noteq> lit ''false''"
    by (auto simp: lit_codes)
qed

lemma wf_float_ne_dec_int: "wf_float r \<Longrightarrow> r \<noteq> dec_int i"
proof
  assume "wf_float r" and "r = dec_int i"
  then obtain c where "c \<in> set (dec_int i)" and "c \<in> {46, 101, 78, 73}"
    using wf_float_not_int by auto
  then show False using dec_int_code [of c i] by auto
qed

lemma atom_inj:
  assumes "atom v" and "atom w" and "wf_pyval v" and "wf_pyval w" and "dumps b v = dumps b w"
  shows "v = w"
  using assms
  by (cases v; cases w)
    (auto simp: wf_float_keywords dec_int_keywords dec_int_keywords [THEN not_sym]
      dest: wf_float_ne_dec_int wf_float_ne_dec_int [THEN not_sym] split: if_splits)

lemma atom_nondelim: "atom v \<Longrightarrow> wf_pyval v \<Longrightarrow> c \<in> set (dumps b v) \<Longrightarrow> c \<notin> {44, 93, 125, 10}"
  by (cases v) (auto simp: lit_codes dest: dec_int_code wf_float_code split: if_splits)

lemma dumps_hd:
  assumes "wf_pyval v"
  obtains c cs where "dumps b v = c # cs" and "c = 34 \<longleftrightarrow> is_str v" and "c = 91 \<longleftrightarrow> (\<exists>xs. v = PList xs)"
    and "c = 123 \<longleftrightarrow> (\<exists>kvs. v = PDict kvs)" and "c \<notin> {44, 93, 125, 10}"
proof (cases "atom v")
  case True
  have "dumps b v \<noteq> []" using True assms wf_float_ne by (cases v) (auto simp: lit_codes)
  then obtain c cs where t: "dumps b v = c # cs" by (auto simp: neq_Nil_conv)
  moreover have "c \<notin> {34, 91, 123}"
  proof (cases v)
    case (PInt i)
    then have "c \<in> set (dec_int i)" using t by simp
    then show ?thesis by (auto dest: dec_int_code)
  qed (use t True assms in \<open>auto simp: lit_codes dest: wf_float_code [of _ c] split: if_splits\<close>)
  moreover have "c \<notin> {44, 93, 125, 10}" using atom_nondelim [OF True assms, of c b] t by simp
  ultimately show thesis using True that by (cases v) (auto simp: is_str_def)
next
  case False
  then show thesis using that by (cases v) (auto simp: lit_codes json_string_def is_str_def Let_def)
qed

lemma join_tail:
  "join sep (map enc (x # xs)) @ r = enc x @ (if xs = [] then r else sep @ join sep (map enc xs) @ r)"
  by (cases xs) simp_all

text \<open>
  A bracketed, comma-separated list is determined by its text when each of its elements
  is determined by a text that ends at a delimiter.
\<close>

lemma join_prefix:
  assumes "\<And>x y r s. x \<in> set xs \<Longrightarrow> y \<in> set ys \<Longrightarrow> delim r \<Longrightarrow> delim s \<Longrightarrow>
      enc x @ r = enc y @ s \<Longrightarrow> x = y \<and> r = s"
    and "\<And>x t u. x \<in> set xs \<union> set ys \<Longrightarrow> enc x @ t \<noteq> close # u"
    and "close \<in> {93, 125}"
    and "join [44, 32] (map enc xs) @ close # r = join [44, 32] (map enc ys) @ close # s"
  shows "xs = ys \<and> r = s"
  using assms
proof (induction xs arbitrary: ys)
  case Nil
  show ?case
  proof (cases ys)
    case Nil
    then show ?thesis using Nil.prems by simp
  next
    case (Cons y ys')
    let ?rest = "if ys' = [] then close # s else [44, 32] @ join [44, 32] (map enc ys') @ close # s"
    have "close # r = enc y @ ?rest"
      using Nil.prems(4) unfolding Cons join_tail by (simp only: list.map join.simps append_Nil)
    then show ?thesis using Nil.prems(2) [of y ?rest r] Cons by simp
  qed
next
  case (Cons x xs)
  show ?case
  proof (cases ys)
    case Nil
    let ?rest = "if xs = [] then close # r else [44, 32] @ join [44, 32] (map enc xs) @ close # r"
    have "close # s = enc x @ ?rest"
      using Cons.prems(4) unfolding Nil join_tail by (simp only: list.map join.simps append_Nil)
    then show ?thesis using Cons.prems(2) [of x ?rest s] by simp
  next
    case ys: (Cons y ys')
    let ?rest = "\<lambda>zs t. if zs = [] then close # t else [44, 32] @ join [44, 32] (map enc zs) @ close # t"
    have "enc x @ ?rest xs r = enc y @ ?rest ys' s"
      using Cons.prems(4) unfolding ys join_tail .
    moreover have "delim (?rest zs t)" for zs t using Cons.prems(3) by auto
    ultimately have xy: "x = y" and rest: "?rest xs r = ?rest ys' s"
      using Cons.prems(1) [of x y "?rest xs r" "?rest ys' s"] ys by auto
    show ?thesis
    proof (cases "xs = [] \<or> ys' = []")
      case True
      then show ?thesis using rest Cons.prems(3) xy ys by (auto split: if_splits)
    next
      case False
      then have "join [44, 32] (map enc xs) @ close # r = join [44, 32] (map enc ys') @ close # s"
        using rest by simp
      then have "xs = ys' \<and> r = s"
      proof (rule Cons.IH [rotated 3])
        show "u = v \<and> p = q" if "u \<in> set xs" "v \<in> set ys'" "delim p" "delim q" "enc u @ p = enc v @ q"
          for u v p q
          using Cons.prems(1) [of u v p q] that ys by simp
        show "enc u @ p \<noteq> close # q" if "u \<in> set xs \<union> set ys'" for u p q
          using Cons.prems(2) [of u p q] that ys by auto
      qed (rule Cons.prems(3))
      then show ?thesis using xy ys by simp
    qed
  qed
qed

lemma dumps_same_shape:
  assumes "wf_pyval v" and "wf_pyval w" and "dumps b v @ r = dumps b w @ s"
  shows "(is_str v \<longleftrightarrow> is_str w) \<and> ((\<exists>xs. v = PList xs) \<longleftrightarrow> (\<exists>xs. w = PList xs)) \<and>
    ((\<exists>kvs. v = PDict kvs) \<longleftrightarrow> (\<exists>kvs. w = PDict kvs))"
proof -
  obtain c cs where c: "dumps b v = c # cs" "c = 34 \<longleftrightarrow> is_str v" "c = 91 \<longleftrightarrow> (\<exists>xs. v = PList xs)"
    "c = 123 \<longleftrightarrow> (\<exists>kvs. v = PDict kvs)" using dumps_hd [OF assms(1)] by metis
  obtain d ds where d: "dumps b w = d # ds" "d = 34 \<longleftrightarrow> is_str w" "d = 91 \<longleftrightarrow> (\<exists>xs. w = PList xs)"
    "d = 123 \<longleftrightarrow> (\<exists>kvs. w = PDict kvs)" using dumps_hd [OF assms(2)] by metis
  have "c = d" using assms(3) c(1) d(1) by simp
  then show ?thesis using c d by blast
qed

lemma dumps_prefix_atom:
  assumes "atom v" and "wf_pyval v" and "wf_pyval w" and "delim r" and "delim s"
    and "dumps b v @ r = dumps b w @ s"
  shows "v = w \<and> r = s"
proof -
  have "atom w" using dumps_same_shape [OF assms(2,3,6)] assms(1) by (cases w; cases v) (auto simp: is_str_def)
  then have "dumps b v = dumps b w \<and> r = s"
    using append_delim_eq [OF _ _ assms(4-6)] atom_nondelim assms(1-3) by metis
  then show ?thesis using atom_inj [OF assms(1) \<open>atom w\<close> assms(2,3)] by blast
qed

lemma dumps_prefix:
  assumes "wf_pyval v" and "wf_pyval w" and "delim r" and "delim s"
    and "dumps False v @ r = dumps False w @ s"
  shows "v = w \<and> r = s"
  using assms
proof (induction v arbitrary: w r s)
  case (PStr t)
  obtain t' where w: "w = PStr t'"
    using dumps_same_shape [OF PStr.prems(1,2,5)] by (auto simp: is_str_iff)
  then show ?case using json_string_prefix [of t t' r s] PStr.prems by simp
next
  case (PList xs)
  obtain ys where w: "w = PList ys" using dumps_same_shape [OF PList.prems(1,2,5)] by auto
  have "xs = ys \<and> r = s"
  proof (rule join_prefix [where enc = "dumps False" and close = 93])
    fix x y r s
    assume "x \<in> set xs" "y \<in> set ys" "delim r" "delim s" "dumps False x @ r = dumps False y @ s"
    then show "x = y \<and> r = s"
      using PList.IH [of x y] PList.prems(1,2) w by (auto simp: list_all_iff)
  next
    fix x t u assume "x \<in> set xs \<union> set ys"
    then have "wf_pyval x" using PList.prems(1,2) w by (auto simp: list_all_iff)
    then obtain c cs where "dumps False x = c # cs" and "c \<notin> {44, 93, 125, 10}" using dumps_hd by metis
    then show "dumps False x @ t \<noteq> 93 # u" by auto
  qed (use PList.prems w in \<open>simp_all add: lit_codes\<close>)
  then show ?case using w by simp
next
  case (PDict kvs)
  obtain kvs' where w: "w = PDict kvs'" using dumps_same_shape [OF PDict.prems(1,2,5)] by auto
  let ?enc = "\<lambda>(k, v). json_string k @ lit '': '' @ dumps False v"
  have dict_text: "dumps False (PDict items) = 123 # join [44, 32] (map ?enc items) @ [125]" for items
    by (simp add: lit_codes Let_def comp_def case_prod_unfold)
  have eq: "join [44, 32] (map ?enc kvs) @ 125 # r = join [44, 32] (map ?enc kvs') @ 125 # s"
    using PDict.prems(5) unfolding w dict_text by simp
  have "kvs = kvs' \<and> r = s"
  proof (rule join_prefix [where enc = ?enc and close = 125, OF _ _ _ eq])
    fix x y r s
    assume *: "x \<in> set kvs" "y \<in> set kvs'" "delim r" "delim s" "?enc x @ r = ?enc y @ s"
    obtain k v k' v' where x: "x = (k, v)" and y: "y = (k', v')" by (cases x; cases y)
    have wf: "wf_pstr k" "wf_pstr k'" "wf_pyval v" "wf_pyval v'"
      using * PDict.prems(1,2) w x y by (auto simp: list_all_iff)
    have "json_string k @ (lit '': '' @ dumps False v @ r) = json_string k' @ (lit '': '' @ dumps False v' @ s)"
      using * x y by simp
    then have "k = k'" and "dumps False v @ r = dumps False v' @ s"
      using json_string_prefix [OF wf(1,2)] by auto
    then show "x = y \<and> r = s"
      using PDict.IH [of x v v' r s] * wf x y by auto
  next
    fix x t u assume "x \<in> set kvs \<union> set kvs'"
    show "?enc x @ t \<noteq> 125 # u" by (cases x) (simp add: json_string_def)
  qed simp
  then show ?case using w by simp
qed (rule dumps_prefix_atom; simp)+

section \<open>key compares JSON values\<close>

lemma sort_key_fst_map_snd:
  "sort_key fst (map (\<lambda>(k, v). (k, f v)) kvs) = map (\<lambda>(k, v). (k, f v)) (sort_key fst kvs)"
proof -
  have insort: "insort_key fst (k, f v) (map (\<lambda>(k, v). (k, f v)) xs) =
      map (\<lambda>(k, v). (k, f v)) (insort_key fst (k, v) xs)" for k v xs
    by (induction xs) auto
  show ?thesis by (induction kvs) (auto simp: insort)
qed

lemma dumps_canon: "dumps False (canon v) = dumps True v"
proof (induction v)
  case (PDict kvs)
  have "map ((\<lambda>(k, v). (k, dumps False v)) \<circ> (\<lambda>(k, v). (k, canon v))) kvs = map (\<lambda>(k, v). (k, dumps True v)) kvs"
    using PDict.IH by (auto simp: snds.simps)
  then have "map (\<lambda>(k, v). (k, dumps False v)) (sort_key fst (map (\<lambda>(k, v). (k, canon v)) kvs)) =
      sort_key fst (map (\<lambda>(k, v). (k, dumps True v)) kvs)"
    unfolding sort_key_fst_map_snd [symmetric] map_map by (rule arg_cong)
  then show ?case by (simp only: canon.simps dumps.simps Let_def if_True if_False)
qed (simp_all cong: map_cong)

lemma wf_canon: "wf_pyval v \<Longrightarrow> wf_pyval (canon v)"
proof (induction v)
  case (PDict kvs)
  have same: "mset (map fst (sort_key fst (map (\<lambda>(k, v). (k, canon v)) kvs))) = mset (map fst kvs)"
    by (simp add: mset_map comp_def case_prod_unfold multiset.map_comp)
  have "distinct (map fst (sort_key fst (map (\<lambda>(k, v). (k, canon v)) kvs)))"
    using mset_eq_imp_distinct_iff [OF same] PDict.prems by simp
  then show ?case using PDict by (fastforce simp: list_all_iff snds.simps)
qed (auto simp: list_all_iff)

text \<open>
  Comparing \<open>key\<close> texts decides equality of JSON values: the order of the keys of a \<open>dict\<close>
  does not matter, everything else does (integers, floats and booleans included).
\<close>

lemma key_eq_iff: "wf_pyval v \<Longrightarrow> wf_pyval w \<Longrightarrow> key v = key w \<longleftrightarrow> canon v = canon w"
proof
  assume "wf_pyval v" and "wf_pyval w" and "key v = key w"
  then have "dumps False (canon v) @ [] = dumps False (canon w) @ []"
    by (simp add: key_def dumps_canon)
  then show "canon v = canon w"
    using dumps_prefix [of "canon v" "canon w" "[]" "[]"] wf_canon \<open>wf_pyval v\<close> \<open>wf_pyval w\<close>
    by (simp add: delim_def)
next
  assume "canon v = canon w"
  then show "key v = key w" using dumps_canon [of v] dumps_canon [of w] by (simp add: key_def)
qed

end
