(* ===== verification/Payload_Codec.thy ===== *)
theory Payload_Codec
  imports Py_Values
begin

text \<open>
  The payload encoding of trace_check.py: a Python string is encoded as UTF-8 and printed
  as lower-case hexadecimal.  Every identity the checkers compare (commands, proposal and
  read contexts, register values, operation ids) goes through it, so its injectivity is
  what keeps distinct client operations distinct.
\<close>

section \<open>Encoders and decoders as an interface\<close>

text \<open>
  What a client of an encoder relies on: a decoder recovers the input of every encoding
  that succeeds.
\<close>

locale codec =
  fixes enc :: "'a \<Rightarrow> 'e + 'b"
    and dec :: "'b \<Rightarrow> 'a"
    and valid :: "'a \<Rightarrow> bool"
  assumes dec_enc: "valid x \<Longrightarrow> enc x = Inr y \<Longrightarrow> dec y = x"
begin

lemma enc_inj: "valid x \<Longrightarrow> valid y \<Longrightarrow> enc x = Inr z \<Longrightarrow> enc y = Inr z \<Longrightarrow> x = y"
  by (auto dest: dec_enc)

lemma mapE_dec: "list_all valid xs \<Longrightarrow> mapE enc xs = Inr ys \<Longrightarrow> map dec ys = xs"
  by (induction xs arbitrary: ys) (auto simp: run_simps dec_enc)

end

text \<open>Two encoders in sequence are an encoder, when the first produces what the second accepts.\<close>

locale codec_chain = first: codec enc1 dec1 valid1 + second: codec enc2 dec2 valid2
  for enc1 :: "'a \<Rightarrow> 'e + 'b" and dec1 :: "'b \<Rightarrow> 'a" and valid1 :: "'a \<Rightarrow> bool"
    and enc2 :: "'b \<Rightarrow> 'e + 'c" and dec2 :: "'c \<Rightarrow> 'b" and valid2 :: "'b \<Rightarrow> bool" +
  assumes enc1_valid: "valid1 x \<Longrightarrow> enc1 x = Inr y \<Longrightarrow> valid2 y"
begin

lemma chain_dec: "valid1 x \<Longrightarrow> bindE (enc1 x) enc2 = Inr z \<Longrightarrow> dec1 (dec2 z) = x"
  by (auto simp: run_simps dest: first.dec_enc second.dec_enc enc1_valid)

end

sublocale codec_chain \<subseteq> chained: codec "\<lambda>x. bindE (enc1 x) enc2" "\<lambda>z. dec1 (dec2 z)" valid1
  by unfold_locales (rule chain_dec)

section \<open>UTF-8\<close>

text \<open>
  \<open>str.encode("utf-8")\<close>, strict: a surrogate code point raises \<open>UnicodeEncodeError\<close>.  Numbers
  from 0x110000 on are no code points; the model gives them the same exception.
\<close>

definition is_surrogate :: "nat \<Rightarrow> bool" where
  "is_surrogate c \<longleftrightarrow> 0xD800 \<le> c \<and> c \<le> 0xDFFF"

definition utf8_char :: "nat \<Rightarrow> nat list res" where
  "utf8_char c =
     (if c < 0x80 then Inr [c]
      else if c < 0x800 then Inr [0xC0 + c div 64, 0x80 + c mod 64]
      else if is_surrogate c \<or> 0x110000 \<le> c then Inl UnicodeEncodeError
      else if c < 0x10000 then
        Inr [0xE0 + c div 4096, 0x80 + c div 64 mod 64, 0x80 + c mod 64]
      else
        Inr [0xF0 + c div 262144, 0x80 + c div 4096 mod 64, 0x80 + c div 64 mod 64, 0x80 + c mod 64])"

definition utf8_encode :: "pstr \<Rightarrow> nat list res" where
  "utf8_encode s = bindE (mapE utf8_char s) (\<lambda>bs. Inr (concat bs))"

fun utf8_decode :: "nat list \<Rightarrow> pstr" where
  "utf8_decode [] = []"
| "utf8_decode (b # bs) =
     (if b < 0x80 then b # utf8_decode bs
      else if b < 0xE0 then (case bs of
          c1 # r \<Rightarrow> ((b - 0xC0) * 64 + (c1 - 0x80)) # utf8_decode r
        | _ \<Rightarrow> [])
      else if b < 0xF0 then (case bs of
          c1 # c2 # r \<Rightarrow> ((b - 0xE0) * 4096 + (c1 - 0x80) * 64 + (c2 - 0x80)) # utf8_decode r
        | _ \<Rightarrow> [])
      else (case bs of
          c1 # c2 # c3 # r \<Rightarrow>
            ((b - 0xF0) * 262144 + (c1 - 0x80) * 4096 + (c2 - 0x80) * 64 + (c3 - 0x80)) # utf8_decode r
        | _ \<Rightarrow> []))"

lemma split_64: "(c :: nat) div 64 * 64 + c mod 64 = c"
  by (rule div_mult_mod_eq)

lemma split_4096: "(c :: nat) div 4096 * 4096 + c div 64 mod 64 * 64 + c mod 64 = c"
proof -
  have "c div 4096 = c div 64 div 64" by (simp add: div_mult2_eq [symmetric])
  then have "c div 4096 * 64 + c div 64 mod 64 = c div 64" by (simp add: split_64)
  then have "(c div 4096 * 64 + c div 64 mod 64) * 64 + c mod 64 = c" by (simp add: split_64)
  then show ?thesis by (simp add: algebra_simps)
qed

lemma split_262144:
  "(c :: nat) div 262144 * 262144 + c div 4096 mod 64 * 4096 + c div 64 mod 64 * 64 + c mod 64 = c"
proof -
  have "c div 262144 = c div 4096 div 64" by (simp add: div_mult2_eq [symmetric])
  then have "c div 262144 * 64 + c div 4096 mod 64 = c div 4096" by (simp add: split_64)
  then have "(c div 262144 * 64 + c div 4096 mod 64) * 4096 = c div 4096 * 4096" by simp
  then show ?thesis using split_4096 [of c] by (simp add: algebra_simps)
qed

lemma utf8_decode_char:
  assumes "utf8_char c = Inr bs"
  shows "utf8_decode (bs @ r) = c # utf8_decode r"
proof -
  consider "c < 0x80" | "0x80 \<le> c" "c < 0x800" | "0x800 \<le> c" "c < 0x10000" | "0x10000 \<le> c" "c < 0x110000"
    using assms by (auto simp: utf8_char_def split: if_splits)
  then show ?thesis
  proof cases
    case 1
    then show ?thesis using assms by (auto simp: utf8_char_def)
  next
    case 2
    then have "c div 64 < 32" by simp
    then show ?thesis using 2 assms split_64 [of c] by (auto simp: utf8_char_def)
  next
    case 3
    then have "c div 4096 < 16" by simp
    then show ?thesis using 3 assms split_4096 [of c]
      by (auto simp: utf8_char_def split: if_splits)
  next
    case 4
    then show ?thesis using assms split_262144 [of c]
      by (auto simp: utf8_char_def split: if_splits)
  qed
qed

lemma utf8_decode_encode: "utf8_encode s = Inr bs \<Longrightarrow> utf8_decode bs = s"
proof (induction s arbitrary: bs)
  case (Cons c s)
  then obtain b rest where "utf8_char c = Inr b" and "mapE utf8_char s = Inr rest"
    and "bs = b @ concat rest"
    by (auto simp: utf8_encode_def run_simps)
  with Cons.IH show ?case by (auto simp: utf8_encode_def utf8_decode_char)
qed (simp add: utf8_encode_def)

lemma utf8_char_bytes: "utf8_char c = Inr bs \<Longrightarrow> b \<in> set bs \<Longrightarrow> b < 256"
  by (auto simp: utf8_char_def split: if_splits)

lemma utf8_encode_bytes: "utf8_encode s = Inr bs \<Longrightarrow> b \<in> set bs \<Longrightarrow> b < 256"
  by (auto simp: utf8_encode_def run_simps) (metis mapE_set utf8_char_bytes)

lemma utf8_char_ascii: "c < 0x80 \<Longrightarrow> utf8_char c = Inr [c]"
  by (simp add: utf8_char_def)

lemma utf8_encode_ascii: "(\<And>c. c \<in> set s \<Longrightarrow> c < 0x80) \<Longrightarrow> utf8_encode s = Inr s"
  by (induction s) (auto simp: utf8_encode_def run_simps utf8_char_ascii)

lemma utf8_encode_not_Nil: "utf8_encode s = Inr bs \<Longrightarrow> bs = [] \<longleftrightarrow> s = []"
proof -
  assume enc: "utf8_encode s = Inr bs"
  have "s = [] \<Longrightarrow> bs = []" using enc by (simp add: utf8_encode_def)
  moreover have "bs = [] \<Longrightarrow> s = []" using utf8_decode_encode [OF enc] by simp
  ultimately show ?thesis by blast
qed

interpretation utf8: codec utf8_encode utf8_decode "\<lambda>_. True"
  by unfold_locales (rule utf8_decode_encode)

section \<open>Hexadecimal\<close>

definition hex_digit :: "nat \<Rightarrow> nat" where
  "hex_digit n = (if n < 10 then 48 + n else 87 + n)"

definition unhex_digit :: "nat \<Rightarrow> nat" where
  "unhex_digit c = (if c < 58 then c - 48 else c - 87)"

text \<open>\<open>bytes.hex()\<close>.\<close>

fun hex :: "nat list \<Rightarrow> pstr" where
  "hex [] = []"
| "hex (b # bs) = hex_digit (b div 16) # hex_digit (b mod 16) # hex bs"

fun unhex :: "pstr \<Rightarrow> nat list" where
  "unhex (h # l # cs) = (unhex_digit h * 16 + unhex_digit l) # unhex cs"
| "unhex _ = []"

lemma unhex_hex_digit: "n < 16 \<Longrightarrow> unhex_digit (hex_digit n) = n"
  by (simp add: hex_digit_def unhex_digit_def)

lemma unhex_hex: "(\<And>b. b \<in> set bs \<Longrightarrow> b < 256) \<Longrightarrow> unhex (hex bs) = bs"
proof (induction bs)
  case (Cons b bs)
  then have "b < 256" by simp
  then have "b div 16 < 16" by simp
  with Cons show ?case by (simp add: unhex_hex_digit)
qed simp

lemma length_hex [simp]: "length (hex bs) = 2 * length bs"
  by (induction bs) auto

lemma hex_eq_Nil [simp]: "hex bs = [] \<longleftrightarrow> bs = []"
  by (cases bs) simp_all

lemma hex_digit_range: "n < 16 \<Longrightarrow> hex_digit n < 0x80"
  by (simp add: hex_digit_def)

lemma hex_ascii: "(\<And>b. b \<in> set bs \<Longrightarrow> b < 256) \<Longrightarrow> c \<in> set (hex bs) \<Longrightarrow> c < 0x80"
proof (induction bs)
  case (Cons b bs)
  then have "b < 256" by simp
  then have "b div 16 < 16" by simp
  with Cons show ?case by (auto intro: hex_digit_range)
qed simp

section \<open>payload of trace_check.py\<close>

definition payload :: "pyval \<Rightarrow> pstr res" where
  "payload value = (case value of
      PStr s \<Rightarrow> bindE (utf8_encode s) (\<lambda>bs.
        bindE (require (length bs \<le> 4096) ''Unsupported payload'') (\<lambda>_. Inr (hex bs)))
    | _ \<Rightarrow> Inl (ValueError ''Unsupported payload''))"

lemma payload_eq_Inr [run_simps]:
  "payload v = Inr h \<longleftrightarrow>
     (\<exists>s bs. v = PStr s \<and> utf8_encode s = Inr bs \<and> length bs \<le> 4096 \<and> h = hex bs)"
  by (auto simp: payload_def run_simps split: pyval.splits)

text \<open>
  Both stages are codecs, hence so is their composition; \<open>payload\<close> is that composition on
  strings.
\<close>

interpretation utf8_hex: codec_chain utf8_encode utf8_decode "\<lambda>_. True"
  "\<lambda>bs. bindE (require (length bs \<le> 4096) ''Unsupported payload'') (\<lambda>_. Inr (hex bs))" unhex
  "\<lambda>bs. \<forall>b \<in> set bs. b < 256"
  by unfold_locales (auto simp: run_simps unhex_hex dest: utf8_encode_bytes)

lemma payload_PStr:
  "payload (PStr s) = bindE (utf8_encode s) (\<lambda>bs.
     bindE (require (length bs \<le> 4096) ''Unsupported payload'') (\<lambda>_. Inr (hex bs)))"
  by (simp add: payload_def)

lemma payload_dec: "payload v = Inr h \<Longrightarrow> PStr (utf8_decode (unhex h)) = v"
proof -
  assume h: "payload v = Inr h"
  then obtain s where v: "v = PStr s" by (auto simp: payload_eq_Inr)
  from h have "utf8_decode (unhex h) = s"
    unfolding v payload_PStr by (rule utf8_hex.chain_dec [OF TrueI])
  then show ?thesis by (simp add: v)
qed

interpretation payload_codec: codec payload "\<lambda>h. PStr (utf8_decode (unhex h))" "\<lambda>_. True"
  by unfold_locales (rule payload_dec)

lemma payload_bound: "payload v = Inr h \<Longrightarrow> length h \<le> 8192"
  by (auto simp: run_simps)

lemma payload_ascii: "payload v = Inr h \<Longrightarrow> c \<in> set h \<Longrightarrow> c < 0x80"
  by (auto simp: run_simps intro: hex_ascii dest: utf8_encode_bytes)

lemma payload_Nil_iff: "payload v = Inr h \<Longrightarrow> h = [] \<longleftrightarrow> v = PStr []"
  by (auto simp: run_simps utf8_encode_not_Nil)

lemma payload_error: "payload v = Inl e \<Longrightarrow> is_value_error e"
proof -
  assume "payload v = Inl e"
  moreover have "mapE utf8_char s = Inl e' \<Longrightarrow> e' = UnicodeEncodeError" for s e'
    by (induction s) (auto simp: run_simps utf8_char_def split: if_splits)
  ultimately show ?thesis
    by (auto simp: payload_def utf8_encode_def run_simps is_value_error_def
        split: pyval.splits exc.splits)
qed

end
