(* ===== verification/Json_Parse.thy ===== *)
theory Json_Parse
  imports Json_Text Payload_Codec
begin

text \<open>
  \<open>json.loads\<close>, as the checkers call it with \<open>object_pairs_hook=unique_object\<close> on the lines of a
  trace and on a witness file, and without a hook on the manifests: detecting and decoding UTF-8,
  then the scanner of the standard library (strings, numbers, literals, arrays and objects, whitespace, no trailing data).  A
  recursion limit is not modelled.

  Two functions are parameters: \<open>float_repr\<close> gives the text Python prints for the float that a
  number literal denotes, and \<open>other_decode\<close> decodes bytes that start like UTF-16 or UTF-32.
\<close>

section \<open>Scanning strings\<close>

definition json_error :: "string \<Rightarrow> 'a res" where
  "json_error m = Inl (ValueError m)"

definition hex_value :: "nat \<Rightarrow> nat option" where
  "hex_value c = (if 48 \<le> c \<and> c \<le> 57 then Some (c - 48)
     else if 97 \<le> c \<and> c \<le> 102 then Some (c - 87)
     else if 65 \<le> c \<and> c \<le> 70 then Some (c - 55) else None)"

text \<open>Four hexadecimal digits.\<close>

definition hex_unit :: "pstr \<Rightarrow> nat option" where
  "hex_unit s = (case map hex_value s of
      [Some a, Some b, Some c, Some d] \<Rightarrow> Some (a * 4096 + b * 256 + c * 16 + d) | _ \<Rightarrow> None)"

text \<open>
  What follows a backslash: a letter escape, or \<open>u\<close> (117) with a code unit.  A high surrogate takes a
  directly following escaped low surrogate with it.
\<close>

definition scan_unit :: "pstr \<Rightarrow> (nat \<times> pstr) res" where
  "scan_unit s = (case hex_unit (take 4 s) of
      None \<Rightarrow> json_error ''Invalid uXXXX escape''
    | Some u \<Rightarrow>
        let r = drop 4 s in
        if high_surrogate u \<and> take 2 r = [92, 117] then
          (case hex_unit (take 4 (drop 2 r)) of
             None \<Rightarrow> json_error ''Invalid uXXXX escape''
           | Some v \<Rightarrow> if low_surrogate v then Inr (0x10000 + (u - 0xD800) * 1024 + (v - 0xDC00), drop 6 r)
                      else Inr (u, r))
        else Inr (u, r))"

definition escape_letters :: "(nat \<times> nat) list" where
  "escape_letters = [(34, 34), (92, 92), (47, 47), (98, 8), (102, 12), (110, 10), (114, 13), (116, 9)]"

definition scan_escape :: "pstr \<Rightarrow> (nat \<times> pstr) res" where
  "scan_escape s = (case s of
      [] \<Rightarrow> json_error ''Unterminated string''
    | c # r \<Rightarrow> if c = 117 then scan_unit r
        else (case map_of escape_letters c of None \<Rightarrow> json_error ''Invalid escape'' | Some d \<Rightarrow> Inr (d, r)))"

text \<open>
  The characters up to the closing quote, and the rest.  The length tests in this section only
  make the recursion evidently terminating: a scanner always consumes input.
\<close>

function scan_string :: "pstr \<Rightarrow> (pstr \<times> pstr) res" where
  "scan_string s = (case s of
      [] \<Rightarrow> json_error ''Unterminated string''
    | c # r \<Rightarrow>
        if c = 34 then Inr ([], r)
        else if c = 92 then
          bindE (scan_escape r) (\<lambda>(u, r').
          if length r' < length s then bindE (scan_string r') (\<lambda>(t, q). Inr (u # t, q)) else json_error ''no progress'')
        else if c < 32 then json_error ''Invalid control character''
        else bindE (scan_string r) (\<lambda>(t, q). Inr (c # t, q)))"
  by pat_completeness auto
termination by (relation "measure length") auto

declare scan_string.simps [simp del]

section \<open>Numbers\<close>

text \<open>
  \<open>-?(0|[1-9][0-9]*)([.][0-9]+)?([eE][-+]?[0-9]+)?\<close>: the integer part, then the optional fraction and
  exponent, each taken only when complete.
\<close>

definition scan_digits :: "pstr \<Rightarrow> pstr \<times> pstr" where
  "scan_digits s = (takeWhile is_digit s, dropWhile is_digit s)"

definition scan_natural :: "pstr \<Rightarrow> (pstr \<times> pstr) option" where
  "scan_natural s = (case s of
      [] \<Rightarrow> None
    | c # r \<Rightarrow> if c = 48 then Some ([c], r) else if is_digit c then Some (scan_digits s) else None)"

definition scan_integer :: "pstr \<Rightarrow> (pstr \<times> pstr) option" where
  "scan_integer s =
     (if take 1 s = [45] then map_option (\<lambda>(ds, q). (45 # ds, q)) (scan_natural (tl s)) else scan_natural s)"

definition scan_fraction :: "pstr \<Rightarrow> pstr \<times> pstr" where
  "scan_fraction s = (case s of
      c # r \<Rightarrow> if c = 46 \<and> fst (scan_digits r) \<noteq> [] then (c # fst (scan_digits r), snd (scan_digits r)) else ([], s)
    | [] \<Rightarrow> ([], s))"

definition scan_sign :: "pstr \<Rightarrow> pstr \<times> pstr" where
  "scan_sign s = (case s of c # r \<Rightarrow> if c = 43 \<or> c = 45 then ([c], r) else ([], s) | [] \<Rightarrow> ([], s))"

definition scan_exponent :: "pstr \<Rightarrow> pstr \<times> pstr" where
  "scan_exponent s = (case s of
      c # r \<Rightarrow> (case scan_sign r of (sign, q) \<Rightarrow>
        if (c = 101 \<or> c = 69) \<and> fst (scan_digits q) \<noteq> []
        then (c # sign @ fst (scan_digits q), snd (scan_digits q)) else ([], s))
    | [] \<Rightarrow> ([], s))"

text \<open>\<open>int\<close> of a literal; Python refuses more than 4300 digits.\<close>

definition int_of_text :: "pstr \<Rightarrow> pyval res" where
  "int_of_text s =
     (let digits = (if take 1 s = [45] then tl s else s) in
      if 4300 < length digits then Inl (ValueError ''Exceeds the limit for integer string conversion'')
      else Inr (PInt (if take 1 s = [45] then - int (undec digits) else int (undec digits))))"

definition scan_number :: "(pstr \<Rightarrow> pstr) \<Rightarrow> pstr \<Rightarrow> (pyval \<times> pstr) res option" where
  "scan_number float_repr s = (case scan_integer s of
      None \<Rightarrow> None
    | Some (i, r) \<Rightarrow>
        (case scan_fraction r of (f, r') \<Rightarrow> case scan_exponent r' of (x, q) \<Rightarrow>
           if f = [] \<and> x = [] then Some (bindE (int_of_text i) (\<lambda>v. Inr (v, q)))
           else Some (Inr (PFloat (float_repr (i @ f @ x)), q))))"

section \<open>Values\<close>

definition is_space :: "nat \<Rightarrow> bool" where
  "is_space c \<longleftrightarrow> c \<in> {32, 9, 10, 13}"

definition skip :: "pstr \<Rightarrow> pstr" where
  "skip s = dropWhile is_space s"

definition literals :: "(pstr \<times> pyval) list" where
  "literals = [(lit ''null'', PNone), (lit ''true'', PBool True), (lit ''false'', PBool False)]"

definition float_literals :: "pstr list" where
  "float_literals = [lit ''NaN'', lit ''Infinity'', lit ''-Infinity'']"

definition starts_with :: "pstr \<Rightarrow> pstr \<Rightarrow> bool" where
  "starts_with p s \<longleftrightarrow> take (length p) s = p"

text \<open>A value that is neither a string nor a container.\<close>

definition scan_atom :: "(pstr \<Rightarrow> pstr) \<Rightarrow> pstr \<Rightarrow> (pyval \<times> pstr) res" where
  "scan_atom float_repr s = (case find (\<lambda>(t, _). starts_with t s) literals of
      Some (t, v) \<Rightarrow> Inr (v, drop (length t) s)
    | None \<Rightarrow> (case scan_number float_repr s of
        Some result \<Rightarrow> result
      | None \<Rightarrow> (case find (\<lambda>t. starts_with t s) float_literals of
          Some t \<Rightarrow> Inr (PFloat t, drop (length t) s)
        | None \<Rightarrow> json_error ''Expecting value'')))"

text \<open>
  What a call of \<open>json.loads\<close> chooses: how the pairs of an object become a value, and \<open>float_repr\<close>.
  Without a hook the pairs become a \<open>dict\<close> in which a later pair overrides an earlier one.
\<close>

type_synonym json_reader = "((pstr \<times> pyval) list \<Rightarrow> pyval res) \<times> (pstr \<Rightarrow> pstr)"

definition plain_object :: "(pstr \<times> pyval) list \<Rightarrow> pyval res" where
  "plain_object pairs = Inr (PDict (foldl (\<lambda>kvs (k, v). dict_set k v kvs) [] pairs))"

text \<open>
  \<open>scan_value\<close> at a value; \<open>scan_elements\<close> at the first character of an element, \<open>scan_members\<close> at that
  of a member's name, both with the values collected so far.
\<close>

function (sequential) scan_value :: "json_reader \<Rightarrow> pstr \<Rightarrow> (pyval \<times> pstr) res"
  and scan_elements :: "json_reader \<Rightarrow> pyval list \<Rightarrow> pstr \<Rightarrow> (pyval list \<times> pstr) res"
  and scan_members :: "json_reader \<Rightarrow> (pstr \<times> pyval) list \<Rightarrow> pstr \<Rightarrow> ((pstr \<times> pyval) list \<times> pstr) res" where
  "scan_value p s = (case s of
      [] \<Rightarrow> json_error ''Expecting value''
    | c # r \<Rightarrow>
        if c = 34 then bindE (scan_string r) (\<lambda>(t, q). Inr (PStr t, q))
        else if c = 91 then
          (case skip r of
             [] \<Rightarrow> json_error ''Expecting value''
           | d # q \<Rightarrow> if d = 93 then Inr (PList [], q)
               else if length (d # q) < length s
               then bindE (scan_elements p [] (d # q)) (\<lambda>(xs, rest). Inr (PList xs, rest))
               else json_error ''no progress'')
        else if c = 123 then
          (case skip r of
             [] \<Rightarrow> json_error ''Expecting property name''
           | d # q \<Rightarrow> if d = 125 then bindE (fst p []) (\<lambda>v. Inr (v, q))
               else if length (d # q) < length s
               then bindE (scan_members p [] (d # q)) (\<lambda>(kvs, rest). bindE (fst p kvs) (\<lambda>v. Inr (v, rest)))
               else json_error ''no progress'')
        else scan_atom (snd p) s)"
| "scan_elements p xs s =
     bindE (scan_value p s) (\<lambda>(v, r).
     case skip r of
       [] \<Rightarrow> json_error ''Expecting , delimiter''
     | d # q \<Rightarrow> if d = 93 then Inr (xs @ [v], q)
         else if d = 44 then
           (if length (skip q) < length s then scan_elements p (xs @ [v]) (skip q) else json_error ''no progress'')
         else json_error ''Expecting , delimiter'')"
| "scan_members p kvs s = (case s of
      [] \<Rightarrow> json_error ''Expecting property name''
    | c # r \<Rightarrow>
        if c \<noteq> 34 then json_error ''Expecting property name''
        else bindE (scan_string r) (\<lambda>(k, r1).
          case skip r1 of
            [] \<Rightarrow> json_error ''Expecting : delimiter''
          | d # r2 \<Rightarrow>
              if d \<noteq> 58 then json_error ''Expecting : delimiter''
              else if length (skip r2) < length s then
                bindE (scan_value p (skip r2)) (\<lambda>(v, r3).
                case skip r3 of
                  [] \<Rightarrow> json_error ''Expecting , delimiter''
                | d' # q \<Rightarrow> if d' = 125 then Inr (kvs @ [(k, v)], q)
                    else if d' = 44 then
                      (if length (skip q) < length s then scan_members p (kvs @ [(k, v)]) (skip q)
                       else json_error ''no progress'')
                    else json_error ''Expecting , delimiter'')
              else json_error ''no progress''))"
  by pat_completeness auto
termination
  by (relation "measure (\<lambda>x. case x of Inl (_, s) \<Rightarrow> 2 * length s
      | Inr (Inl (_, _, s)) \<Rightarrow> 2 * length s + 1 | Inr (Inr (_, _, s)) \<Rightarrow> 2 * length s + 1)") auto

declare scan_value.simps [simp del] scan_elements.simps [simp del] scan_members.simps [simp del]

text \<open>\<open>JSONDecoder.decode\<close>: one value with whitespace around it.\<close>

definition decode_text :: "json_reader \<Rightarrow> pstr \<Rightarrow> pyval res" where
  "decode_text p s =
     bindE (scan_value p (skip s)) (\<lambda>(v, r). if skip r = [] then Inr v else json_error ''Extra data'')"

section \<open>Bytes\<close>

text \<open>UTF-8 with surrogates admitted, the inverse of the encoding of any code point.\<close>

definition utf8_pass :: "nat \<Rightarrow> nat list" where
  "utf8_pass c = (if is_surrogate c then [0xE0 + c div 4096, 0x80 + c div 64 mod 64, 0x80 + c mod 64]
     else (case utf8_char c of Inr bs \<Rightarrow> bs | Inl _ \<Rightarrow> []))"

definition decode_utf8 :: "nat list \<Rightarrow> pstr res" where
  "decode_utf8 bs =
     (let s = utf8_decode bs in
      if concat (map utf8_pass s) = bs \<and> list_all (\<lambda>c. c < 0x110000) s then Inr s
      else Inl (ValueError ''UnicodeDecodeError''))"

text \<open>\<open>detect_encoding\<close>: a byte order mark or a zero among the first two bytes is not plain UTF-8.\<close>

definition plain_utf8 :: "nat list \<Rightarrow> bool" where
  "plain_utf8 b \<longleftrightarrow> \<not> starts_with [0xFE, 0xFF] b \<and> \<not> starts_with [0xFF, 0xFE] b \<and> \<not> starts_with [0xEF, 0xBB, 0xBF] b
     \<and> \<not> (4 \<le> length b \<and> (b ! 0 = 0 \<or> b ! 1 = 0)) \<and> \<not> (length b = 2 \<and> (b ! 0 = 0 \<or> b ! 1 = 0))"

definition json_loads :: "(pstr \<Rightarrow> pstr) \<Rightarrow> (nat list \<Rightarrow> pstr res) \<Rightarrow> nat list \<Rightarrow> pyval res" where
  "json_loads float_repr other_decode b =
     bindE (if plain_utf8 b then decode_utf8 b else other_decode b) (decode_text (unique_object, float_repr))"

text \<open>\<open>json.loads\<close> on text, without a hook.\<close>

definition json_loads_text :: "(pstr \<Rightarrow> pstr) \<Rightarrow> pstr \<Rightarrow> pyval res" where
  "json_loads_text float_repr s =
     (if starts_with [0xFEFF] s then json_error ''Unexpected UTF-8 BOM'' else decode_text (plain_object, float_repr) s)"

end
