(* ===== verification/Json_Read_Back.thy ===== *)
theory Json_Read_Back
  imports Json_Parse
begin

text \<open>
  The scanner of \<open>json.loads\<close> reads back what \<open>json.dumps\<close> prints.  The guard-free equations of the
  scanner come first (every scanner consumes input, so its progress tests never fail), then strings,
  numbers and whole values.
\<close>

section \<open>Scanners consume input\<close>

lemma length_skip: "length (skip s) \<le> length s"
  by (simp add: skip_def length_dropWhile_le)

lemma scan_escape_shorter: "scan_escape s = Inr (u, r) \<Longrightarrow> length r < length s"
  by (auto simp: scan_escape_def scan_unit_def json_error_def Let_def split: list.splits if_splits option.splits)

lemma scan_string_Cons [simp]:
  "scan_string [] = json_error ''Unterminated string''"
  "scan_string (c # r) =
     (if c = 34 then Inr ([], r)
      else if c = 92 then bindE (scan_escape r) (\<lambda>(u, r'). bindE (scan_string r') (\<lambda>(t, q). Inr (u # t, q)))
      else if c < 32 then json_error ''Invalid control character''
      else bindE (scan_string r) (\<lambda>(t, q). Inr (c # t, q)))"
proof -
  show "scan_string [] = json_error ''Unterminated string''" by (subst scan_string.simps) simp
  have "bindE (scan_escape r) (\<lambda>(u, r'). if length r' < length (c # r) then bindE (scan_string r') (\<lambda>(t, q). Inr (u # t, q)) else json_error ''no progress'')
     = bindE (scan_escape r) (\<lambda>(u, r'). bindE (scan_string r') (\<lambda>(t, q). Inr (u # t, q)))"
    by (rule bindE_cong) (auto dest: scan_escape_shorter)
  then show "scan_string (c # r) =
     (if c = 34 then Inr ([], r)
      else if c = 92 then bindE (scan_escape r) (\<lambda>(u, r'). bindE (scan_string r') (\<lambda>(t, q). Inr (u # t, q)))
      else if c < 32 then json_error ''Invalid control character''
      else bindE (scan_string r) (\<lambda>(t, q). Inr (c # t, q)))"
    by (subst scan_string.simps) (simp del: length_Cons)
qed

lemma scan_string_shorter: "scan_string s = Inr (t, r) \<Longrightarrow> length r < length s"
proof (induction s arbitrary: t r rule: scan_string.induct)
  case (1 s)
  show ?case
  proof (cases s)
    case Nil
    then show ?thesis using 1(3) by (simp add: json_error_def)
  next
    case (Cons c q)
    consider "c = 34" | "c = 92" | "c \<noteq> 34" "c \<noteq> 92" by blast
    then show ?thesis
    proof cases
      case 1
      then show ?thesis using "1.prems" Cons by simp
    next
      case 2
      then obtain u r' t' where "scan_escape q = Inr (u, r')" "scan_string r' = Inr (t', r)"
        using "1.prems" Cons by (auto simp: bindE_eq_Inr)
      with "1.IH"(1) [OF Cons _ 2] 2 scan_escape_shorter Cons show ?thesis by fastforce
    next
      case 3
      then obtain t' where "scan_string q = Inr (t', r)" "\<not> c < 32"
        using "1.prems" Cons by (auto simp: bindE_eq_Inr json_error_def split: if_splits)
      with "1.IH"(2) [OF Cons 3] Cons show ?thesis by fastforce
    qed
  qed
qed

lemma length_scan_digits: "length (fst (scan_digits s)) + length (snd (scan_digits s)) = length s"
  unfolding scan_digits_def by (simp flip: length_append)

lemma scan_natural_shorter: "scan_natural s = Some (i, r) \<Longrightarrow> length r < length s"
  using length_scan_digits [of s]
  by (cases s) (auto simp: scan_natural_def scan_digits_def length_dropWhile_le le_imp_less_Suc split: if_splits)

lemma scan_integer_shorter: "scan_integer s = Some (i, r) \<Longrightarrow> length r < length s"
proof (cases "take 1 s = [45]")
  case True
  assume "scan_integer s = Some (i, r)"
  then have "length r < length (tl s)" using True by (auto simp: scan_integer_def dest: scan_natural_shorter)
  then show ?thesis by simp
qed (auto simp: scan_integer_def dest: scan_natural_shorter)

lemma scan_fraction_length: "scan_fraction s = (f, r) \<Longrightarrow> length r \<le> length s"
  using length_scan_digits [of "tl s"] by (cases s) (auto simp: scan_fraction_def split: if_splits)

lemma scan_exponent_length: "scan_exponent s = (x, r) \<Longrightarrow> length r \<le> length s"
proof (cases s)
  case (Cons c q)
  assume x: "scan_exponent s = (x, r)"
  obtain sign t where t: "scan_sign q = (sign, t)" by (cases "scan_sign q")
  have "length t \<le> length q" using t by (cases q) (auto simp: scan_sign_def split: if_splits)
  moreover have "length (snd (scan_digits t)) \<le> length t" using length_scan_digits [of t] by simp
  ultimately show ?thesis using x Cons t by (auto simp: scan_exponent_def split: if_splits)
qed (auto simp: scan_exponent_def)

lemma scan_number_shorter: "scan_number fr s = Some (Inr (v, r)) \<Longrightarrow> length r < length s"
  by (auto simp: scan_number_def bindE_eq_Inr split: option.splits prod.splits if_splits
      dest!: scan_integer_shorter scan_fraction_length scan_exponent_length)

lemma starts_with_iff: "starts_with p s \<longleftrightarrow> (\<exists>r. s = p @ r)"
  unfolding starts_with_def by (metis append_eq_conv_conj append_take_drop_id)

lemma scan_atom_shorter: "scan_atom fr s = Inr (v, r) \<Longrightarrow> length r < length s"
proof -
  assume s: "scan_atom fr s = Inr (v, r)"
  show ?thesis
  proof (cases "find (\<lambda>(t, _). starts_with t s) literals")
    case (Some tv)
    then obtain t w where tv: "tv = (t, w)" "(t, w) \<in> set literals" "starts_with t s"
      by (metis (no_types, lifting) find_Some_iff nth_mem old.prod.case surj_pair)
    then have "t \<noteq> []" by (auto simp: literals_def lit_codes)
    then show ?thesis using s Some tv by (auto simp: scan_atom_def starts_with_iff)
  next
    case None
    show ?thesis
    proof (cases "scan_number fr s")
      case (Some res)
      then show ?thesis using s \<open>find _ literals = None\<close> by (auto simp: scan_atom_def intro: scan_number_shorter)
    next
      case no_number: None
      then obtain t where t: "find (\<lambda>t. starts_with t s) float_literals = Some t" "r = drop (length t) s"
        using s None by (auto simp: scan_atom_def json_error_def split: option.splits)
      then have "t \<in> set float_literals" "starts_with t s" by (auto simp: find_Some_iff in_set_conv_nth)
      moreover from this have "t \<noteq> []" by (auto simp: float_literals_def lit_codes)
      ultimately show ?thesis using t(2) by (auto simp: starts_with_iff)
    qed
  qed
qed

lemma scan_shorter:
  shows "scan_value fr s = Inr (v, r) \<Longrightarrow> length r < length s"
    and "scan_elements fr xs s' = Inr (ys, r') \<Longrightarrow> length r' < length s'"
    and "scan_members fr kvs s'' = Inr (kvs', r'') \<Longrightarrow> length r'' < length s''"
proof (induction fr s and fr xs s' and fr kvs s'' arbitrary: v r and ys r' and kvs' r''
    rule: scan_value_scan_elements_scan_members.induct)
  case (1 fr s)
  show ?case
  proof (cases s)
    case Nil
    then show ?thesis using "1.prems" by (simp add: scan_value.simps json_error_def)
  next
    case (Cons c q)
    have le: "length (skip q) \<le> length q" by (rule length_skip)
    consider "c = 34" | "c = 91" | "c = 123" | "c \<notin> {34, 91, 123}" by blast
    then show ?thesis
    proof cases
      case 1
      then show ?thesis using "1.prems" Cons scan_string_shorter by (fastforce simp: scan_value.simps bindE_eq_Inr)
    next
      case 2
      then show ?thesis using "1.prems" Cons le "1.IH"(1) [OF Cons]
        by (cases "skip q") (fastforce simp: scan_value.simps bindE_eq_Inr json_error_def split: if_splits)+
    next
      case 3
      then show ?thesis using "1.prems" Cons le "1.IH"(2) [OF Cons]
        by (cases "skip q") (fastforce simp: scan_value.simps bindE_eq_Inr json_error_def split: if_splits)+
    next
      case 4
      then show ?thesis using "1.prems" Cons scan_atom_shorter [of "snd fr" s v r] by (simp add: scan_value.simps)
    qed
  qed
next
  case (2 fr xs s)
  then obtain v q where v: "scan_value fr s = Inr (v, q)" by (auto simp: scan_elements.simps bindE_eq_Inr)
  have le: "length q < length s" using "2.IH"(1) [OF v] .
  obtain d t where d: "skip q = d # t" using "2.prems" v by (cases "skip q") (auto simp: scan_elements.simps json_error_def)
  then have "length t < length q" using length_skip [of q] by simp
  moreover have "length (skip t) \<le> length t" by (rule length_skip)
  ultimately show ?case using "2.prems" v d le "2.IH"(2) [OF v]
    by (fastforce simp: scan_elements.simps json_error_def split: if_splits)
next
  case (3 fr kvs s)
  obtain c q where s: "s = c # q" using "3.prems" by (cases s) (auto simp: scan_members.simps json_error_def)
  have c: "c = 34" using "3.prems" s by (auto simp: scan_members.simps json_error_def split: if_splits)
  obtain k r1 where k: "scan_string q = Inr (k, r1)" using "3.prems" s c by (auto simp: scan_members.simps bindE_eq_Inr)
  obtain d r2 where d: "skip r1 = d # r2" using "3.prems" s c k by (cases "skip r1") (auto simp: scan_members.simps json_error_def)
  have colon: "d = 58" using "3.prems" s c k d by (auto simp: scan_members.simps json_error_def split: if_splits)
  have r2: "length (skip r2) < length s"
    using scan_string_shorter [OF k] length_skip [of r1] length_skip [of r2] d s by simp
  obtain v r3 where v: "scan_value fr (skip r2) = Inr (v, r3)"
    using "3.prems" s c k d colon r2 by (auto simp: scan_members.simps bindE_eq_Inr)
  have r3: "length r3 < length s" using "3.IH"(1) [OF s _ k refl d _ r2 v] c colon r2 by simp
  obtain d' t where t: "skip r3 = d' # t"
    using "3.prems" s c k d colon r2 v by (cases "skip r3") (auto simp: scan_members.simps json_error_def)
  have "length t < length r3" using length_skip [of r3] t by simp
  moreover have "length (skip t) \<le> length t" by (rule length_skip)
  ultimately show ?case using "3.prems" s c k d colon r2 v t r3 "3.IH"(2) [OF s _ k refl d _ r2 v refl t]
    by (fastforce simp: scan_members.simps json_error_def split: if_splits)
qed

text \<open>So the length tests always succeed, and the scanners have these equations.\<close>

lemma scan_value_Cons:
  "scan_value fr (c # r) =
     (if c = 34 then bindE (scan_string r) (\<lambda>(t, q). Inr (PStr t, q))
      else if c = 91 then
        (case skip r of
           [] \<Rightarrow> json_error ''Expecting value''
         | d # q \<Rightarrow> if d = 93 then Inr (PList [], q)
             else bindE (scan_elements fr [] (d # q)) (\<lambda>(xs, rest). Inr (PList xs, rest)))
      else if c = 123 then
        (case skip r of
           [] \<Rightarrow> json_error ''Expecting property name''
         | d # q \<Rightarrow> if d = 125 then bindE (fst fr []) (\<lambda>v. Inr (v, q))
             else bindE (scan_members fr [] (d # q)) (\<lambda>(kvs, rest). bindE (fst fr kvs) (\<lambda>v. Inr (v, rest))))
      else scan_atom (snd fr) (c # r))"
  using length_skip [of r] by (cases "skip r") (simp_all add: scan_value.simps)

lemma scan_elements_eq:
  "scan_elements fr xs s =
     bindE (scan_value fr s) (\<lambda>(v, r).
     case skip r of
       [] \<Rightarrow> json_error ''Expecting , delimiter''
     | d # q \<Rightarrow> if d = 93 then Inr (xs @ [v], q)
         else if d = 44 then scan_elements fr (xs @ [v]) (skip q)
         else json_error ''Expecting , delimiter'')"
proof -
  have "length (skip q) < length s" if "scan_value fr s = Inr (v, r)" "skip r = d # q" for v r d q
    using scan_shorter(1) [OF that(1)] length_skip [of r] length_skip [of q] that(2) by simp
  then show ?thesis
    by (subst scan_elements.simps) (auto intro!: bindE_cong split: list.splits)
qed

lemma scan_members_eq:
  "scan_members fr kvs (34 # r) =
     bindE (scan_string r) (\<lambda>(k, r1).
       case skip r1 of
         [] \<Rightarrow> json_error ''Expecting : delimiter''
       | d # r2 \<Rightarrow>
           if d \<noteq> 58 then json_error ''Expecting : delimiter''
           else bindE (scan_value fr (skip r2)) (\<lambda>(v, r3).
             case skip r3 of
               [] \<Rightarrow> json_error ''Expecting , delimiter''
             | d' # q \<Rightarrow> if d' = 125 then Inr (kvs @ [(k, v)], q)
                 else if d' = 44 then scan_members fr (kvs @ [(k, v)]) (skip q)
                 else json_error ''Expecting , delimiter''))"
proof -
  let ?s = "34 # r"
  have one: "length (skip r2) < length ?s" if "scan_string r = Inr (k, r1)" "skip r1 = d # r2" for k r1 d r2
    using scan_string_shorter [OF that(1)] length_skip [of r1] length_skip [of r2] that(2) by simp
  moreover have "length (skip q) < length ?s"
    if "scan_string r = Inr (k, r1)" "skip r1 = d # r2" "scan_value fr (skip r2) = Inr (v, r3)" "skip r3 = d' # q" for k r1 d r2 v r3 d' q
    using one [OF that(1,2)] scan_shorter(1) [OF that(3)] length_skip [of r3] length_skip [of q] that(4) by simp
  ultimately show ?thesis
    by (subst scan_members.simps) (simp del: length_Cons, auto intro!: bindE_cong split: list.splits simp del: length_Cons)
qed

section \<open>Reading back a string\<close>

lemma hex_value_hex_char: "n < 16 \<Longrightarrow> hex_value (hex_char n) = Some n"
  by (auto simp: hex_value_def hex_char_def)

definition long_escape :: "nat \<Rightarrow> pstr" where
  "long_escape u = [hex_char (u div 4096 mod 16), hex_char (u div 256 mod 16), hex_char (u div 16 mod 16), hex_char (u mod 16)]"

lemma hex_unit_long: "u < 0x10000 \<Longrightarrow> hex_unit (long_escape u) = Some u"
  using split_hex [of u] by (simp add: hex_unit_def long_escape_def hex_value_hex_char)

lemma length_long_escape [simp]: "length (long_escape u) = 4"
  by (simp add: long_escape_def)

lemma esc_unit_surrogate: "0xD800 \<le> u \<Longrightarrow> esc_unit u = 92 # 117 # long_escape u"
  by (simp add: esc_unit_def long_escape_def)

lemma esc_unit_cases:
  assumes "u < 0x10000"
  obtains (plain) "esc_unit u = [u]" and "u \<noteq> 34" and "u \<noteq> 92" and "32 \<le> u" and "\<not> high_surrogate u"
    | (letter) c where "esc_unit u = [92, c]" and "map_of escape_letters c = Some u" and "c \<noteq> 117" and "\<not> high_surrogate u"
    | (long) "esc_unit u = 92 # 117 # long_escape u"
proof -
  consider "u \<in> {34, 92, 10, 13, 9, 12, 8}" | "u \<notin> {34, 92, 10, 13, 9, 12, 8}" "32 \<le> u" "u \<le> 126"
    | "u \<notin> {34, 92, 10, 13, 9, 12, 8}" "\<not> (32 \<le> u \<and> u \<le> 126)" by blast
  then show thesis
  proof cases
    case 1
    then show thesis by (elim insertE emptyE) (auto intro!: letter simp: esc_unit_def escape_letters_def high_surrogate_def)
  next
    case 2
    then show thesis by (intro plain) (auto simp: esc_unit_def high_surrogate_def)
  next
    case 3
    then show thesis by (intro long) (auto simp: esc_unit_def long_escape_def)
  qed
qed

lemma scan_unit_single:
  assumes "u < 0x10000" and "\<not> (high_surrogate u \<and> (\<exists>v r'. r = 92 # 117 # long_escape v @ r' \<and> low_surrogate v))"
    and "take 2 r = [92, 117] \<Longrightarrow> \<exists>v r'. r = 92 # 117 # long_escape v @ r' \<and> v < 0x10000"
  shows "scan_unit (long_escape u @ r) = Inr (u, r)"
proof (cases "high_surrogate u \<and> take 2 r = [92, 117]")
  case True
  then obtain v r' where v: "r = 92 # 117 # long_escape v @ r'" "v < 0x10000" using assms(3) by blast
  then have "\<not> low_surrogate v" using assms(2) True by blast
  then show ?thesis using v True by (simp add: scan_unit_def hex_unit_long assms(1) Let_def)
next
  case False
  then show ?thesis by (auto simp: scan_unit_def hex_unit_long assms(1) Let_def)
qed

lemma scan_unit_pair:
  assumes "high_surrogate u" and "low_surrogate v"
  shows "scan_unit (long_escape u @ 92 # 117 # long_escape v @ r) = Inr (0x10000 + (u - 0xD800) * 1024 + (v - 0xDC00), r)"
proof -
  have "u < 0x10000" "v < 0x10000" using assms by (simp_all add: high_surrogate_def low_surrogate_def)
  then show ?thesis using assms by (simp add: scan_unit_def hex_unit_long Let_def)
qed

lemma scan_string_units:
  "list_all (\<lambda>u. u < 0x10000) us \<Longrightarrow> scan_string (concat (map esc_unit us) @ 34 # r) = Inr (join16 us, r)"
proof (induction us rule: join16.induct)
  case (1 u v us)
  then have u: "u < 0x10000" and v: "v < 0x10000" by simp_all
  let ?rest = "concat (map esc_unit (v # us)) @ 34 # r"
  show ?case
  proof (cases "high_surrogate u \<and> low_surrogate v")
    case True
    then have "esc_unit u = 92 # 117 # long_escape u" "esc_unit v = 92 # 117 # long_escape v"
      by (auto simp: high_surrogate_def low_surrogate_def intro!: esc_unit_surrogate)
    moreover note scan_unit_pair [of u v "concat (map esc_unit us) @ 34 # r"]
    ultimately show ?thesis using True "1.IH"(1) "1.prems" by (simp add: scan_escape_def)
  next
    case False
    have IH: "scan_string ?rest = Inr (join16 (v # us), r)" using "1.IH"(2) [OF False] "1.prems" by simp
    show ?thesis
      using u
    proof (cases rule: esc_unit_cases)
      case plain
      then show ?thesis using IH False by simp
    next
      case (letter c)
      then show ?thesis using IH False by (simp add: scan_escape_def)
    next
      case long
      have "scan_unit (long_escape u @ ?rest) = Inr (u, ?rest)"
      proof (rule scan_unit_single [OF u])
        show "\<not> (high_surrogate u \<and> (\<exists>v' r'. ?rest = 92 # 117 # long_escape v' @ r' \<and> low_surrogate v'))"
        proof
          assume "high_surrogate u \<and> (\<exists>v' r'. ?rest = 92 # 117 # long_escape v' @ r' \<and> low_surrogate v')"
          then obtain v' r' where "high_surrogate u" and v': "?rest = 92 # 117 # long_escape v' @ r'" "low_surrogate v'" by blast
          have "esc_unit v @ concat (map esc_unit us) @ 34 # r = esc_unit v' @ r'"
            using v' by (simp add: esc_unit_surrogate low_surrogate_def)
          then have "v = v'" using esc_unit_prefix [OF v] v'(2) by (simp add: low_surrogate_def)
          with \<open>high_surrogate u\<close> v'(2) False show False by simp
        qed
        show "\<exists>v' r'. ?rest = 92 # 117 # long_escape v' @ r' \<and> v' < 0x10000" if "take 2 ?rest = [92, 117]"
          using v
        proof (cases rule: esc_unit_cases)
          case long
          then have "?rest = 92 # 117 # long_escape v @ concat (map esc_unit us) @ 34 # r" by simp
          with v show ?thesis by blast
        qed (use that in auto)
      qed
      then show ?thesis using IH long False by (auto simp: scan_escape_def)
    qed
  qed
next
  case (2 u)
  then have u: "u < 0x10000" by simp
  then show ?case
  proof (cases rule: esc_unit_cases)
    case long
    have "scan_unit (long_escape u @ 34 # r) = Inr (u, 34 # r)" by (rule scan_unit_single [OF u]) auto
    then show ?thesis using long by (simp add: scan_escape_def)
  qed (simp_all add: scan_escape_def)
qed simp

lemma scan_string_json: "wf_pstr s \<Longrightarrow> scan_string (tl (json_string s) @ r) = Inr (s, r)"
  using scan_string_units [OF units16_list_range, of s r] by (simp add: json_string_def join16_units16)

section \<open>Reading back a number\<close>

lemma delim_not_digit: "delim r \<Longrightarrow> r = [] \<or> \<not> is_digit (hd r)"
  by (auto simp: delim_def is_digit_def)

lemma scan_digits_append:
  assumes "delim r"
  shows "scan_digits (s @ r) = (fst (scan_digits s), snd (scan_digits s) @ r)"
proof -
  have "takeWhile is_digit r = []" "dropWhile is_digit r = r"
    using delim_not_digit [OF assms] by (cases r; simp)+
  then show ?thesis
    by (cases "\<forall>c \<in> set s. is_digit c")
      (auto simp: scan_digits_def takeWhile_append dropWhile_append takeWhile_eq_all_conv [THEN iffD2])
qed

lemma scan_natural_append:
  assumes "delim r" and "scan_natural s = Some (ds, q)"
  shows "scan_natural (s @ r) = Some (ds, q @ r)"
  using assms scan_digits_append [OF assms(1), of s]
  by (cases s) (auto simp: scan_natural_def split: if_splits)

lemma scan_integer_append:
  assumes "delim r" and "scan_integer s = Some (ds, q)"
  shows "scan_integer (s @ r) = Some (ds, q @ r)"
proof -
  obtain c s' where s: "s = c # s'" using assms(2) by (cases s) (auto simp: scan_integer_def scan_natural_def)
  show ?thesis
  proof (cases "c = 45")
    case True
    then obtain ds' where "scan_natural s' = Some (ds', q)" "ds = 45 # ds'"
      using assms(2) s by (auto simp: scan_integer_def)
    with True s scan_natural_append [OF assms(1)] show ?thesis by (simp add: scan_integer_def)
  next
    case False
    with assms(2) s scan_natural_append [OF assms(1), of s] show ?thesis by (simp add: scan_integer_def)
  qed
qed

lemma scan_fraction_append: "delim r \<Longrightarrow> scan_fraction (s @ r) = (fst (scan_fraction s), snd (scan_fraction s) @ r)"
  using scan_digits_append [of r "tl s"]
  by (cases s; cases r) (auto simp: scan_fraction_def)

lemma scan_exponent_append: "delim r \<Longrightarrow> scan_exponent (s @ r) = (fst (scan_exponent s), snd (scan_exponent s) @ r)"
proof (cases s)
  case Nil
  assume "delim r"
  then show ?thesis using Nil by (cases r) (auto simp: scan_exponent_def split: prod.splits)
next
  case (Cons c q)
  assume r: "delim r"
  obtain sign t where t: "scan_sign q = (sign, t)" by (cases "scan_sign q")
  have "scan_sign (q @ r) = (sign, t @ r)"
    using t r by (cases q; cases r) (auto simp: scan_sign_def split: if_splits)
  then show ?thesis using Cons t scan_digits_append [OF r, of t] by (simp add: scan_exponent_def)
qed

text \<open>A float's text: a number literal with a fraction or an exponent, or one of the special values.\<close>

definition number_text :: "pstr \<Rightarrow> bool" where
  "number_text t \<longleftrightarrow> (\<exists>i f x q q'. scan_integer t = Some (i, q) \<and> scan_fraction q = (f, q') \<and> scan_exponent q' = (x, [])
     \<and> (f \<noteq> [] \<or> x \<noteq> []) \<and> t = i @ f @ x)"

lemma scan_number_float:
  assumes "delim r" and "number_text t"
  shows "scan_number fr (t @ r) = Some (Inr (PFloat (fr t), r))"
proof -
  obtain i f x q q' where t: "scan_integer t = Some (i, q)" "scan_fraction q = (f, q')" "scan_exponent q' = (x, [])"
      "f \<noteq> [] \<or> x \<noteq> []" "t = i @ f @ x"
    using assms(2) by (auto simp: number_text_def)
  have "scan_integer (t @ r) = Some (i, q @ r)" using scan_integer_append [OF assms(1) t(1)] .
  moreover have "scan_fraction (q @ r) = (f, q' @ r)" using scan_fraction_append [OF assms(1), of q] t(2) by simp
  moreover have "scan_exponent (q' @ r) = (x, r)" using scan_exponent_append [OF assms(1), of q'] t(3) by simp
  ultimately show ?thesis using t(4,5) by (auto simp: scan_number_def)
qed

lemma scan_fraction_delim: "delim r \<Longrightarrow> scan_fraction r = ([], r)" and scan_exponent_delim: "delim r \<Longrightarrow> scan_exponent r = ([], r)"
  using scan_fraction_append [of r "[]"] scan_exponent_append [of r "[]"] by (auto simp: scan_fraction_def scan_exponent_def)

lemma dec_head: "n \<noteq> 0 \<Longrightarrow> hd (dec n) \<noteq> 48"
proof (induction n rule: dec.induct)
  case (1 n)
  then show ?case by (subst dec.simps) (auto simp: hd_append)
qed

lemma scan_natural_dec: "delim r \<Longrightarrow> scan_natural (dec n @ r) = Some (dec n, r)"
proof -
  assume r: "delim r"
  obtain c cs where dec: "dec n = c # cs" by (cases "dec n") auto
  have digits: "\<forall>d \<in> set (dec n). is_digit d" using dec_digits by blast
  have "scan_digits (dec n) = (dec n, [])" using digits by (simp add: scan_digits_def)
  then have d: "scan_digits (dec n @ r) = (dec n, r)" using scan_digits_append [OF r, of "dec n"] by simp
  show ?thesis
  proof (cases "n = 0")
    case True
    then show ?thesis by (simp add: dec.simps scan_natural_def)
  next
    case False
    then have "c \<noteq> 48" using dec_head [OF False] dec by simp
    then show ?thesis using d digits dec by (simp add: scan_natural_def)
  qed
qed

lemma scan_number_int:
  assumes "delim r" and "length (dec (nat \<bar>i\<bar>)) \<le> 4300"
  shows "scan_number fr (dec_int i @ r) = Some (Inr (PInt i, r))"
proof -
  let ?d = "dec (nat \<bar>i\<bar>)"
  have "take 1 (?d @ r) \<noteq> [45]" using hd_dec_ne_minus by (cases ?d) auto
  then have "scan_integer (dec_int i @ r) = Some (dec_int i, r)"
    using scan_natural_dec [OF assms(1), of "nat \<bar>i\<bar>"] by (auto simp: scan_integer_def dec_int_def)
  moreover have "take 1 ?d \<noteq> [45]" using hd_dec_ne_minus by (cases ?d) auto
  then have "int_of_text (dec_int i) = Inr (PInt i)"
    using assms(2) by (auto simp: int_of_text_def dec_int_def Let_def)
  ultimately show ?thesis using scan_fraction_delim scan_exponent_delim assms(1) by (simp add: scan_number_def)
qed

section \<open>Reading back a value\<close>

text \<open>
  What \<open>json.dumps\<close> prints and \<open>json.loads\<close> reads back: strings without surrogate pairs, integers
  within Python's limit on decimal conversion, floats whose printed text denotes them, dicts
  with distinct keys.
\<close>

fun json_ok :: "(pstr \<Rightarrow> pstr) \<Rightarrow> pyval \<Rightarrow> bool" where
  "json_ok fr (PInt i) = (length (dec (nat \<bar>i\<bar>)) \<le> 4300)"
| "json_ok fr (PFloat t) = (t \<in> set float_literals \<or> number_text t \<and> fr t = t)"
| "json_ok fr (PStr s) = wf_pstr s"
| "json_ok fr (PList xs) = list_all (json_ok fr) xs"
| "json_ok fr (PDict kvs) = (distinct (map fst kvs) \<and> list_all (\<lambda>(k, v). wf_pstr k \<and> json_ok fr v) kvs)"
| "json_ok fr _ = True"

lemma dumps_PDict:
  "dumps False (PDict kvs) = 123 # join [44, 32] (map (\<lambda>(k, v). json_string k @ [58, 32] @ dumps False v) kvs) @ [125]"
  by (simp add: lit_codes comp_def case_prod_unfold Let_def)

lemma skip_Cons [simp]: "skip [] = []" "skip (c # s) = (if is_space c then skip s else c # s)"
  by (simp_all add: skip_def)

lemma scan_natural_head: "scan_natural s = Some (i, q) \<Longrightarrow> \<exists>c r. s = c # r \<and> is_digit c"
  by (cases s) (auto simp: scan_natural_def is_digit_def split: if_splits)

lemma scan_integer_head: "scan_integer s = Some (i, q) \<Longrightarrow> \<exists>c r. s = c # r \<and> (c = 45 \<or> is_digit c)"
  by (cases s) (auto simp: scan_integer_def dest: scan_natural_head split: if_splits)

text \<open>The first character of a value's text.\<close>

lemma dumps_head:
  assumes "json_ok fr v"
  obtains c t where "dumps False v = c # t" and "\<not> is_space c" and "c \<notin> {93, 125, 44}"
proof (cases v)
  case (PInt i)
  obtain c cs where c: "dec_int i = c # cs" by (cases "dec_int i") auto
  then have "c = 45 \<or> is_digit c" using dec_int_chars [of c i] by auto
  with that PInt c show thesis by (auto simp: is_space_def is_digit_def)
next
  case (PFloat t)
  then have "t \<in> set float_literals \<or> number_text t" using assms by auto
  then obtain c cs where "t = c # cs" "c \<in> {78, 73, 45} \<or> is_digit c"
    by (auto simp: float_literals_def lit_codes number_text_def dest!: scan_integer_head)
  with that PFloat show thesis by (auto simp: is_space_def is_digit_def)
next
  case (PBool b)
  then show thesis using that by (cases b) (auto simp: lit_codes is_space_def)
qed (use that in \<open>auto simp: lit_codes is_space_def json_string_def Let_def split: if_splits\<close>)

lemma scan_atom_head:
  assumes "\<not> starts_with (lit ''null'') s" and "\<not> starts_with (lit ''true'') s" and "\<not> starts_with (lit ''false'') s"
  shows "scan_atom fr s = (case scan_number fr s of
        Some result \<Rightarrow> result
      | None \<Rightarrow> (case find (\<lambda>t. starts_with t s) float_literals of
          Some t \<Rightarrow> Inr (PFloat t, drop (length t) s)
        | None \<Rightarrow> json_error ''Expecting value''))"
  using assms by (simp add: scan_atom_def literals_def)

lemma starts_with_Cons [simp]: "starts_with [] s" "\<not> starts_with (c # p) []" "starts_with (c # p) (d # s) \<longleftrightarrow> c = d \<and> starts_with p s"
  by (auto simp: starts_with_def)

lemma scan_value_number:
  assumes "scan_number fr s = Some res" and "s = c # r" and "c = 45 \<or> is_digit c"
  shows "scan_value (hook, fr) s = res"
proof -
  have "\<not> starts_with (lit ''null'') s" "\<not> starts_with (lit ''true'') s" "\<not> starts_with (lit ''false'') s"
    using assms(2,3) by (auto simp: lit_codes is_digit_def)
  then have "scan_atom fr s = res" using assms(1) by (simp add: scan_atom_head)
  then show ?thesis using assms(2,3) by (auto simp: scan_value_Cons is_digit_def)
qed

lemma scan_number_special: "t \<in> set float_literals \<Longrightarrow> scan_number fr (t @ r) = None"
  by (auto simp: float_literals_def lit_codes scan_number_def scan_integer_def scan_natural_def is_digit_def)

lemma scan_value_special: "t \<in> set float_literals \<Longrightarrow> scan_value (hook, fr) (t @ r) = Inr (PFloat t, r)"
proof -
  assume t: "t \<in> set float_literals"
  have "scan_atom fr (t @ r) = Inr (PFloat t, r)"
    using t scan_number_special [OF t, of fr r]
    by (subst scan_atom_head) (auto simp: float_literals_def lit_codes)
  moreover have "\<exists>c s. t @ r = c # s \<and> c \<notin> {34, 91, 123}" using t by (auto simp: float_literals_def lit_codes)
  ultimately show ?thesis by (auto simp: scan_value_Cons)
qed

text \<open>
  The elements of a list and the members of an object, for any layout: \<open>txt\<close> prints a value, \<open>ws\<close>
  follows each comma and \<open>ws'\<close> stands before the closing bracket.
\<close>

definition opens :: "pstr \<Rightarrow> bool" where
  "opens t \<longleftrightarrow> t \<noteq> [] \<and> \<not> is_space (hd t)"

lemma opens_iff: "opens t \<longleftrightarrow> (\<exists>c u. t = c # u \<and> \<not> is_space c)"
  by (cases t) (auto simp: opens_def)

lemma opens_dumps: "json_ok fr v \<Longrightarrow> opens (dumps False v)"
  by (auto simp: opens_iff elim: dumps_head)

lemma skip_spaces: "list_all is_space ws \<Longrightarrow> skip (ws @ s) = skip s"
  by (induction ws) auto

lemma scan_elements_text:
  assumes "\<And>v r. v \<in> set xs \<Longrightarrow> delim r \<Longrightarrow> scan_value (hook, fr) (txt v @ r) = Inr (v, r)"
    and "\<And>v. v \<in> set xs \<Longrightarrow> opens (txt v)" and "xs \<noteq> []"
    and ws: "list_all is_space ws" "list_all is_space ws'" "delim (ws' @ 93 # r)"
  shows "scan_elements (hook, fr) acc (join (44 # ws) (map txt xs) @ ws' @ 93 # r) = Inr (acc @ xs, r)"
  using assms(1-3)
proof (induction xs arbitrary: acc)
  case (Cons x xs)
  show ?case
  proof (cases xs)
    case Nil
    then show ?thesis using Cons.prems(1) [of x "ws' @ 93 # r"] ws
      by (subst scan_elements_eq) (simp add: skip_spaces is_space_def)
  next
    case (Cons y ys)
    let ?rest = "join (44 # ws) (map txt xs) @ ws' @ 93 # r"
    have "scan_value (hook, fr) (txt x @ 44 # ws @ ?rest) = Inr (x, 44 # ws @ ?rest)" using Cons.prems(1) [of x] by simp
    moreover obtain c t where "txt y = c # t" "\<not> is_space c" using Cons.prems(2) [of y] Cons by (auto simp: opens_iff)
    then have "skip (ws @ ?rest) = ?rest" using Cons ws(1) by (cases ys) (simp_all add: skip_spaces)
    moreover have "scan_elements (hook, fr) (acc @ [x]) ?rest = Inr ((acc @ [x]) @ xs, r)"
      by (rule Cons.IH) (use Cons.prems \<open>xs = y # ys\<close> in auto)
    ultimately show ?thesis using Cons by (subst scan_elements_eq) (simp add: is_space_def)
  qed
qed simp

lemma scan_members_text:
  assumes "\<And>k v r. (k, v) \<in> set kvs \<Longrightarrow> delim r \<Longrightarrow> scan_value (hook, fr) (txt v @ r) = Inr (v, r)"
    and "\<And>k v. (k, v) \<in> set kvs \<Longrightarrow> wf_pstr k \<and> opens (txt v)" and "kvs \<noteq> []"
    and ws: "list_all is_space ws" "list_all is_space ws'" "delim (ws' @ 125 # r)"
  shows "scan_members (hook, fr) acc (join (44 # ws) (map (\<lambda>(k, v). json_string k @ [58, 32] @ txt v) kvs) @ ws' @ 125 # r) = Inr (acc @ kvs, r)"
  using assms(1-3)
proof (induction kvs arbitrary: acc)
  case (Cons kv kvs)
  obtain k v where kv: "kv = (k, v)" by (cases kv)
  obtain c t where k: "wf_pstr k" and c: "txt v = c # t" "\<not> is_space c" using Cons.prems(2) [of k v] kv by (auto simp: opens_iff)
  have key: "scan_members (hook, fr) acc (json_string k @ q) =
      bindE (Inr (k, q)) (\<lambda>(k, r1). case skip r1 of
         [] \<Rightarrow> json_error ''Expecting : delimiter''
       | d # r2 \<Rightarrow> if d \<noteq> 58 then json_error ''Expecting : delimiter''
           else bindE (scan_value (hook, fr) (skip r2)) (\<lambda>(v, r3). case skip r3 of
               [] \<Rightarrow> json_error ''Expecting , delimiter''
             | d' # q \<Rightarrow> if d' = 125 then Inr (acc @ [(k, v)], q)
                 else if d' = 44 then scan_members (hook, fr) (acc @ [(k, v)]) (skip q)
                 else json_error ''Expecting , delimiter''))" for q
  proof -
    have "json_string k @ q = 34 # (tl (json_string k) @ q)" by (simp add: json_string_def)
    then show ?thesis using scan_string_json [OF k, of q] by (simp only: scan_members_eq)
  qed
  show ?case
  proof (cases kvs)
    case Nil
    then show ?thesis
      using Cons.prems(1) [of k v "ws' @ 125 # r"] c ws unfolding kv by (simp add: key skip_spaces is_space_def)
  next
    case (Cons kv' kvs')
    let ?rest = "join (44 # ws) (map (\<lambda>(k, v). json_string k @ [58, 32] @ txt v) kvs) @ ws' @ 125 # r"
    have "scan_value (hook, fr) (txt v @ 44 # ws @ ?rest) = Inr (v, 44 # ws @ ?rest)" using Cons.prems(1) [of k v] kv by simp
    moreover have "skip (ws @ ?rest) = ?rest"
      using Cons ws(1) by (cases kv'; cases kvs') (simp_all add: skip_spaces json_string_def is_space_def)
    moreover have "scan_members (hook, fr) (acc @ [(k, v)]) ?rest = Inr ((acc @ [(k, v)]) @ kvs, r)"
    proof (rule Cons.IH)
      show "scan_value (hook, fr) (txt v @ q) = Inr (v, q)" if "(k, v) \<in> set kvs" "delim q" for k v q
        using Cons.prems(1) [of k v q] that by simp
      show "wf_pstr k \<and> opens (txt v)" if "(k, v) \<in> set kvs" for k v using Cons.prems(2) [of k v] that by simp
    qed (simp add: Cons)
    ultimately show ?thesis using Cons c unfolding kv by (simp add: key is_space_def)
  qed
qed simp

text \<open>
  What the scanner relies on of the function that receives the pairs of an object: pairs with
  distinct keys become that \<open>dict\<close>, and any \<open>dict\<close> it builds consists of given pairs.
\<close>

locale pairs_hook =
  fixes hook :: "(pstr \<times> pyval) list \<Rightarrow> pyval res"
  assumes hook_distinct: "distinct (map fst kvs) \<Longrightarrow> hook kvs = Inr (PDict kvs)"
    and hook_dict: "hook kvs = Inr v \<Longrightarrow> \<exists>kvs'. v = PDict kvs' \<and> distinct (map fst kvs') \<and> set kvs' \<subseteq> set kvs"
    and hook_error: "hook kvs = Inl e \<Longrightarrow> is_value_error e"
begin

lemma scan_value_dumps:
  assumes "json_ok fr v" and "delim r"
  shows "scan_value (hook, fr) (dumps False v @ r) = Inr (v, r)"
  using assms
proof (induction v arbitrary: r)
  case PNone
  then show ?case by (simp add: scan_value_Cons lit_codes scan_atom_def literals_def)
next
  case (PBool b)
  then show ?case by (cases b) (simp_all add: scan_value_Cons lit_codes scan_atom_def literals_def)
next
  case (PInt i)
  obtain c cs where c: "dec_int i = c # cs" by (cases "dec_int i") auto
  then have "c = 45 \<or> is_digit c" using dec_int_chars [of c i] by auto
  with scan_value_number [OF scan_number_int] PInt c show ?case by (metis append_Cons dumps.simps(3) json_ok.simps(1))
next
  case (PFloat t)
  then consider "t \<in> set float_literals" | "number_text t" "fr t = t" by auto
  then show ?case
  proof cases
    case 1
    then show ?thesis using scan_value_special by simp
  next
    case 2
    then obtain c cs where "t = c # cs" "c = 45 \<or> is_digit c" by (auto simp: number_text_def dest!: scan_integer_head)
    with scan_value_number [OF scan_number_float [OF PFloat.prems(2) 2(1)]] 2(2) show ?thesis by simp
  qed
next
  case (PStr s)
  have "json_string s @ r = 34 # (tl (json_string s) @ r)" by (simp add: json_string_def)
  then show ?case using scan_string_json [of s r] PStr by (simp only: dumps.simps scan_value_Cons) simp
next
  case (PList xs)
  show ?case
  proof (cases xs)
    case Nil
    then show ?thesis by (simp add: scan_value_Cons lit_codes is_space_def)
  next
    case (Cons x ys)
    let ?body = "join [44, 32] (map (dumps False) xs) @ 93 # r"
    obtain c t where c: "dumps False x = c # t" "\<not> is_space c" "c \<noteq> 93"
      using PList.prems(1) Cons by (auto elim: dumps_head)
    obtain t' where body: "?body = c # t'" using Cons c(1) by (cases ys) simp_all
    have "scan_elements (hook, fr) [] ?body = Inr ([] @ xs, r)"
    proof (rule scan_elements_text [where ws = "[32]" and ws' = "[]", simplified])
      show "opens (dumps False v)" if "v \<in> set xs" for v
        using PList.prems(1) that by (auto simp: list_all_iff intro: opens_dumps)
      show "scan_value (hook, fr) (dumps False v @ q) = Inr (v, q)" if "v \<in> set xs" "delim q" for v q
        using PList.IH [OF that(1) _ that(2)] PList.prems(1) that(1) by (simp add: list_all_iff)
    qed (use Cons in \<open>simp_all add: is_space_def\<close>)
    then show ?thesis using body c by (simp add: scan_value_Cons lit_codes)
  qed
next
  case (PDict kvs)
  show ?case
  proof (cases kvs)
    case Nil
    then show ?thesis by (simp add: scan_value_Cons lit_codes is_space_def hook_distinct)
  next
    case (Cons kv kvs')
    let ?body = "join [44, 32] (map (\<lambda>(k, v). json_string k @ [58, 32] @ dumps False v) kvs) @ 125 # r"
    obtain t' where body: "?body = 34 # t'" using Cons by (cases kv; cases kvs') (simp_all add: json_string_def)
    have IH: "scan_value (hook, fr) (dumps False v @ r) = Inr (v, r)" if "(k, v) \<in> set kvs" "delim r" for k v r
      using PDict.IH [of "(k, v)" v r] PDict.prems(1) that by (auto simp: list_all_iff)
    have "scan_members (hook, fr) [] ?body = Inr ([] @ kvs, r)"
    proof (rule scan_members_text [where ws = "[32]" and ws' = "[]", unfolded append_Nil])
      show "wf_pstr k \<and> opens (dumps False v)" if "(k, v) \<in> set kvs" for k v
        using PDict.prems(1) that by (auto simp: list_all_iff intro: opens_dumps)
    qed (use IH Cons in \<open>simp_all add: is_space_def\<close>)
    moreover have "hook kvs = Inr (PDict kvs)" using PDict.prems(1) by (simp add: hook_distinct)
    moreover have "dumps False (PDict kvs) @ r = 123 # ?body"
      by (simp only: dumps_PDict append_Cons append_assoc append_Nil)
    ultimately show ?thesis using body by (simp add: scan_value_Cons is_space_def)
  qed
qed

end

lemma unique_object_error: "unique_object kvs = Inl e \<Longrightarrow> is_value_error e"
proof -
  have "foldE unique_object_step acc kvs = Inl e \<Longrightarrow> is_value_error e" for acc
    by (induction kvs arbitrary: acc)
      (auto simp: unique_object_step_def bindE_eq_Inl guardE_eq_Inl is_value_error_def split: prod.splits)
  then show "unique_object kvs = Inl e \<Longrightarrow> is_value_error e" by (auto simp: unique_object_def bindE_eq_Inl)
qed

interpretation unique: pairs_hook unique_object
  by unfold_locales (auto simp: unique_object_eq_Inr unique_object_error)

interpretation plain: pairs_hook plain_object
proof
  have fold: "foldl (\<lambda>kvs (k, v). dict_set k v kvs) acc kvs = acc @ kvs"
    if "distinct (map fst (acc @ kvs))" for acc kvs :: "(pstr \<times> pyval) list"
    using that
  proof (induction kvs arbitrary: acc)
    case (Cons kv kvs)
    then show ?case using dict_set_new [of "fst kv" acc "snd kv"] by (cases kv) (force simp: image_iff)
  qed simp
  then show "distinct (map fst kvs) \<Longrightarrow> plain_object kvs = Inr (PDict kvs)" for kvs
    by (simp add: plain_object_def)
  have keeps: "distinct (map fst acc) \<Longrightarrow> distinct (map fst (foldl (\<lambda>kvs (k, v). dict_set k v kvs) acc kvs))
      \<and> set (foldl (\<lambda>kvs (k, v). dict_set k v kvs) acc kvs) \<subseteq> set acc \<union> set kvs" for acc kvs :: "(pstr \<times> pyval) list"
  proof (induction kvs arbitrary: acc)
    case (Cons kv kvs)
    obtain k v where kv: "kv = (k, v)" by (cases kv)
    have "set (dict_set k v acc) \<subseteq> insert (k, v) (set acc)" by (induction acc) (auto split: if_splits)
    then show ?case using Cons.IH [of "dict_set k v acc"] dict_set_distinct [OF Cons.prems] kv by auto
  qed simp
  show "plain_object kvs = Inr v \<Longrightarrow> \<exists>kvs'. v = PDict kvs' \<and> distinct (map fst kvs') \<and> set kvs' \<subseteq> set kvs" for kvs v
    using keeps [of "[]" kvs] by (auto simp: plain_object_def)
qed (simp add: plain_object_def)

end
