(* ===== verification/Json_Bytes.thy ===== *)
theory Json_Bytes
  imports Json_Read_Back
begin

text \<open>
  JSON at the level of bytes: the text \<open>json.dumps\<close> prints is ASCII and decodes to the value
  printed, and every value \<open>json.loads\<close> returns for a UTF-8 text without surrogates is
  well-formed, so that the facts on \<open>key\<close> and on reading back apply to it.
\<close>

section \<open>Bytes and files\<close>

lemma hex_char_range: "n < 16 \<Longrightarrow> 48 \<le> hex_char n \<and> hex_char n < 103"
  by (simp add: hex_char_def)

lemma long_escape_ascii:
  assumes "c \<in> set (long_escape u)"
  shows "32 \<le> c \<and> c < 127"
proof -
  let ?ns = "[u div 4096 mod 16, u div 256 mod 16, u div 16 mod 16, u mod 16]"
  have "long_escape u = map hex_char ?ns" by (simp only: long_escape_def list.map)
  with assms have "c \<in> hex_char ` set ?ns" by (simp only: set_map)
  then obtain n where "n \<in> set ?ns" and c: "c = hex_char n" by (elim imageE)
  moreover have "\<forall>n \<in> set ?ns. n < 16" by (simp only: list.set ball_simps mod_less_divisor zero_less_numeral simp_thms)
  ultimately have "n < 16" by blast
  with hex_char_range [of n] c show ?thesis by simp
qed

lemma esc_unit_ascii: "c \<in> set (esc_unit u) \<Longrightarrow> 32 \<le> c \<and> c < 127"
proof -
  assume c: "c \<in> set (esc_unit u)"
  have "esc_unit u = 92 # 117 # long_escape u \<or> (\<exists>x \<in> {34, 92, 110, 114, 116, 102, 98}. esc_unit u = [92, x])
      \<or> esc_unit u = [u] \<and> 32 \<le> u \<and> u \<le> 126"
    by (simp add: esc_unit_def long_escape_def)
  then show ?thesis using c long_escape_ascii by (elim disjE bexE) auto
qed

lemma json_string_ascii: "c \<in> set (json_string s) \<Longrightarrow> 32 \<le> c \<and> c < 127"
  using esc_unit_ascii by (auto simp: json_string_def)

definition number_char :: "nat \<Rightarrow> bool" where
  "number_char c \<longleftrightarrow> is_digit c \<or> c \<in> {43, 45, 46, 69, 101}"

lemma scan_digits_chars: "c \<in> set (fst (scan_digits s)) \<Longrightarrow> number_char c"
  by (auto simp: scan_digits_def number_char_def dest: set_takeWhileD)

lemma scan_natural_chars: "scan_natural s = Some (i, q) \<Longrightarrow> c \<in> set i \<Longrightarrow> number_char c"
  using scan_digits_chars [of c s] by (cases s) (auto simp: scan_natural_def number_char_def is_digit_def split: if_splits)

lemma number_text_chars:
  assumes "number_text t" and "c \<in> set t"
  shows "number_char c"
proof -
  obtain i f x q q' where t: "scan_integer t = Some (i, q)" "scan_fraction q = (f, q')" "scan_exponent q' = (x, [])" "t = i @ f @ x"
    using assms(1) by (auto simp: number_text_def)
  have "number_char c" if "c \<in> set i"
    using t(1) that by (auto simp: scan_integer_def number_char_def dest: scan_natural_chars split: if_splits)
  moreover have "number_char c" if "c \<in> set f"
    using t(2) that scan_digits_chars [of c "tl q"] by (cases q) (auto simp: scan_fraction_def number_char_def split: if_splits)
  moreover have "number_char c" if "c \<in> set x"
  proof (cases q')
    case (Cons d p)
    obtain sign r where r: "scan_sign p = (sign, r)" by (cases "scan_sign p")
    then have "set sign \<subseteq> {43, 45}" by (cases p) (auto simp: scan_sign_def split: if_splits)
    with t(3) that Cons r scan_digits_chars [of c r] show ?thesis by (auto simp: scan_exponent_def number_char_def split: if_splits)
  qed (use t(3) that in \<open>simp add: scan_exponent_def\<close>)
  ultimately show ?thesis using assms(2) t(4) by auto
qed

lemma set_join: "set (join sep xs) \<subseteq> set sep \<union> (\<Union>x \<in> set xs. set x)"
  by (induction sep xs rule: join.induct) auto

lemma dumps_ascii: "json_ok fr v \<Longrightarrow> c \<in> set (dumps False v) \<Longrightarrow> 32 \<le> c \<and> c < 127"
proof (induction v arbitrary: c)
  case (PInt i)
  then show ?case using dec_int_code [of c i] by auto
next
  case (PFloat t)
  then show ?case
    using number_text_chars [of t c] by (auto simp: float_literals_def lit_codes number_char_def is_digit_def)
next
  case (PStr s)
  then show ?case using json_string_ascii by auto
next
  case (PList xs)
  then have "c \<in> {91, 93, 44, 32} \<or> (\<exists>x \<in> set xs. c \<in> set (dumps False x))"
    using set_join [of "lit '', ''" "map (dumps False) xs"] by (auto simp: lit_codes)
  with PList show ?case by (auto simp: list_all_iff)
next
  case (PDict kvs)
  let ?items = "map (\<lambda>(k, v). json_string k @ [58, 32] @ dumps False v) kvs"
  have "c \<in> {123, 125, 44, 32} \<or> (\<exists>x \<in> set ?items. c \<in> set x)"
    using PDict.prems(2) set_join [of "[44, 32]" ?items] unfolding dumps_PDict by auto
  then consider "c \<in> {123, 125, 44, 32}" | k v where "(k, v) \<in> set kvs" "c \<in> set (json_string k) \<or> c \<in> {58, 32} \<or> c \<in> set (dumps False v)"
    by auto
  then show ?case
  proof cases
    case 2
    then have "json_ok fr v" using PDict.prems(1) by (auto simp: list_all_iff)
    with 2 PDict.IH [of "(k, v)" v c] json_string_ascii show ?thesis by auto
  qed auto
qed (auto simp: lit_codes split: if_splits)

lemma utf8_decode_ascii: "(\<And>c. c \<in> set s \<Longrightarrow> c < 128) \<Longrightarrow> utf8_decode s = s"
  using utf8_encode_ascii utf8_decode_encode by blast

lemma decode_utf8_ascii:
  assumes "\<And>c. c \<in> set s \<Longrightarrow> c < 128"
  shows "decode_utf8 s = Inr s"
proof -
  have "utf8_pass c = [c]" if "c \<in> set s" for c
    using assms [OF that] by (simp add: utf8_pass_def is_surrogate_def utf8_char_ascii)
  then have "concat (map utf8_pass s) = s" by (induction s) auto
  moreover have "list_all (\<lambda>c. c < 0x110000) s" using assms by (fastforce simp: list_all_iff)
  ultimately show ?thesis using utf8_decode_ascii [OF assms] by (simp add: decode_utf8_def)
qed

lemma plain_utf8_text: "(\<And>c. c \<in> set s \<Longrightarrow> 32 \<le> c \<and> c < 128) \<Longrightarrow> plain_utf8 s"
proof -
  assume s: "\<And>c. c \<in> set s \<Longrightarrow> 32 \<le> c \<and> c < 128"
  have nz: "s ! i \<noteq> 0" if "i < length s" for i using s [OF nth_mem [OF that]] by linarith
  have "\<not> starts_with (b # p) s" if "128 \<le> b" for b p
    using s that by (cases s) fastforce+
  moreover have "s ! 0 \<noteq> 0 \<and> s ! 1 \<noteq> 0" if "2 \<le> length s" using nz [of 0] nz [of 1] that by linarith
  ultimately show ?thesis by (simp add: plain_utf8_def)
qed

lemma json_loads_dumps:
  assumes "json_ok fr v"
  shows "json_loads fr od (dumps False v) = Inr v"
proof -
  have ascii: "32 \<le> c \<and> c < 128" if "c \<in> set (dumps False v)" for c
    using dumps_ascii [OF assms that] by simp
  then have "plain_utf8 (dumps False v)" "decode_utf8 (dumps False v) = Inr (dumps False v)"
    using plain_utf8_text decode_utf8_ascii by blast+
  moreover obtain c t where "dumps False v = c # t" "\<not> is_space c" using assms by (rule dumps_head)
  then have "skip (dumps False v) = dumps False v" by simp
  moreover have "scan_value (unique_object, fr) (dumps False v) = Inr (v, [])"
    using unique.scan_value_dumps [OF assms, of "[]"] by (simp add: delim_def)
  ultimately show ?thesis by (simp add: json_loads_def decode_text_def)
qed

section \<open>What is read is well-formed\<close>

definition no_surrogates :: "pstr \<Rightarrow> bool" where
  "no_surrogates s \<longleftrightarrow> list_all (\<lambda>c. c < 0x110000 \<and> \<not> is_surrogate c) s"

lemma hex_unit_range: "hex_unit s = Some u \<Longrightarrow> u < 0x10000"
proof -
  assume "hex_unit s = Some u"
  then obtain a b c d where "map hex_value s = [Some a, Some b, Some c, Some d]" "u = a * 4096 + b * 256 + c * 16 + d"
    by (auto simp: hex_unit_def split: list.splits option.splits)
  moreover have "hex_value x = Some n \<Longrightarrow> n < 16" for x n by (auto simp: hex_value_def split: if_splits)
  ultimately have "a < 16" "b < 16" "c < 16" "d < 16" by auto
  with \<open>u = _\<close> show ?thesis by simp
qed

lemma scan_unit_cases:
  assumes "scan_unit s = Inr (u, r)"
  obtains (pair) "0x10000 \<le> u" and "u < 0x110000" and "\<exists>n. r = drop n s"
    | (single) "hex_unit (take 4 s) = Some u" and "r = drop 4 s" and "u < 0x10000"
        and "high_surrogate u \<Longrightarrow> take 2 r = [92, 117] \<Longrightarrow> \<exists>v. hex_unit (take 4 (drop 2 r)) = Some v \<and> \<not> low_surrogate v"
proof -
  obtain u0 where u0: "hex_unit (take 4 s) = Some u0" using assms by (auto simp: scan_unit_def json_error_def split: option.splits)
  note range = hex_unit_range [OF u0]
  show thesis
  proof (cases "high_surrogate u0 \<and> take 2 (drop 4 s) = [92, 117]")
    case True
    then obtain v where v: "hex_unit (take 4 (drop 2 (drop 4 s))) = Some v"
      using assms u0 by (auto simp: scan_unit_def json_error_def Let_def split: option.splits)
    show thesis
    proof (cases "low_surrogate v")
      case low: True
      then have "u = 0x10000 + (u0 - 0xD800) * 1024 + (v - 0xDC00)" "r = drop 6 (drop 4 s)"
        using assms u0 True v by (auto simp: scan_unit_def Let_def)
      with True low show thesis by (intro pair) (auto simp: high_surrogate_def low_surrogate_def)
    next
      case False
      then have "u = u0" "r = drop 4 s" using assms u0 True v by (auto simp: scan_unit_def Let_def)
      with u0 v False range show thesis by (intro single) auto
    qed
  next
    case False
    then have "u = u0" "r = drop 4 s" using assms u0 by (auto simp: scan_unit_def Let_def split: if_splits)
    with u0 False range show thesis by (intro single) auto
  qed
qed

lemma escape_letters_range: "map_of escape_letters c = Some d \<Longrightarrow> d < 128"
  by (auto simp: escape_letters_def split: if_splits)

lemma scan_escape_cases:
  assumes "scan_escape s = Inr (u, r)"
  obtains (unit) q where "s = 117 # q" and "scan_unit q = Inr (u, r)" | (letter) c where "s = c # r" and "u < 128"
proof -
  obtain c q where s: "s = c # q" using assms by (cases s) (auto simp: scan_escape_def json_error_def)
  then show thesis
    using assms unit letter escape_letters_range by (auto simp: scan_escape_def json_error_def split: if_splits option.splits)
qed

lemma scan_escape_wf:
  assumes "scan_escape s = Inr (u, r)"
  shows "u < 0x110000" and "\<exists>n. r = drop n s"
    and "high_surrogate u \<Longrightarrow> take 2 r = [92, 117] \<Longrightarrow> \<exists>v. hex_unit (take 4 (drop 2 r)) = Some v \<and> \<not> low_surrogate v"
    and "low_surrogate u \<Longrightarrow> \<exists>q. s = 117 # q \<and> hex_unit (take 4 q) = Some u"
proof -
  have "u < 0x110000 \<and> (\<exists>n. r = drop n s)
    \<and> (high_surrogate u \<longrightarrow> take 2 r = [92, 117] \<longrightarrow> (\<exists>v. hex_unit (take 4 (drop 2 r)) = Some v \<and> \<not> low_surrogate v))
    \<and> (low_surrogate u \<longrightarrow> (\<exists>q. s = 117 # q \<and> hex_unit (take 4 q) = Some u))"
    using assms
  proof (cases rule: scan_escape_cases)
    case (unit q)
    have drop: "\<exists>n. drop m q = drop n s" for m using unit(1) by (intro exI [of _ "Suc m"]) simp
    from unit(2) show ?thesis
      by (cases rule: scan_unit_cases) (use unit(1) drop in \<open>auto simp: high_surrogate_def low_surrogate_def\<close>)
  next
    case (letter c)
    then show ?thesis by (auto simp: high_surrogate_def low_surrogate_def intro: exI [of _ 1])
  qed
  then show "u < 0x110000" "\<exists>n. r = drop n s"
    "high_surrogate u \<Longrightarrow> take 2 r = [92, 117] \<Longrightarrow> \<exists>v. hex_unit (take 4 (drop 2 r)) = Some v \<and> \<not> low_surrogate v"
    "low_surrogate u \<Longrightarrow> \<exists>q. s = 117 # q \<and> hex_unit (take 4 q) = Some u"
    by blast+
qed

lemma no_surrogates_drop: "no_surrogates s \<Longrightarrow> no_surrogates (drop n s)"
  by (auto simp: no_surrogates_def list_all_iff dest: in_set_dropD)

lemma surrogate_kinds: "high_surrogate c \<Longrightarrow> is_surrogate c" "low_surrogate c \<Longrightarrow> is_surrogate c"
  by (auto simp: high_surrogate_def low_surrogate_def is_surrogate_def)

text \<open>A low surrogate at the start of a scanned string comes from an escape there.\<close>

lemma scan_string_low:
  assumes "scan_string s = Inr (v # t, q)" and "low_surrogate v" and "no_surrogates s"
  shows "take 2 s = [92, 117] \<and> hex_unit (take 4 (drop 2 s)) = Some v"
proof -
  obtain c r where s: "s = c # r" using assms(1) by (cases s) (auto simp: json_error_def)
  have "c = 92"
    using assms s surrogate_kinds(2) [of c] by (auto simp: bindE_eq_Inr json_error_def no_surrogates_def split: if_splits)
  then obtain r' where "scan_escape r = Inr (v, r')" using assms(1) s by (auto simp: bindE_eq_Inr)
  with scan_escape_wf(4) [OF this assms(2)] s \<open>c = 92\<close> show ?thesis by auto
qed

lemma wf_pstr_ConsI: "c < 0x110000 \<Longrightarrow> wf_pstr s \<Longrightarrow> (s \<noteq> [] \<Longrightarrow> \<not> (high_surrogate c \<and> low_surrogate (hd s))) \<Longrightarrow> wf_pstr (c # s)"
  by (cases s) auto

lemma scan_string_wf:
  "scan_string s = Inr (t, r) \<Longrightarrow> no_surrogates s \<Longrightarrow> wf_pstr t \<and> (\<exists>n. r = drop n s)"
proof (induction "length s" arbitrary: s t r rule: less_induct)
  case less
  obtain c q where s: "s = c # q" using less.prems(1) by (cases s) (auto simp: json_error_def)
  consider (quote) "c = 34" | (escape) "c = 92" | (plain) "c \<noteq> 34" "c \<noteq> 92" by blast
  then show ?case
  proof cases
    case quote
    then show ?thesis using less.prems s by (auto intro: exI [of _ 1])
  next
    case escape
    then obtain u r' t' where u: "scan_escape q = Inr (u, r')" and t': "scan_string r' = Inr (t', r)" and t: "t = u # t'"
      using less.prems(1) s by (auto simp: bindE_eq_Inr)
    obtain n where n: "r' = drop n q" using scan_escape_wf(2) [OF u] by blast
    have ns: "no_surrogates r'" using less.prems(2) no_surrogates_drop [of s "Suc n"] s n by simp
    have "length r' < length s" using scan_escape_shorter [OF u] s by simp
    from less.hyps [OF this t' ns] have IH: "wf_pstr t'" "\<exists>n. r = drop n r'" by auto
    have "\<not> (high_surrogate u \<and> low_surrogate (hd t'))" if ne: "t' \<noteq> []"
    proof
      assume hl: "high_surrogate u \<and> low_surrogate (hd t')"
      have "scan_string r' = Inr (hd t' # tl t', r)" using t' ne by simp
      from scan_string_low [OF this _ ns] hl scan_escape_wf(3) [OF u] show False by auto
    qed
    then have "wf_pstr t" unfolding t using scan_escape_wf(1) [OF u] IH(1) by (intro wf_pstr_ConsI) auto
    moreover obtain m where "r = drop m r'" using IH(2) by blast
    then have "r = drop (Suc (m + n)) s" using n s by (simp add: add.commute)
    ultimately show ?thesis by blast
  next
    case plain
    then obtain t' where t': "scan_string q = Inr (t', r)" and t: "t = c # t'"
      using less.prems(1) s by (auto simp: bindE_eq_Inr json_error_def split: if_splits)
    have ns: "no_surrogates q" and c: "c < 0x110000" "\<not> is_surrogate c" using less.prems(2) s by (auto simp: no_surrogates_def)
    from less.hyps [OF _ t' ns] s have IH: "wf_pstr t'" "\<exists>n. r = drop n q" by auto
    have "wf_pstr t" unfolding t using c IH(1) surrogate_kinds(1) by (intro wf_pstr_ConsI) auto
    moreover obtain m where "r = drop m q" using IH(2) by blast
    then have "r = drop (Suc m) s" using s by simp
    ultimately show ?thesis by blast
  qed
qed

section \<open>Parsed values are well-formed\<close>

lemma set_skip: "set (skip s) \<subseteq> set s"
  by (auto simp: skip_def dest: set_dropWhileD)

lemma set_scan_digits: "set (snd (scan_digits s)) \<subseteq> set s"
  by (auto simp: scan_digits_def dest: set_dropWhileD)

lemma set_scan_natural: "scan_natural s = Some (i, r) \<Longrightarrow> set r \<subseteq> set s"
  using set_scan_digits [of s] by (cases s) (auto simp: scan_natural_def split: if_splits)

lemma set_scan_integer: "scan_integer s = Some (i, r) \<Longrightarrow> set r \<subseteq> set s"
  by (cases s) (auto simp: scan_integer_def dest!: set_scan_natural split: if_splits)

lemma set_scan_fraction: "scan_fraction s = (f, r) \<Longrightarrow> set r \<subseteq> set s"
  using set_scan_digits [of "tl s"] by (cases s) (auto simp: scan_fraction_def split: if_splits)

lemma set_scan_exponent: "scan_exponent s = (x, r) \<Longrightarrow> set r \<subseteq> set s"
proof (cases s)
  case (Cons c q)
  assume x: "scan_exponent s = (x, r)"
  obtain sign t where t: "scan_sign q = (sign, t)" by (cases "scan_sign q")
  then have "set t \<subseteq> set q" by (cases q) (auto simp: scan_sign_def split: if_splits)
  with x Cons t set_scan_digits [of t] show ?thesis by (auto simp: scan_exponent_def split: if_splits)
qed (auto simp: scan_exponent_def)

text \<open>
  What Python guarantees of \<open>float_repr\<close>: it prints a special value or a number literal in lower
  case that denotes the same float again.
\<close>

definition float_printer :: "(pstr \<Rightarrow> pstr) \<Rightarrow> bool" where
  "float_printer fr \<longleftrightarrow> (\<forall>t. wf_float (fr t) \<and> json_ok fr (PFloat (fr t)))"

definition good :: "(pstr \<Rightarrow> pstr) \<Rightarrow> pyval \<Rightarrow> bool" where
  "good fr v \<longleftrightarrow> wf_pyval v \<and> json_ok fr v"

lemma good_simps [simp]:
  "good fr (PStr s) \<longleftrightarrow> wf_pstr s" "good fr (PList xs) \<longleftrightarrow> list_all (good fr) xs"
  "good fr (PDict kvs) \<longleftrightarrow> distinct (map fst kvs) \<and> list_all (\<lambda>(k, v). wf_pstr k \<and> good fr v) kvs"
  by (auto simp: good_def list_all_iff)

lemma undec_bound: "list_all is_digit ds \<Longrightarrow> undec ds < 10 ^ length ds"
proof (induction ds rule: rev_induct)
  case (snoc d ds)
  then have "undec ds < 10 ^ length ds" and "d - 48 < 10" by (auto simp: is_digit_def)
  moreover have "undec (ds @ [d]) = undec ds * 10 + (d - 48)" by (simp add: undec_def)
  ultimately show ?case by simp
qed (simp add: undec_def)

lemma length_dec: "n < 10 ^ k \<Longrightarrow> 0 < k \<Longrightarrow> length (dec n) \<le> k"
proof (induction n arbitrary: k rule: dec.induct)
  case (1 n)
  show ?case
  proof (cases "n < 10")
    case True
    then show ?thesis using "1.prems" by (subst dec.simps) simp
  next
    case False
    then obtain j where k: "k = Suc j" "0 < j" using "1.prems" by (cases k; cases "k - 1") auto
    then have "n div 10 < 10 ^ j" using "1.prems"(1) by (simp add: less_mult_imp_div_less mult.commute)
    then have "length (dec (n div 10)) \<le> j" using "1.IH" False k(2) by blast
    then show ?thesis using False k(1) by (subst dec.simps) simp
  qed
qed

lemma scan_natural_digits: "scan_natural s = Some (ds, q) \<Longrightarrow> list_all is_digit ds \<and> ds \<noteq> []"
proof -
  have "is_digit 48" by (simp add: is_digit_def)
  then show "scan_natural s = Some (ds, q) \<Longrightarrow> list_all is_digit ds \<and> ds \<noteq> []"
    by (cases s) (auto simp: scan_natural_def scan_digits_def list_all_iff dest: set_takeWhileD split: if_splits)
qed

lemma int_of_text_ok:
  assumes "scan_integer s = Some (i, q)" and "int_of_text i = Inr v"
  shows "good fr v"
proof -
  define ds where "ds = (if take 1 i = [45] then tl i else i)"
  have "list_all is_digit ds \<and> ds \<noteq> []"
  proof (cases "take 1 s = [45]")
    case True
    then show ?thesis using assms(1) scan_natural_digits [of "tl s"] by (auto simp: ds_def scan_integer_def)
  next
    case False
    then have i: "list_all is_digit i \<and> i \<noteq> []" using assms(1) scan_natural_digits [of s i q] by (auto simp: scan_integer_def)
    moreover have "\<not> is_digit 45" by (simp add: is_digit_def)
    ultimately have "take 1 i \<noteq> [45]" by (cases i) auto
    with i show ?thesis by (simp add: ds_def)
  qed
  moreover have "length ds \<le> 4300" and v: "v = PInt (if take 1 i = [45] then - int (undec ds) else int (undec ds))"
    using assms(2) by (auto simp: int_of_text_def ds_def Let_def split: if_splits)
  ultimately have "length (dec (undec ds)) \<le> 4300" using length_dec [OF undec_bound, of ds] by auto
  then show ?thesis unfolding v good_def by simp
qed

lemma scan_number_wf:
  assumes "scan_number fr s = Some (Inr (v, r))" and "float_printer fr"
  shows "good fr v \<and> set r \<subseteq> set s"
proof -
  obtain i q f q' x where parts: "scan_integer s = Some (i, q)" "scan_fraction q = (f, q')" "scan_exponent q' = (x, r)"
    using assms(1) by (auto simp: scan_number_def bindE_eq_Inr split: option.splits prod.splits if_splits)
  have "set r \<subseteq> set s"
    using set_scan_integer [OF parts(1)] set_scan_fraction [OF parts(2)] set_scan_exponent [OF parts(3)] by blast
  moreover have "good fr v"
    using assms parts int_of_text_ok [OF parts(1)]
    by (auto simp: scan_number_def bindE_eq_Inr good_def float_printer_def split: if_splits)
  ultimately show ?thesis by blast
qed

lemma scan_atom_wf:
  assumes s: "scan_atom fr s = Inr (v, r)" and fr: "float_printer fr"
  shows "good fr v \<and> set r \<subseteq> set s"
proof (cases "find (\<lambda>(t, _). starts_with t s) literals")
  case (Some tv)
  then have "tv \<in> set literals" by (metis find_Some_iff nth_mem)
  moreover have "v = snd tv" "r = drop (length (fst tv)) s" using s Some by (auto simp: scan_atom_def split: prod.splits)
  ultimately show ?thesis by (auto simp: literals_def good_def dest: in_set_dropD)
next
  case no_literal: None
  show ?thesis
  proof (cases "scan_number fr s")
    case (Some res)
    then show ?thesis using s no_literal scan_number_wf [OF _ fr] by (simp add: scan_atom_def)
  next
    case None
    then obtain t where t: "find (\<lambda>t. starts_with t s) float_literals = Some t" "v = PFloat t" "r = drop (length t) s"
      using s no_literal by (auto simp: scan_atom_def json_error_def split: option.splits)
    then have "t \<in> set float_literals" by (metis find_Some_iff nth_mem)
    with t(2,3) show ?thesis by (auto simp: float_literals_def wf_float_def good_def dest: in_set_dropD)
  qed
qed

lemma no_surrogates_mono: "no_surrogates s \<Longrightarrow> set r \<subseteq> set s \<Longrightarrow> no_surrogates r"
  by (auto simp: no_surrogates_def list_all_iff)

lemma scan_string_value: "scan_string s = Inr (t, r) \<Longrightarrow> no_surrogates s \<Longrightarrow> wf_pstr t \<and> set r \<subseteq> set s"
  using scan_string_wf [of s t r] by (auto dest: in_set_dropD)

section \<open>Errors\<close>

text \<open>Scanning raises nothing but \<open>ValueError\<close> (of which \<open>JSONDecodeError\<close> is a subclass).\<close>

definition only_value_errors :: "'a res \<Rightarrow> bool" where
  "only_value_errors m \<longleftrightarrow> (\<forall>e. m = Inl e \<longrightarrow> is_value_error e)"

lemma ove_Inr: "only_value_errors (Inr x)"
  by (simp add: only_value_errors_def)

lemma ove_json_error: "only_value_errors (json_error msg)"
  by (simp add: only_value_errors_def json_error_def is_value_error_def)

lemma ove_bindE: "only_value_errors m \<Longrightarrow> (\<And>x. m = Inr x \<Longrightarrow> only_value_errors (f x)) \<Longrightarrow> only_value_errors (bindE m f)"
  by (cases m) (auto simp: only_value_errors_def)

lemma ove_if: "(c \<Longrightarrow> only_value_errors a) \<Longrightarrow> (\<not> c \<Longrightarrow> only_value_errors b) \<Longrightarrow> only_value_errors (if c then a else b)"
  by simp

lemmas ove_intros = ove_Inr ove_json_error ove_bindE ove_if

lemma ove_scan_escape: "only_value_errors (scan_escape s)"
  by (auto simp: scan_escape_def scan_unit_def Let_def intro!: ove_intros split: list.splits option.splits)

lemma ove_scan_string: "only_value_errors (scan_string s)"
  by (induction s rule: scan_string.induct)
    (subst scan_string.simps, auto intro!: ove_intros ove_scan_escape split: list.splits prod.splits)

lemma ove_scan_atom: "only_value_errors (scan_atom fr s)"
  by (auto simp: scan_atom_def scan_number_def int_of_text_def Let_def only_value_errors_def bindE_eq_Inl json_error_def is_value_error_def
      split: option.splits prod.splits if_splits)

lemma scan_atom_dict: "scan_atom fr s \<noteq> Inr (PDict m, r)"
proof
  assume "scan_atom fr s = Inr (PDict m, r)"
  then consider t where "find (\<lambda>(t, _). starts_with t s) literals = Some (t, PDict m)"
    | res where "scan_number fr s = Some res" "res = Inr (PDict m, r)"
    by (auto simp: scan_atom_def json_error_def split: option.splits)
  then show False
  proof cases
    case 1
    then have "(t, PDict m) \<in> set literals" by (metis find_Some_iff nth_mem)
    then show False by (auto simp: literals_def)
  next
    case 2
    then show False
      by (auto simp: scan_number_def int_of_text_def Let_def bindE_eq_Inr split: option.splits prod.splits if_splits)
  qed
qed

context pairs_hook begin

lemma ove_scan:
  "fst p = hook \<Longrightarrow> only_value_errors (scan_value p s)"
  "fst p = hook \<Longrightarrow> only_value_errors (scan_elements p xs s')"
  "fst p = hook \<Longrightarrow> only_value_errors (scan_members p kvs s'')"
proof (induction p s and p xs s' and p kvs s'' rule: scan_value_scan_elements_scan_members.induct)
  case (1 p s)
  have hook: "only_value_errors (fst p kvs)" for kvs using hook_error "1.prems" by (auto simp: only_value_errors_def)
  from 1 show ?case
    by (subst scan_value.simps) (auto intro!: ove_intros ove_scan_string ove_scan_atom hook split: list.splits prod.splits)
next
  case (2 p xs s)
  then show ?case by (subst scan_elements.simps) (auto intro!: ove_intros split: list.splits prod.splits)
next
  case (3 p kvs s)
  then show ?case by (subst scan_members.simps) (auto intro!: ove_intros ove_scan_string split: list.splits prod.splits)
qed

lemma ove_decode_text: "only_value_errors (decode_text (hook, fr) s)"
  unfolding decode_text_def by (auto intro!: ove_intros ove_scan)

lemma scan_wf:
  assumes reader: "fst p = hook \<and> float_printer (snd p)"
  shows "scan_value p s = Inr (v, r) \<Longrightarrow> no_surrogates s \<Longrightarrow> good (snd p) v \<and> set r \<subseteq> set s"
    and "scan_elements p xs s' = Inr (ys, r') \<Longrightarrow> no_surrogates s' \<Longrightarrow> list_all (good (snd p)) xs \<Longrightarrow> list_all (good (snd p)) ys \<and> set r' \<subseteq> set s'"
    and "scan_members p kvs s'' = Inr (kvs', r'') \<Longrightarrow> no_surrogates s'' \<Longrightarrow> list_all (\<lambda>(k, v). wf_pstr k \<and> good (snd p) v) kvs
      \<Longrightarrow> list_all (\<lambda>(k, v). wf_pstr k \<and> good (snd p) v) kvs' \<and> set r'' \<subseteq> set s''"
  using reader
proof (induction p s and p xs s' and p kvs s'' arbitrary: v r and ys r' and kvs' r''
    rule: scan_value_scan_elements_scan_members.induct)
  case (1 p s)
  obtain c q where s: "s = c # q" using "1.prems"(1) by (cases s) (auto simp: scan_value.simps json_error_def)
  have sk: "set (skip q) \<subseteq> set s" using set_skip [of q] s by auto
  note clean = no_surrogates_mono [OF "1.prems"(2)]
  consider (str) "c = 34" | (arr) "c = 91" | (obj) "c = 123" | (atom) "c \<notin> {34, 91, 123}" by blast
  then show ?case
  proof cases
    case str
    then obtain t where "scan_string q = Inr (t, r)" "v = PStr t" using "1.prems"(1) s by (auto simp: scan_value_Cons bindE_eq_Inr)
    with scan_string_value [of q t r] clean [of q] s show ?thesis by auto
  next
    case arr
    obtain d t where d: "skip q = d # t" using "1.prems"(1) s arr by (cases "skip q") (auto simp: scan_value_Cons json_error_def)
    show ?thesis
    proof (cases "d = 93")
      case True
      then show ?thesis using "1.prems"(1) s arr d sk by (auto simp: scan_value_Cons)
    next
      case False
      then obtain xs where xs: "scan_elements p [] (d # t) = Inr (xs, r)" "v = PList xs"
        using "1.prems"(1) s arr d by (auto simp: scan_value_Cons bindE_eq_Inr)
      have "length (d # t) < length s" using length_skip [of q] d s by simp
      from "1.IH"(1) [OF s _ arr d False this xs(1) clean] arr sk d xs "1.prems"(3) show ?thesis by fastforce
    qed
  next
    case obj
    obtain d t where d: "skip q = d # t" using "1.prems"(1) s obj by (cases "skip q") (auto simp: scan_value_Cons json_error_def)
    show ?thesis
    proof (cases "d = 125")
      case True
      then show ?thesis using "1.prems"(1,3) s obj d sk by (auto simp: scan_value_Cons hook_distinct)
    next
      case False
      then obtain kvs where kvs: "scan_members p [] (d # t) = Inr (kvs, r)" "hook kvs = Inr v"
        using "1.prems"(1,3) s obj d by (auto simp: scan_value_Cons bindE_eq_Inr)
      have "length (d # t) < length s" using length_skip [of q] d s by simp
      from "1.IH"(2) [OF s _ _ obj d False this kvs(1) clean] obj sk d "1.prems"(3)
      have "list_all (\<lambda>(k, v). wf_pstr k \<and> good (snd p) v) kvs" "set r \<subseteq> set s" by fastforce+
      with hook_dict [OF kvs(2)] show ?thesis by (fastforce simp: list_all_iff)
    qed
  next
    case atom
    then show ?thesis using "1.prems" s scan_atom_wf [of "snd p" s v r] by (simp add: scan_value_Cons)
  qed
next
  case (2 p xs s)
  then obtain v q where v: "scan_value p s = Inr (v, q)" by (auto simp: scan_elements_eq [of p xs s] bindE_eq_Inr)
  have IH: "good (snd p) v" "set q \<subseteq> set s" using "2.IH"(1) [OF v "2.prems"(2)] "2.prems"(4) by auto
  obtain d t where d: "skip q = d # t" using "2.prems"(1) v by (cases "skip q") (auto simp: scan_elements_eq [of p xs s] json_error_def)
  have t: "set t \<subseteq> set s" "set (skip t) \<subseteq> set s" using set_skip [of q] set_skip [of t] d IH(2) by auto
  have len: "length (skip t) < length s"
    using scan_shorter(1) [OF v] length_skip [of q] length_skip [of t] d by simp
  consider "d = 93" | "d \<noteq> 93" "d = 44" using "2.prems"(1) v d by (auto simp: scan_elements_eq [of p xs s] json_error_def split: if_splits)
  then show ?case
  proof cases
    case 1
    then show ?thesis using "2.prems" v d IH t by (auto simp: scan_elements_eq [of p xs s])
  next
    case 2
    then have "scan_elements p (xs @ [v]) (skip t) = Inr (ys, r')" using "2.prems"(1) v d by (simp add: scan_elements_eq [of p xs s])
    from "2.IH"(2) [OF v refl d 2 len this no_surrogates_mono [OF "2.prems"(2) t(2)]] IH "2.prems"(3,4) t show ?thesis by auto
  qed
next
  case (3 p kvs s)
  obtain c q where s: "s = c # q" using "3.prems"(1) by (cases s) (auto simp: scan_members.simps json_error_def)
  have c: "c = 34" using "3.prems"(1) s by (auto simp: scan_members.simps json_error_def split: if_splits)
  note run = "3.prems"(1) [unfolded s c scan_members_eq]
  obtain k r1 where k: "scan_string q = Inr (k, r1)" using run by (auto simp: bindE_eq_Inr)
  have k_wf: "wf_pstr k" "set r1 \<subseteq> set s"
    using scan_string_value [OF k] no_surrogates_mono [OF "3.prems"(2), of q] s by auto
  obtain d r2 where d: "skip r1 = d # r2" using run k by (cases "skip r1") (auto simp: json_error_def)
  have colon: "d = 58" using run k d by (auto simp: json_error_def split: if_splits)
  have r2: "set (skip r2) \<subseteq> set s" using set_skip [of r1] set_skip [of r2] d k_wf(2) by auto
  have len: "length (skip r2) < length s"
    using scan_string_shorter [OF k] length_skip [of r1] length_skip [of r2] d s by simp
  obtain v r3 where v: "scan_value p (skip r2) = Inr (v, r3)" using run k d colon by (auto simp: bindE_eq_Inr)
  have v_wf: "good (snd p) v" "set r3 \<subseteq> set s"
    using "3.IH"(1) [OF s _ k refl d _ len v no_surrogates_mono [OF "3.prems"(2) r2]] c colon "3.prems"(4) r2 by auto
  obtain d' t where t: "skip r3 = d' # t" using run k d colon v by (cases "skip r3") (auto simp: json_error_def)
  have sub: "set t \<subseteq> set s" "set (skip t) \<subseteq> set s" using set_skip [of r3] set_skip [of t] t v_wf(2) by auto
  have len': "length (skip t) < length s"
    using len scan_shorter(1) [OF v] length_skip [of r3] length_skip [of t] t by simp
  consider "d' = 125" | "d' \<noteq> 125" "d' = 44" using run k d colon v t by (auto simp: json_error_def split: if_splits)
  then show ?case
  proof cases
    case 1
    then show ?thesis using run k d colon v t k_wf v_wf sub "3.prems"(3) by auto
  next
    case 2
    then have "scan_members p (kvs @ [(k, v)]) (skip t) = Inr (kvs', r'')" using run k d colon v t by simp
    from "3.IH"(2) [OF s _ k refl d _ len v refl t 2 len' this no_surrogates_mono [OF "3.prems"(2) sub(2)]]
    show ?thesis using c colon k_wf v_wf sub "3.prems"(3,4) by auto
  qed
qed

end

lemma json_loads_errors: "json_loads fr od b = Inl e \<Longrightarrow> is_value_error e \<or> od b = Inl e"
  using unique.ove_decode_text [of fr]
  by (auto simp: json_loads_def bindE_eq_Inl decode_utf8_def Let_def only_value_errors_def is_value_error_def split: if_splits)

end
