(* ===== verification/Tlc_Output.thy ===== *)
theory Tlc_Output
  imports Raftz_Prelude
begin

text \<open>
  The checkers judge a TLC run by its exit code and by a few lines of its log, found with
  regular expressions in multi-line mode.  This theory models those searches: the lines of
  a log, the names of violated invariants, the progress summaries.
\<close>

section \<open>Runs\<close>

text \<open>
  What a finished TLC process leaves: its exit code, its log and, when it exists, the bytes of
  witness.raw.json.
\<close>

record tlc_run =
  tlc_returncode :: int
  tlc_text :: pstr
  tlc_witness :: "nat list option"

section \<open>Lines\<close>

text \<open>In multi-line mode \<open>^\<close> and \<open>$\<close> match at the borders of these lines.\<close>

fun tlc_lines :: "pstr \<Rightarrow> pstr list" where
  "tlc_lines [] = [[]]"
| "tlc_lines (c # cs) =
     (if c = 10 then [] # tlc_lines cs
      else (case tlc_lines cs of l # ls \<Rightarrow> (c # l) # ls | [] \<Rightarrow> [[c]]))"

lemma tlc_lines_not_Nil [simp]: "tlc_lines s \<noteq> []"
  by (cases s) (auto split: list.splits)

lemma tlc_lines_no_newline: "l \<in> set (tlc_lines s) \<Longrightarrow> 10 \<notin> set l"
  by (induction s arbitrary: l) (auto split: if_splits list.splits)

lemma tlc_lines_single: "10 \<notin> set l \<Longrightarrow> tlc_lines l = [l]"
  by (induction l) auto

lemma tlc_lines_append: "10 \<notin> set l \<Longrightarrow> tlc_lines (l @ 10 # s) = l # tlc_lines s"
  by (induction l) auto

section \<open>Matching one line\<close>

definition strip_prefix :: "pstr \<Rightarrow> pstr \<Rightarrow> pstr option" where
  "strip_prefix p s = (if take (length p) s = p then Some (drop (length p) s) else None)"

definition strip_suffix :: "pstr \<Rightarrow> pstr \<Rightarrow> pstr option" where
  "strip_suffix q s = map_option rev (strip_prefix (rev q) (rev s))"

text \<open>
  \<open>\\w\<close>: letters, digits and the underscore.  Beyond ASCII Python consults the Unicode
  tables, which \<open>uword\<close> stands for.
\<close>

definition word_char :: "(nat \<Rightarrow> bool) \<Rightarrow> nat \<Rightarrow> bool" where
  "word_char uword c \<longleftrightarrow>
     (if c < 128 then is_digit c \<or> 65 \<le> c \<and> c \<le> 90 \<or> 97 \<le> c \<and> c \<le> 122 \<or> c = 95 else uword c)"

text \<open>The line \<open>Error: Invariant (\\w+) is violated.\<close>\<close>

definition violation_line :: "(nat \<Rightarrow> bool) \<Rightarrow> pstr \<Rightarrow> pstr option" where
  "violation_line uword l = (case strip_prefix (lit ''Error: Invariant '') l of
      None \<Rightarrow> None
    | Some r \<Rightarrow> (case strip_suffix (lit '' is violated.'') r of
        None \<Rightarrow> None
      | Some name \<Rightarrow> if name \<noteq> [] \<and> list_all (word_char uword) name then Some name else None))"

definition violations :: "(nat \<Rightarrow> bool) \<Rightarrow> pstr \<Rightarrow> pstr list" where
  "violations uword t = List.map_filter (violation_line uword) (tlc_lines t)"

text \<open>
  The line \<open>([0-9]+) states generated, ([0-9]+) distinct states found, ([0-9]+) states left on
  queue.\<close>; a digit run ends where the literal text begins.
\<close>

definition digits_then :: "pstr \<Rightarrow> pstr \<Rightarrow> (pstr \<times> pstr) option" where
  "digits_then sep s =
     (let ds = takeWhile is_digit s; r = dropWhile is_digit s
      in if ds = [] then None else map_option (Pair ds) (strip_prefix sep r))"

definition summary_line :: "pstr \<Rightarrow> (pstr \<times> pstr \<times> pstr) option" where
  "summary_line l = (case digits_then (lit '' states generated, '') l of
      None \<Rightarrow> None
    | Some (a, r) \<Rightarrow> (case digits_then (lit '' distinct states found, '') r of
        None \<Rightarrow> None
      | Some (b, r') \<Rightarrow> (case digits_then (lit '' states left on queue.'') r' of
          None \<Rightarrow> None
        | Some (c, rest) \<Rightarrow> if rest = [] then Some (a, b, c) else None)))"

definition summaries :: "pstr \<Rightarrow> (pstr \<times> pstr \<times> pstr) list" where
  "summaries t = List.map_filter summary_line (tlc_lines t)"

text \<open>The search for \<open>^State 2: \<close>.\<close>

definition has_state_two :: "pstr \<Rightarrow> bool" where
  "has_state_two t \<longleftrightarrow> list_ex (\<lambda>l. strip_prefix (lit ''State 2: '') l \<noteq> None) (tlc_lines t)"

definition no_error_text :: pstr where
  "no_error_text = lit ''Model checking completed. No error has been found.''"

definition behavior_text :: pstr where
  "behavior_text = lit ''Error: The behavior up to this point is:''"

text \<open>The marker line \<open><<"NAME", n>>\<close> the models print when they reach their goal.\<close>

definition marker :: "string \<Rightarrow> nat \<Rightarrow> pstr" where
  "marker name n = lit ''<<'' @ [34] @ lit name @ [34] @ lit '', '' @ dec n @ lit ''>>''"

section \<open>What the line matchers recognise\<close>

lemma strip_prefix_eq_Some: "strip_prefix p s = Some r \<longleftrightarrow> s = p @ r"
proof
  assume "strip_prefix p s = Some r"
  then have "take (length p) s = p" and "drop (length p) s = r"
    by (auto simp: strip_prefix_def split: if_splits)
  then show "s = p @ r" by (metis append_take_drop_id)
qed (simp add: strip_prefix_def)

lemma strip_suffix_eq_Some: "strip_suffix q s = Some r \<longleftrightarrow> s = r @ q"
  by (auto simp: strip_suffix_def strip_prefix_eq_Some) (metis rev_append rev_rev_ident)

lemma violation_line_eq_Some:
  "violation_line uword l = Some name \<longleftrightarrow>
     l = lit ''Error: Invariant '' @ name @ lit '' is violated.'' \<and> name \<noteq> [] \<and> list_all (word_char uword) name"
  by (auto simp: violation_line_def strip_prefix_eq_Some strip_suffix_eq_Some split: option.splits)
     (auto simp: strip_prefix_def strip_suffix_def)

lemma digits_then_eq_Some:
  assumes "sep \<noteq> []" and "\<not> is_digit (hd sep)"
  shows "digits_then sep s = Some (ds, r) \<longleftrightarrow> s = ds @ sep @ r \<and> ds \<noteq> [] \<and> list_all is_digit ds"
proof
  assume "digits_then sep s = Some (ds, r)"
  then have "ds = takeWhile is_digit s" and "dropWhile is_digit s = sep @ r" and "ds \<noteq> []"
    by (auto simp: digits_then_def Let_def strip_prefix_eq_Some split: if_splits)
  then show "s = ds @ sep @ r \<and> ds \<noteq> [] \<and> list_all is_digit ds"
    by (metis takeWhile_dropWhile_id list_all_iff set_takeWhileD)
next
  assume s: "s = ds @ sep @ r \<and> ds \<noteq> [] \<and> list_all is_digit ds"
  have "takeWhile is_digit (sep @ r) = []" and "dropWhile is_digit (sep @ r) = sep @ r"
    using assms by (cases sep; simp)+
  then have "takeWhile is_digit s = ds" and "dropWhile is_digit s = sep @ r"
    using s by (auto simp: list_all_iff takeWhile_append2 dropWhile_append2)
  then show "digits_then sep s = Some (ds, r)"
    using s by (simp add: digits_then_def strip_prefix_def)
qed

lemma summary_line_eq_Some:
  "summary_line l = Some (a, b, c) \<longleftrightarrow>
     l = a @ lit '' states generated, '' @ b @ lit '' distinct states found, '' @ c @ lit '' states left on queue.''
     \<and> a \<noteq> [] \<and> list_all is_digit a \<and> b \<noteq> [] \<and> list_all is_digit b \<and> c \<noteq> [] \<and> list_all is_digit c"
proof -
  have sep: "lit (CHR '' '' # s) \<noteq> []" "\<not> is_digit (hd (lit (CHR '' '' # s)))" for s
    by (simp_all add: lit_def is_digit_def)
  have accept: "digits_then (lit (CHR '' '' # s)) (ds @ lit (CHR '' '' # s) @ r) = Some (ds, r)"
    if "ds \<noteq> []" "list_all is_digit ds" for s ds r
    using that digits_then_eq_Some [OF sep] by blast
  show ?thesis
  proof
    assume "summary_line l = Some (a, b, c)"
    then show "l = a @ lit '' states generated, '' @ b @ lit '' distinct states found, '' @ c @ lit '' states left on queue.''
        \<and> a \<noteq> [] \<and> list_all is_digit a \<and> b \<noteq> [] \<and> list_all is_digit b \<and> c \<noteq> [] \<and> list_all is_digit c"
      by (auto simp: summary_line_def digits_then_eq_Some [OF sep] split: option.splits prod.splits if_splits)
  next
    assume "l = a @ lit '' states generated, '' @ b @ lit '' distinct states found, '' @ c @ lit '' states left on queue.''
        \<and> a \<noteq> [] \<and> list_all is_digit a \<and> b \<noteq> [] \<and> list_all is_digit b \<and> c \<noteq> [] \<and> list_all is_digit c"
    then show "summary_line l = Some (a, b, c)"
      using accept [of c "''states left on queue.''" "[]"]
      by (simp add: summary_line_def accept)
  qed
qed

lemma last_summary:
  "summaries t \<noteq> [] \<and> last (summaries t) = (a, b, c) \<longleftrightarrow>
     (\<exists>ls l. filter (\<lambda>l. summary_line l \<noteq> None) (tlc_lines t) = ls @ [l] \<and> summary_line l = Some (a, b, c))"
proof -
  define lines where "lines = filter (\<lambda>l. summary_line l \<noteq> None) (tlc_lines t)"
  have sums: "summaries t = map (the \<circ> summary_line) lines"
    by (simp add: summaries_def List.map_filter_def lines_def)
  show ?thesis
  proof (cases lines rule: rev_cases)
    case (snoc ls l)
    then have "l \<in> set lines" by simp
    then have "summary_line l = Some (the (summary_line l))" by (auto simp: lines_def)
    with snoc show ?thesis unfolding sums lines_def [symmetric] by auto
  next
    case Nil
    then show ?thesis unfolding sums lines_def [symmetric] by simp
  qed
qed

end
