(* ===== verification/Tools_Check.thy ===== *)
theory Tools_Check
  imports Json_Bytes Tlc_Output
begin

text \<open>
  check.py: the pinned tools and the baseline checker.  Files are read from and written to an
  explicit file system; hashing, the network, the names of temporary directories and TLC are
  parameters.  The first section models the paths and files the script uses, the others follow
  the script.
\<close>

section \<open>Paths and files\<close>

text \<open>
  An absolute path is the list of its components.  \<open>base / name\<close> drops empty and \<open>.\<close> components,
  and an absolute \<open>name\<close> replaces \<open>base\<close>.  Links and \<open>..\<close> are not resolved.
\<close>

type_synonym path = "pstr list"

fun split_on :: "nat \<Rightarrow> pstr \<Rightarrow> pstr list" where
  "split_on d [] = [[]]"
| "split_on d (c # cs) =
     (if c = d then [] # split_on d cs
      else (case split_on d cs of l # ls \<Rightarrow> (c # l) # ls | [] \<Rightarrow> [[c]]))"

definition path_parts :: "pstr \<Rightarrow> path" where
  "path_parts name = filter (\<lambda>c. c \<noteq> [] \<and> c \<noteq> lit ''.'') (split_on 47 name)"

definition join_path :: "path \<Rightarrow> pstr \<Rightarrow> path" where
  "join_path base name = (if take 1 name = [47] then path_parts name else base @ path_parts name)"

definition path_str :: "path \<Rightarrow> pstr" where
  "path_str p = 47 # join [47] p"

record file_system =
  fs_files :: "(path \<times> nat list) list"
  fs_dirs :: "path list"

definition is_file :: "file_system \<Rightarrow> path \<Rightarrow> bool" where
  "is_file fs p \<longleftrightarrow> map_of (fs_files fs) p \<noteq> None"

definition is_dir :: "file_system \<Rightarrow> path \<Rightarrow> bool" where
  "is_dir fs p \<longleftrightarrow> p = [] \<or> p \<in> set (fs_dirs fs)"

definition read_bytes :: "file_system \<Rightarrow> path \<Rightarrow> nat list res" where
  "read_bytes fs p = (case map_of (fs_files fs) p of Some b \<Rightarrow> Inr b | None \<Rightarrow> Inl OSError)"

text \<open>\<open>read_text\<close>: strict UTF-8, every line end read as \<open>\\n\<close>.\<close>

fun universal_newlines :: "pstr \<Rightarrow> pstr" where
  "universal_newlines [] = []"
| "universal_newlines (c # cs) =
     (if c = 13 then 10 # (case cs of d # ds \<Rightarrow> if d = 10 then universal_newlines ds else universal_newlines cs | [] \<Rightarrow> [])
      else c # universal_newlines cs)"

definition text_of :: "nat list \<Rightarrow> pstr res" where
  "text_of b = bindE (decode_utf8 b) (\<lambda>s.
     if list_ex is_surrogate s then Inl (ValueError ''UnicodeDecodeError'') else Inr (universal_newlines s))"

definition read_text :: "file_system \<Rightarrow> path \<Rightarrow> pstr res" where
  "read_text fs p = bindE (read_bytes fs p) text_of"

text \<open>\<open>mkdir(parents=True, exist_ok=True)\<close>.\<close>

definition mkdir_parents :: "path \<Rightarrow> file_system \<Rightarrow> file_system res" where
  "mkdir_parents p fs =
     (let prefixes = map (\<lambda>n. take n p) [0..<Suc (length p)] in
      if list_ex (is_file fs) prefixes then Inl OSError
      else Inr (fs\<lparr>fs_dirs := prefixes @ fs_dirs fs\<rparr>))"

text \<open>Opening for writing and filling a file; a name the system cannot encode is a \<open>ValueError\<close>.\<close>

definition os_char :: "nat \<Rightarrow> bool" where
  "os_char c \<longleftrightarrow> c \<noteq> 0 \<and> (is_surrogate c \<longrightarrow> 0xDC80 \<le> c \<and> c \<le> 0xDCFF)"

definition put_file :: "path \<Rightarrow> nat list \<Rightarrow> file_system \<Rightarrow> file_system" where
  "put_file p b fs = fs\<lparr>fs_files := (p, b) # filter (\<lambda>(q, _). q \<noteq> p) (fs_files fs)\<rparr>"

definition write_file :: "path \<Rightarrow> nat list \<Rightarrow> file_system \<Rightarrow> file_system res" where
  "write_file p b fs =
     (if \<not> list_all (list_all os_char) p then Inl (ValueError ''embedded null byte or unencodable name'')
      else if is_dir fs p \<or> \<not> is_dir fs (butlast p) then Inl OSError
      else Inr (put_file p b fs))"

text \<open>\<open>Path.replace\<close>.\<close>

definition replace_file :: "path \<Rightarrow> path \<Rightarrow> file_system \<Rightarrow> file_system res" where
  "replace_file p q fs = (case map_of (fs_files fs) p of
      None \<Rightarrow> Inl OSError
    | Some b \<Rightarrow>
        if is_dir fs q \<or> \<not> is_dir fs (butlast q) then Inl OSError
        else if p = q then Inr fs
        else Inr (put_file q b (fs\<lparr>fs_files := filter (\<lambda>(r, _). r \<noteq> p) (fs_files fs)\<rparr>)))"

definition below :: "path \<Rightarrow> path \<Rightarrow> bool" where
  "below d p \<longleftrightarrow> take (length d) p = d"

definition remove_tree :: "path \<Rightarrow> file_system \<Rightarrow> file_system" where
  "remove_tree d fs = fs\<lparr>fs_files := filter (\<lambda>(p, _). \<not> below d p) (fs_files fs),
     fs_dirs := filter (\<lambda>p. \<not> below d p) (fs_dirs fs)\<rparr>"

section \<open>The outside world\<close>

text \<open>
  The directory of the script, SHA-256 in hexadecimal, the text of a float, the body of a URL, and
  the name of a new temporary directory in a given directory.
\<close>

record outside =
  root :: path
  sha256 :: "nat list \<Rightarrow> pstr"
  float_repr :: "pstr \<Rightarrow> pstr"
  fetch :: "pyval \<Rightarrow> nat list res"
  temp_name :: "file_system \<Rightarrow> path \<Rightarrow> pstr"

definition UPSTREAM :: "outside \<Rightarrow> path" where
  "UPSTREAM w = root w @ [lit ''upstream'', lit ''etcd'']"

definition CACHE :: "outside \<Rightarrow> path" where
  "CACHE w = butlast (root w) @ [lit ''.cache'', lit ''tla'']"

definition digest :: "outside \<Rightarrow> file_system \<Rightarrow> path \<Rightarrow> pstr res" where
  "digest w fs p = bindE (read_bytes fs p) (\<lambda>b. Inr (sha256 w b))"

definition dict_items :: "pyval \<Rightarrow> (pstr \<times> pyval) list res" where
  "dict_items v = (case v of PDict kvs \<Rightarrow> Inr kvs | _ \<Rightarrow> Inl AttributeError)"

section \<open>verify\_upstream, tools and classpath\<close>

definition verify_file :: "outside \<Rightarrow> file_system \<Rightarrow> pstr \<times> pyval \<Rightarrow> unit res" where
  "verify_file w fs kv = (case kv of (name, expected) \<Rightarrow>
     let path = join_path (UPSTREAM w) name in
     if \<not> is_file fs path then Inl (RuntimeError ''Upstream file missing or changed'')
     else bindE (digest w fs path) (\<lambda>d.
       if PStr d \<noteq> expected then Inl (RuntimeError ''Upstream file missing or changed'') else Inr ()))"

definition verify_upstream :: "outside \<Rightarrow> file_system \<Rightarrow> unit res" where
  "verify_upstream w fs =
     bindE (bindE (read_text fs (UPSTREAM w @ [lit ''manifest.json''])) (json_loads_text (float_repr w))) (\<lambda>manifest.
     bindE (bindE (getitem manifest ''files'') dict_items) (\<lambda>listed.
     bindE (mapE (verify_file w fs) listed) (\<lambda>_.
     bindE (getitem manifest ''revision'') (\<lambda>_. Inr ()))))"

definition tools :: "outside \<Rightarrow> file_system \<Rightarrow> pyval res" where
  "tools w fs = bindE (read_text fs (root w @ [lit ''tools.lock.json''])) (json_loads_text (float_repr w))"

definition classpath_entry :: "outside \<Rightarrow> file_system \<Rightarrow> pstr \<times> pyval \<Rightarrow> pstr res" where
  "classpath_entry w fs kv = (case kv of (name, artifact) \<Rightarrow>
     let path = join_path (CACHE w) name in
     if \<not> is_file fs path then Inl (RuntimeError ''Missing or changed; run mise run prepare-tla'')
     else bindE (digest w fs path) (\<lambda>d.
       bindE (getitem artifact ''sha256'') (\<lambda>sha.
       if PStr d \<noteq> sha then Inl (RuntimeError ''Missing or changed; run mise run prepare-tla'')
       else Inr (path_str path))))"

definition classpath :: "outside \<Rightarrow> file_system \<Rightarrow> pstr res" where
  "classpath w fs =
     bindE (bindE (tools w fs) dict_items) (\<lambda>artifacts.
     bindE (mapE (classpath_entry w fs) artifacts) (\<lambda>paths. Inr (join [58] paths)))"

section \<open>prepare\<close>

text \<open>
  A call that changes files returns its result with the file system it leaves, also when it
  raises.  The temporary directory is removed either way.
\<close>

definition up_to_date :: "outside \<Rightarrow> file_system \<Rightarrow> path \<Rightarrow> pyval \<Rightarrow> bool res" where
  "up_to_date w fs target artifact =
     (if is_file fs target then
        bindE (digest w fs target) (\<lambda>d. bindE (getitem artifact ''sha256'') (\<lambda>sha. Inr (PStr d = sha)))
      else Inr False)"

definition download_artifact :: "outside \<Rightarrow> path \<Rightarrow> pstr \<Rightarrow> path \<Rightarrow> pyval \<Rightarrow> pyval \<Rightarrow> file_system \<Rightarrow> unit res \<times> file_system" where
  "download_artifact w temporary name target artifact url fs =
     (let download = join_path temporary name in
      case bindE (fetch w url) (\<lambda>body. write_file download body fs) of
        Inl e \<Rightarrow> (Inl e, fs)
      | Inr fs1 \<Rightarrow>
          (case bindE (digest w fs1 download) (\<lambda>d. bindE (getitem artifact ''sha256'') (\<lambda>sha.
               if PStr d \<noteq> sha then Inl (RuntimeError ''Checksum mismatch'') else replace_file download target fs1)) of
             Inl e \<Rightarrow> (Inl e, fs1)
           | Inr fs2 \<Rightarrow> (Inr (), fs2)))"

definition prepare_artifact :: "outside \<Rightarrow> pstr \<times> pyval \<Rightarrow> file_system \<Rightarrow> unit res \<times> file_system" where
  "prepare_artifact w kv fs = (case kv of (name, artifact) \<Rightarrow>
     let target = join_path (CACHE w) name in
     case up_to_date w fs target artifact of
       Inl e \<Rightarrow> (Inl e, fs)
     | Inr True \<Rightarrow> (Inr (), fs)
     | Inr False \<Rightarrow>
         (case getitem artifact ''url'' of
            Inl e \<Rightarrow> (Inl e, fs)
          | Inr url \<Rightarrow>
              let temporary = CACHE w @ [temp_name w fs (CACHE w)] in
              case download_artifact w temporary name target artifact url (fs\<lparr>fs_dirs := temporary # fs_dirs fs\<rparr>) of
                (r, fs1) \<Rightarrow> (r, remove_tree temporary fs1)))"

fun prepare_all :: "outside \<Rightarrow> (pstr \<times> pyval) list \<Rightarrow> file_system \<Rightarrow> unit res \<times> file_system" where
  "prepare_all w [] fs = (Inr (), fs)"
| "prepare_all w (kv # rest) fs = (case prepare_artifact w kv fs of
      (Inl e, fs') \<Rightarrow> (Inl e, fs')
    | (Inr _, fs') \<Rightarrow> prepare_all w rest fs')"

definition prepare :: "outside \<Rightarrow> file_system \<Rightarrow> unit res \<times> file_system" where
  "prepare w fs = (case mkdir_parents (CACHE w) fs of
      Inl e \<Rightarrow> (Inl e, fs)
    | Inr fs' \<Rightarrow> (case bindE (tools w fs') dict_items of
        Inl e \<Rightarrow> (Inl e, fs')
      | Inr artifacts \<Rightarrow> prepare_all w artifacts fs'))"

section \<open>check\<close>

text \<open>The file name of the configuration and the extra options of a profile.\<close>

definition profiles :: "(string \<times> string \<times> string list) list" where
  "profiles = [(''single'', ''SingleNode.cfg'', []),
     (''smoke'', ''ThreeNode.cfg'', [''-simulate'', ''num=100'', ''-depth'', ''100'', ''-seed'', ''20260912'']),
     (''model'', ''ThreeNode.cfg'', [])]"

definition ends_with :: "pstr \<Rightarrow> pstr \<Rightarrow> bool" where
  "ends_with q s \<longleftrightarrow> strip_suffix q s \<noteq> None"

text \<open>\<open>(UPSTREAM / "tla").glob("*.tla")\<close>, and the files copied into the run directory.\<close>

definition tla_entry :: "outside \<Rightarrow> path \<Rightarrow> bool" where
  "tla_entry w p \<longleftrightarrow> p \<noteq> [] \<and> butlast p = UPSTREAM w @ [lit ''tla''] \<and> ends_with (lit ''.tla'') (last p)"

definition copied_files :: "outside \<Rightarrow> file_system \<Rightarrow> string \<Rightarrow> (pstr \<times> nat list) list res" where
  "copied_files w fs config =
     (if list_ex (tla_entry w) (fs_dirs fs) then Inl OSError
      else
        bindE (read_bytes fs (root w @ [lit ''models'', lit ''RaftzMC.tla''])) (\<lambda>model.
        bindE (read_bytes fs (root w @ [lit ''models'', lit config])) (\<lambda>cfg.
        Inr ([(lit config, cfg), (lit ''RaftzMC.tla'', model)]
          @ map (\<lambda>(p, b). (last p, b)) (filter (\<lambda>(p, _). tla_entry w p) (fs_files fs))))))"

definition tlc_command :: "pstr \<Rightarrow> path \<Rightarrow> string \<Rightarrow> string list \<Rightarrow> string \<Rightarrow> pstr list" where
  "tlc_command cp run config extra model =
     [lit ''java'', lit ''-Xmx2g'', lit ''-XX:+UseParallelGC'', lit ''-cp'', cp, lit ''tlc2.TLC'',
      lit ''-workers'', lit ''1'', lit ''-metadir'', path_str (run @ [lit ''states'']),
      lit ''-config'', lit config] @ map lit extra @ [lit model]"

text \<open>The verdict on a finished baseline run.\<close>

definition conclude_check :: "bool \<Rightarrow> tlc_run \<Rightarrow> unit res" where
  "conclude_check simulation run =
     (if tlc_returncode run \<noteq> 0 then Inl (RuntimeError ''TLC failed'')
      else if simulation then
        (if \<not> contains (lit ''100 traces generated'') (tlc_text run) \<or> \<not> contains (lit ''Simulation using seed'') (tlc_text run)
         then Inl (RuntimeError ''TLC did not report completed simulation'') else Inr ())
      else if \<not> contains no_error_text (tlc_text run)
      then Inl (RuntimeError ''TLC did not report completed model checking'') else Inr ())"

text \<open>
  TLC runs a command in a directory with the given files, under a time limit; \<open>None\<close> when it
  exceeds it.  The run directory is new and holds only the artifacts of the run.
\<close>

type_synonym tlc_process = "pstr list \<Rightarrow> (pstr \<times> nat list) list \<Rightarrow> int \<Rightarrow> tlc_run option"

definition run_directory :: "outside \<Rightarrow> file_system \<Rightarrow> string \<Rightarrow> path" where
  "run_directory w fs prefix =
     (let runs = CACHE w @ [lit ''runs''] in runs @ [lit prefix @ temp_name w fs runs])"

definition check :: "outside \<Rightarrow> tlc_process \<Rightarrow> file_system \<Rightarrow> string \<Rightarrow> int \<Rightarrow> unit res" where
  "check w tlc fs profile timeout =
     bindE (classpath w fs) (\<lambda>cp.
     case map_of profiles profile of
       None \<Rightarrow> Inl (KeyError profile)
     | Some (config, extra) \<Rightarrow>
         bindE (copied_files w fs config) (\<lambda>inputs.
         case tlc (tlc_command cp (run_directory w fs (profile @ ''-'')) config extra ''RaftzMC.tla'') inputs timeout of
           None \<Rightarrow> Inl (RuntimeError ''TLC timed out, NOT a pass'')
         | Some run \<Rightarrow> conclude_check (extra \<noteq> []) run))"

section \<open>The command line\<close>

definition actions :: "string list" where
  "actions = [''verify'', ''prepare'', ''smoke'', ''single'', ''model'']"

definition main :: "outside \<Rightarrow> tlc_process \<Rightarrow> string \<Rightarrow> int \<Rightarrow> file_system \<Rightarrow> unit res \<times> file_system" where
  "main w tlc action timeout fs = (case verify_upstream w fs of
      Inl e \<Rightarrow> (Inl e, fs)
    | Inr _ \<Rightarrow>
        if action = ''prepare'' then prepare w fs
        else if action \<noteq> ''verify'' then
          (bindE (if action = ''smoke'' then check w tlc fs ''single'' timeout else Inr ()) (\<lambda>_.
             check w tlc fs action timeout), fs)
        else (Inr (), fs))"

text \<open>
  The exit status: 2 for arguments the parser refuses, 1 for any exception (reported as an error
  message for \<open>OSError\<close> and \<open>RuntimeError\<close>, as a traceback otherwise).
\<close>

definition exit_status :: "outside \<Rightarrow> tlc_process \<Rightarrow> string \<Rightarrow> int \<Rightarrow> file_system \<Rightarrow> int" where
  "exit_status w tlc action timeout fs =
     (if action \<notin> set actions \<or> timeout \<le> 0 then 2
      else (case fst (main w tlc action timeout fs) of Inr _ \<Rightarrow> 0 | Inl _ \<Rightarrow> 1))"

end
