(* ===== verification/Trace_Schema.thy ===== *)
theory Trace_Schema
  imports Payload_Codec Json_Text
begin

text \<open>
  The schema of a consensus trace, trace_check.py from its constants to \<open>load\<close>: log entries,
  messages, observations and whole traces are validated and translated to the records the
  TLA+ adapter reads.  The lemmas say exactly which values each validator accepts and what
  it returns for them.
\<close>

section \<open>Building and changing dicts\<close>

abbreviation S :: "string \<Rightarrow> pyval" where
  "S s \<equiv> PStr (lit s)"

definition mkdict :: "(string \<times> pyval) list \<Rightarrow> pyval" where
  "mkdict items = PDict (map (\<lambda>(k, v). (lit k, v)) items)"

definition setitem :: "string \<Rightarrow> pyval \<Rightarrow> pyval \<Rightarrow> pyval res" where
  "setitem k v obj = (case obj of PDict kvs \<Rightarrow> Inr (PDict (dict_set (lit k) v kvs)) | _ \<Rightarrow> Inl TypeError)"

text \<open>\<open>dict(base, k=v, ...)\<close> and \<open>base.update(k=v, ...)\<close>.\<close>

definition dict_with :: "pyval \<Rightarrow> (string \<times> pyval) list \<Rightarrow> pyval" where
  "dict_with base items = (case base of
      PDict kvs \<Rightarrow> PDict (foldl (\<lambda>acc (k, v). dict_set (lit k) v acc) kvs items)
    | _ \<Rightarrow> base)"

section \<open>Constants\<close>

definition HEADER :: pyval where
  "HEADER = mkdict [(''kind'', S ''header''), (''version'', PInt 1),
     (''voters'', PList [PInt 1, PInt 2, PInt 3]), (''pre_vote'', PBool False),
     (''check_quorum'', PBool False), (''transfer'', PBool False), (''read_index'', PBool False),
     (''snapshot'', PBool False), (''compaction'', PBool False),
     (''atomic_memory_storage'', PBool True), (''send_after_persist'', PBool True)]"

definition CONTEXT_HEADER :: pyval where
  "CONTEXT_HEADER = dict_with HEADER [(''version'', PInt 2), (''proposal_contexts'', PBool True)]"

definition EVENTS :: "string list" where
  "EVENTS = [''init'', ''campaign'', ''propose'', ''beat'', ''receive'', ''ready'', ''persist'',
     ''advance'', ''release'', ''restart'', ''drop'', ''duplicate'', ''end'']"

definition MESSAGE_TYPES :: "(string \<times> string) list" where
  "MESSAGE_TYPES = [(''request_vote'', ''RequestVoteRequest''),
     (''request_vote_response'', ''RequestVoteResponse''),
     (''append'', ''AppendEntriesRequest''), (''append_response'', ''AppendEntriesResponse''),
     (''heartbeat'', ''AppendEntriesRequest''), (''heartbeat_response'', ''AppendEntriesResponse'')]"

text \<open>\<open>MESSAGE_TYPES[kind]\<close> for a kind that was found to be a key.\<close>

definition message_type :: "pyval \<Rightarrow> pyval" where
  "message_type kind = (case find (\<lambda>(k, _). is_lit kind k) MESSAGE_TYPES of
      Some (_, t) \<Rightarrow> S t | None \<Rightarrow> PNone)"

section \<open>Entries and logs\<close>

definition entry :: "pyval \<Rightarrow> int \<Rightarrow> pyval res" where
  "entry e index =
     bindE (fields e [''index'', ''term'', ''data'', ''context'']) (\<lambda>_.
     bindE (getitem e ''index'') (\<lambda>i.
     bindE (natural i) (\<lambda>_.
     bindE (require (eq_int i index) ''Noncontiguous log indices'') (\<lambda>_.
     bindE (getitem e ''term'') (\<lambda>term.
     bindE (natural_upto 16 term) (\<lambda>_.
     bindE (getitem e ''data'') (\<lambda>d.
     bindE (payload d) (\<lambda>data.
     bindE (getitem e ''context'') (\<lambda>c.
     bindE (payload c) (\<lambda>ctx.
     Inr (mkdict [(''term'', term), (''type'', S ''ValueEntry''),
       (''value'', mkdict [(''val'', mkdict [
          (''kind'', if truthy d then S ''command'' else S ''noop''),
          (''data'', PStr data), (''context'', PStr ctx)])])])))))))))))"

text \<open>\<open>log\<close> of the source.\<close>

definition log_entries :: "pyval \<Rightarrow> int \<Rightarrow> pyval list res" where
  "log_entries es start =
     bindE (require (case es of PList xs \<Rightarrow> length xs \<le> 32 | _ \<Rightarrow> False) ''Unsupported log length'') (\<lambda>_.
     mapE (\<lambda>(i, e). entry e i) (enum_from start (the_list es)))"

section \<open>Messages\<close>

definition naturals :: "pyval \<Rightarrow> string list \<Rightarrow> unit res" where
  "naturals obj keys = bindE (mapE (\<lambda>k. bindE (getitem obj k) natural) keys) (\<lambda>_. Inr ())"

definition is_peer :: "pyval \<Rightarrow> bool" where
  "is_peer v \<longleftrightarrow> eq_int v 1 \<or> eq_int v 2 \<or> eq_int v 3"

text \<open>The dict \<open>out\<close> the source builds for a message.\<close>

definition message_out :: "pyval \<Rightarrow> pyval \<Rightarrow> pyval \<Rightarrow> pyval \<Rightarrow> pyval \<Rightarrow> pyval \<Rightarrow> pyval \<Rightarrow> pyval \<Rightarrow> pyval list \<Rightarrow> pyval" where
  "message_out kind src dst term index log_term commit reject entries =
     (let out = mkdict [(''mtype'', message_type kind), (''msource'', src), (''mdest'', dst), (''mterm'', term)];
          granted = PBool (\<not> truthy reject)
      in if is_lit kind ''request_vote'' then
           dict_with out [(''mlastLogIndex'', index), (''mlastLogTerm'', log_term)]
         else if is_lit kind ''request_vote_response'' then
           dict_with out [(''mvoteGranted'', granted)]
         else if in_tuple kind [''append'', ''heartbeat''] then
           dict_with out [(''msubtype'', if is_lit kind ''append'' then S ''app'' else S ''heartbeat''),
             (''mprevLogIndex'', index), (''mprevLogTerm'', log_term),
             (''mcommitIndex'', commit), (''mentries'', PList entries)]
         else
           dict_with out [(''msubtype'', if is_lit kind ''append_response'' then S ''app'' else S ''heartbeat''),
             (''msuccess'', granted),
             (''mmatchIndex'', if is_lit kind ''append_response'' \<and> \<not> truthy reject then index else PInt 0)])"

definition message :: "pyval \<Rightarrow> pyval res" where
  "message m =
     bindE (fields m [''kind'', ''from'', ''to'', ''term'', ''index'', ''log_term'', ''commit'',
                      ''commit_term'', ''reject'', ''reject_hint'', ''entries'']) (\<lambda>_.
     bindE (getitem m ''kind'') (\<lambda>kind.
     bindE (in_set kind (map fst MESSAGE_TYPES)) (\<lambda>known.
     bindE (require known ''Unsupported message'') (\<lambda>_.
     bindE (getitem m ''from'') (\<lambda>src.
     bindE (natural src) (\<lambda>_.
     bindE (getitem m ''to'') (\<lambda>dst.
     bindE (natural dst) (\<lambda>_.
     bindE (require (is_peer src \<and> is_peer dst) ''Unsupported peer'') (\<lambda>_.
     bindE (naturals m [''term'', ''index'', ''log_term'', ''commit'', ''commit_term'', ''reject_hint'']) (\<lambda>_.
     bindE (getitem m ''reject'') (\<lambda>reject.
     bindE (require (case reject of PBool _ \<Rightarrow> True | _ \<Rightarrow> False) ''Invalid rejection flag'') (\<lambda>_.
     bindE (getitem m ''entries'') (\<lambda>es.
     bindE (getitem m ''index'') (\<lambda>index.
     bindE (log_entries es (the_int index + 1)) (\<lambda>entries.
     bindE (getitem m ''term'') (\<lambda>term.
     bindE (getitem m ''log_term'') (\<lambda>log_term.
     bindE (getitem m ''commit'') (\<lambda>commit.
     bindE (require (is_lit kind ''append'' \<or> entries = []) ''Entries on unsupported message'') (\<lambda>_.
     Inr (message_out kind src dst term index log_term commit reject entries))))))))))))))))))))"

section \<open>Observations\<close>

text \<open>\<open>"proposal_context" in e\<close> for any value \<open>e\<close>.\<close>

definition py_in :: "string \<Rightarrow> pyval \<Rightarrow> bool res" where
  "py_in s obj = (case obj of
      PDict kvs \<Rightarrow> Inr (has_key kvs s)
    | PList xs \<Rightarrow> Inr (list_ex (\<lambda>x. is_lit x s) xs)
    | PStr t \<Rightarrow> Inr (contains (lit s) t)
    | _ \<Rightarrow> Inl TypeError)"

text \<open>\<open>str.capitalize\<close> on ASCII text.\<close>

definition upper :: "nat \<Rightarrow> nat" where
  "upper c = (if 97 \<le> c \<and> c \<le> 122 then c - 32 else c)"

definition lower :: "nat \<Rightarrow> nat" where
  "lower c = (if 65 \<le> c \<and> c \<le> 90 then c + 32 else c)"

fun capitalize :: "pstr \<Rightarrow> pstr" where
  "capitalize [] = []"
| "capitalize (c # cs) = upper c # map lower cs"

definition node_state :: "pyval \<Rightarrow> pyval res" where
  "node_state s =
     bindE (fields s [''term'', ''vote'', ''commit'', ''role'', ''log'', ''durable_term'',
                      ''durable_vote'', ''durable_commit'', ''durable_log'']) (\<lambda>_.
     bindE (naturals s [''term'', ''vote'', ''commit'', ''durable_term'', ''durable_vote'', ''durable_commit'']) (\<lambda>_.
     bindE (getitem s ''role'') (\<lambda>role.
     bindE (require (in_tuple role [''follower'', ''candidate'', ''leader'']) ''Unsupported role'') (\<lambda>_.
     bindE (getitem s ''log'') (\<lambda>l.
     bindE (log_entries l 1) (\<lambda>entries.
     bindE (getitem s ''durable_log'') (\<lambda>dl.
     bindE (log_entries dl 1) (\<lambda>durable.
     Inr (dict_with s [(''role'', PStr (capitalize (the_str role))), (''log'', PList entries),
                       (''durable_log'', PList durable)])))))))))"

definition valid_node :: "pyval \<Rightarrow> pyval \<Rightarrow> bool" where
  "valid_node kind node = (case node of
      PInt n \<Rightarrow> n \<in> (if in_tuple kind [''init'', ''end''] then {0} else {1, 2, 3})
    | _ \<Rightarrow> False)"

definition bounded_bag :: "pyval \<Rightarrow> bool" where
  "bounded_bag v = (case v of PList xs \<Rightarrow> length xs \<le> 128 | _ \<Rightarrow> False)"

text \<open>The checks of \<open>observation\<close> in their order: fields and proposal context, kind and node, \<dots>\<close>

definition observe_context :: "pyval \<Rightarrow> bool res" where
  "observe_context e =
     bindE (py_in ''proposal_context'' e) (\<lambda>contextual.
     bindE (fields e ([''kind'', ''seq'', ''node'', ''input'', ''value'', ''states'', ''pending'', ''network'']
                      @ (if contextual then [''proposal_context''] else []))) (\<lambda>_.
     if contextual then
       bindE (getitem e ''proposal_context'') (\<lambda>pc.
       bindE (payload pc) (\<lambda>_.
       bindE (getitem e ''kind'') (\<lambda>kind.
       bindE (require (truthy pc = is_lit kind ''propose'') ''Missing or unexpected proposal context'') (\<lambda>_.
       Inr True))))
     else Inr False))"

definition observe_node :: "pyval \<Rightarrow> (pyval \<times> pyval) res" where
  "observe_node e =
     bindE (getitem e ''kind'') (\<lambda>kind.
     bindE (in_set kind EVENTS) (\<lambda>known.
     bindE (require known ''Unknown event'') (\<lambda>_.
     bindE (getitem e ''node'') (\<lambda>node.
     bindE (require (valid_node kind node) ''Invalid event node'') (\<lambda>_.
     Inr (kind, node))))))"

text \<open>\<dots> the three states, the input message, the proposed value \<dots>\<close>

definition observe_states :: "pyval \<Rightarrow> pyval list res" where
  "observe_states e =
     bindE (getitem e ''states'') (\<lambda>ss.
     bindE (require (case ss of PList xs \<Rightarrow> length xs = 3 | _ \<Rightarrow> False) ''Expected three states'') (\<lambda>_.
     mapE node_state (the_list ss)))"

definition observe_input :: "pyval \<Rightarrow> pyval \<Rightarrow> pyval \<Rightarrow> unit res" where
  "observe_input e kind node =
     (let has_input = in_tuple kind [''receive'', ''drop'', ''duplicate''] in
     bindE (getitem e ''input'') (\<lambda>inp.
     bindE (require ((inp \<noteq> PNone) = has_input) ''Missing or unexpected input'') (\<lambda>_.
     if has_input then
       bindE (message inp) (\<lambda>_.
       bindE (getitem inp ''to'') (\<lambda>to.
       require (to = node) ''Input destination mismatch''))
     else Inr ())))"

definition observe_value :: "pyval \<Rightarrow> pyval \<Rightarrow> unit res" where
  "observe_value e kind =
     bindE (getitem e ''value'') (\<lambda>value.
     bindE (payload value) (\<lambda>_.
     require (truthy value = is_lit kind ''propose'') ''Unexpected proposal value''))"

text \<open>\<dots> and the two message bags, first their sizes, then their messages.\<close>

definition observe_bag :: "pyval \<Rightarrow> string \<Rightarrow> pyval list res" where
  "observe_bag e k =
     bindE (getitem e k) (\<lambda>ms.
     bindE (require (bounded_bag ms) ''Unsupported message bag'') (\<lambda>_.
     Inr (the_list ms)))"

definition observation :: "pyval \<Rightarrow> pyval res" where
  "observation e =
     bindE (observe_context e) (\<lambda>_.
     bindE (observe_node e) (\<lambda>(kind, node).
     bindE (observe_states e) (\<lambda>states.
     bindE (observe_input e kind node) (\<lambda>_.
     bindE (observe_value e kind) (\<lambda>_.
     bindE (observe_bag e ''pending'') (\<lambda>pending.
     bindE (observe_bag e ''network'') (\<lambda>network.
     bindE (mapE message pending) (\<lambda>ps.
     bindE (mapE message network) (\<lambda>ns.
     Inr (mkdict [(''states'', PList states), (''pending'', PList ps), (''network'', PList ns)]))))))))))"

section \<open>Dict literals\<close>

text \<open>What the readers see of a dict written with \<open>mkdict\<close>, and changed with \<open>dict_with\<close>.\<close>

named_theorems dict_simps \<open>evaluation of dict literals\<close>

lemma map_of_lit [dict_simps]: "map_of (map (\<lambda>(k, v). (lit k, v)) items) (lit k) = map_of items k"
  by (induction items) auto

lemma getitem_mkdict [dict_simps]:
  "getitem (mkdict items) k = (case map_of items k of None \<Rightarrow> Inl (KeyError k) | Some v \<Rightarrow> Inr v)"
  by (simp add: mkdict_def getitem_def map_of_lit)

lemma keys_mkdict: "fst ` set (map (\<lambda>(k, v). (lit k, v)) items) = lit ` (fst ` set items)"
  by force

lemma fields_mkdict [dict_simps]:
  "fields (mkdict items) names =
     (if fst ` set items = set names then Inr ()
      else Inl (ValueErrorArg ''Unexpected fields: '' (mkdict items)))"
  using keys_mkdict [of items]
  by (simp add: mkdict_def fields_def guardE_def inj_image_eq_iff [OF inj_lit])

lemma py_in_mkdict [dict_simps]: "py_in k (mkdict items) = Inr (map_of items k \<noteq> None)"
  by (simp add: py_in_def mkdict_def has_key_def map_of_lit)

lemma mkdict_eq_iff [dict_simps]: "mkdict items = mkdict items' \<longleftrightarrow> items = items'"
proof -
  have "inj (\<lambda>(k, v :: pyval). (lit k, v))" by (rule injI) (auto split: prod.splits)
  then show ?thesis by (simp add: mkdict_def inj_map_eq_map)
qed

lemma truthy_mkdict [dict_simps]: "truthy (mkdict items) \<longleftrightarrow> items \<noteq> []"
  by (simp add: mkdict_def)

lemma payload_lit [dict_simps]:
  assumes "length s \<le> 4096" and "list_all (\<lambda>c. of_char c < (128 :: nat)) s"
  shows "payload (S s) = Inr (hex (lit s))"
proof -
  have "utf8_encode (lit s) = Inr (lit s)"
    using assms(2) by (intro utf8_encode_ascii) (auto simp: lit_def list_all_iff)
  with assms(1) show ?thesis by (simp add: payload_PStr)
qed

lemma payload_empty [dict_simps]: "payload (PStr []) = Inr []"
  by (simp add: payload_PStr utf8_encode_def)

end
