(* ===== verification/Trace_Check.thy ===== *)
theory Trace_Check
  imports Trace_Schema Tlc_Output
begin

text \<open>
  trace_check.py above the schema: reading a whole trace (\<open>load\<close>), writing one
  (\<open>write_events\<close>), translating it to instructions of the TLA+ adapter
  (\<open>instructions\<close>), the model configuration and the judgement of a TLC log
  (\<open>completed\<close>).
\<close>

section \<open>load\<close>

text \<open>\<open>bytes.splitlines\<close>: a line ends at \<open>\\n\<close>, \<open>\\r\<close> or \<open>\\r\\n\<close>; a last empty line is dropped.\<close>

fun splitlines_from :: "nat list \<Rightarrow> nat list \<Rightarrow> nat list list" where
  "splitlines_from acc [] = (if acc = [] then [] else [rev acc])"
| "splitlines_from acc (b # bs) =
     (if b = 10 then rev acc # splitlines_from [] bs
      else if b = 13 then (case bs of
          [] \<Rightarrow> [rev acc]
        | c # cs \<Rightarrow> rev acc # (if c = 10 then splitlines_from [] cs else splitlines_from [] bs))
      else splitlines_from (b # acc) bs)"

definition splitlines :: "nat list \<Rightarrow> nat list list" where
  "splitlines data = splitlines_from [] data"

text \<open>\<open>e.get("seq")\<close>: only a \<open>dict\<close> has the method.\<close>

definition dict_get :: "pyval \<Rightarrow> string \<Rightarrow> pyval \<Rightarrow> pyval res" where
  "dict_get obj k dflt = (case obj of
      PDict kvs \<Rightarrow> Inr (case map_of kvs (lit k) of None \<Rightarrow> dflt | Some v \<Rightarrow> v)
    | _ \<Rightarrow> Inl AttributeError)"

definition terminal_row :: "nat \<Rightarrow> pyval" where
  "terminal_row n = mkdict [(''kind'', S ''terminal''), (''events'', PInt (int n))]"

definition kind_is :: "string \<Rightarrow> pyval \<Rightarrow> bool res" where
  "kind_is s e = bindE (getitem e ''kind'') (\<lambda>k. Inr (is_lit k s))"

text \<open>\<open>any(e["kind"] == s for e in events)\<close>, which stops at the first match.\<close>

fun any_kind :: "string \<Rightarrow> pyval list \<Rightarrow> bool res" where
  "any_kind s [] = Inr False"
| "any_kind s (e # es) = bindE (kind_is s e) (\<lambda>b. if b then Inr True else any_kind s es)"

definition andE :: "bool res \<Rightarrow> bool res \<Rightarrow> bool res" where
  "andE a b = bindE a (\<lambda>x. if x then b else Inr False)"

definition load_event :: "bool \<Rightarrow> nat \<Rightarrow> int \<times> pyval \<Rightarrow> unit res" where
  "load_event contextual n ie = (case ie of (i, e) \<Rightarrow>
     bindE (dict_get e ''seq'' PNone) (\<lambda>seq.
     bindE (require (seq = PInt i) ''Missing or reordered sequence number'') (\<lambda>_.
     bindE (kind_is ''init'' e) (\<lambda>is_init.
     bindE (require (is_init = (i = 0)) ''Unexpected init'') (\<lambda>_.
     bindE (kind_is ''end'' e) (\<lambda>is_end.
     bindE (require (is_end = (i = int n - 1)) ''Unexpected end'') (\<lambda>_.
     bindE (py_in ''proposal_context'' e) (\<lambda>has.
     bindE (require (has = contextual) ''Proposal context profile mismatch'') (\<lambda>_.
     bindE (observation e) (\<lambda>_. Inr ()))))))))))"

text \<open>\<open>load\<close> after the lines have been parsed.\<close>

definition load_rows :: "pyval list \<Rightarrow> pyval list res" where
  "load_rows rows =
     bindE (require (4 \<le> length rows \<and> length rows \<le> 1002) ''Unsupported event count'') (\<lambda>_.
     let contextual = (key (hd rows) = key CONTEXT_HEADER) in
     bindE (require (contextual \<or> key (hd rows) = key HEADER) ''Unsupported or missing trace header'') (\<lambda>_.
     bindE (Py_Values.fields (last rows) [''kind'', ''events'']) (\<lambda>_.
     bindE (require (key (last rows) = key (terminal_row (length rows - 2)))
              ''Missing or inconsistent terminal marker'') (\<lambda>_.
     let events = butlast (tl rows) in
     bindE (andE (kind_is ''init'' (hd events)) (kind_is ''end'' (last events))) (\<lambda>ends.
     bindE (require ends ''Missing init/end observation'') (\<lambda>_.
     bindE (mapE (load_event contextual (length events)) (enum_from 0 events)) (\<lambda>_.
     bindE (andE (any_kind ''campaign'' events) (any_kind ''propose'' events)) (\<lambda>live.
     bindE (require live ''Vacuous trace'') (\<lambda>_.
     Inr events)))))))))"

text \<open>
  The whole of \<open>load\<close> on the bytes of the file; \<open>loads\<close> stands for
  \<open>json.loads(line, object_pairs_hook=unique_object)\<close>.
\<close>

definition load :: "(nat list \<Rightarrow> pyval res) \<Rightarrow> nat list \<Rightarrow> pyval list res" where
  "load loads data =
     bindE (require (0 < length data \<and> length data \<le> 16000000 \<and> last data = 10)
              ''Empty, oversized or truncated trace'') (\<lambda>_.
     bindE (mapE loads (splitlines data)) load_rows)"

section \<open>write_events\<close>

definition renumber :: "pyval list \<Rightarrow> pyval list res" where
  "renumber events = mapE (\<lambda>(i, e). setitem ''seq'' (PInt i) e) (enum_from 0 events)"

definition write_rows :: "pyval list \<Rightarrow> pyval list res" where
  "write_rows events =
     bindE (renumber events) (\<lambda>events.
     bindE (if events = [] then Inr False else py_in ''proposal_context'' (hd events)) (\<lambda>contextual.
     Inr ((if contextual then CONTEXT_HEADER else HEADER) # events @ [terminal_row (length events)])))"

definition write_events :: "pyval list \<Rightarrow> pstr res" where
  "write_events events =
     bindE (write_rows events) (\<lambda>rows. Inr (concat (map (\<lambda>row. dumps False row @ [10]) rows)))"

section \<open>instructions\<close>

definition add_step :: "pyval \<Rightarrow> string \<Rightarrow> (string \<times> pyval) list \<Rightarrow> pyval res" where
  "add_step event op kw =
     bindE (getitem event ''node'') (\<lambda>node.
     bindE (getitem event ''seq'') (\<lambda>seq.
     Inr (mkdict ([(''op'', S op), (''node'', node), (''event'', seq), (''bound'', PInt 36)] @ kw))))"

text \<open>The steps of one event, \<open>add\<close> called once per element.\<close>

definition add_steps :: "pyval \<Rightarrow> (string \<times> (string \<times> pyval) list) list \<Rightarrow> pyval list res" where
  "add_steps event ops = mapE (\<lambda>(op, kw). add_step event op kw) ops"

definition node_of :: "pyval \<Rightarrow> int \<Rightarrow> pyval res" where
  "node_of e node =
     bindE (getitem e ''states'') (\<lambda>ss.
     if 0 < node \<and> node \<le> int (length (the_list ss)) then Inr (the_list ss ! nat (node - 1)) else Inl IndexError)"

definition command_value :: "string \<Rightarrow> pstr \<Rightarrow> pstr \<Rightarrow> pyval" where
  "command_value kind data ctx = mkdict [(''kind'', S kind), (''data'', PStr data), (''context'', PStr ctx)]"

text \<open>The branch on the event's kind; \<open>prior\<close> and \<open>after\<close> are \<open>PNone\<close> when there is no such state.\<close>

definition kind_steps :: "pyval \<Rightarrow> pyval \<Rightarrow> pyval \<Rightarrow> pyval \<Rightarrow> pyval list res" where
  "kind_steps e kind prior after =
     (if is_lit kind ''campaign'' then add_steps e [(''timeout'', []), (''selfVote'', [])]
      else if is_lit kind ''propose'' then
        bindE (getitem e ''value'') (\<lambda>value.
        bindE (payload value) (\<lambda>data.
        bindE (dict_get e ''proposal_context'' (S '''')) (\<lambda>pc.
        bindE (payload pc) (\<lambda>ctx.
        add_steps e [(''client'', [(''value'', command_value ''command'' data ctx)])]))))
      else if is_lit kind ''receive'' then
        bindE (getitem e ''input'') (\<lambda>inp.
        bindE (message inp) (\<lambda>msg.
        bindE (getitem prior ''role'') (\<lambda>rb.
        bindE (getitem after ''role'') (\<lambda>ra.
        add_steps e ([(''receive'', [(''msg'', msg)])]
          @ (if \<not> is_lit rb ''leader'' \<and> is_lit ra ''leader'' then
               [(''leader'', []), (''client'', [(''value'', command_value ''noop'' [] [])])] else [])
          @ (if is_lit ra ''leader'' then [(''commit'', [])] else []))))))
      else if is_lit kind ''advance'' then
        bindE (getitem prior ''role'') (\<lambda>rb.
        add_steps e (if is_lit rb ''leader'' then [(''selfAck'', []), (''commit'', [])] else []))
      else if in_tuple kind [''persist'', ''release'', ''restart''] then
        add_steps e [(if is_lit kind ''persist'' then ''persist''
                      else if is_lit kind ''release'' then ''release'' else ''restart'', [])]
      else if in_tuple kind [''drop'', ''duplicate''] then
        bindE (getitem e ''input'') (\<lambda>inp.
        bindE (message inp) (\<lambda>msg.
        add_steps e [(if is_lit kind ''drop'' then ''drop'' else ''duplicate'', [(''msg'', msg)])]))
      else Inr [])"

text \<open>
  The loop over the pending messages: \<open>old\<close> is the counter of the messages that were pending
  prior, by \<open>key\<close>.  A message it still counts is old; a new request becomes a \<open>send\<close>.
\<close>

definition send_step ::
  "pyval \<Rightarrow> pyval \<Rightarrow> pyval \<Rightarrow> pstr multiset \<times> pyval list \<Rightarrow> pyval \<Rightarrow> (pstr multiset \<times> pyval list) res" where
  "send_step e kind node st m = (case st of (old, steps) \<Rightarrow>
     let k = key m in
     if k \<in># old then Inr (old - {#k#}, steps)
     else
       bindE (getitem m ''mtype'') (\<lambda>mtype.
       if in_tuple mtype [''RequestVoteRequest'', ''AppendEntriesRequest''] then
         bindE (getitem m ''msource'') (\<lambda>src.
         bindE (require (src = node) ''Send from wrong node'') (\<lambda>_.
         bindE (if is_lit kind ''campaign''
                then require (is_lit mtype ''RequestVoteRequest'') ''Unsupported campaign send''
                else require (is_lit mtype ''AppendEntriesRequest'') ''Unsupported replication send'') (\<lambda>_.
         bindE (if is_lit kind ''beat'' then
                  bindE (getitem m ''msubtype'') (\<lambda>sub.
                  require (is_lit sub ''heartbeat'') ''Unsupported heartbeat send'')
                else Inr ()) (\<lambda>_.
         bindE (add_step e ''send'' [(''msg'', m)]) (\<lambda>s. Inr (old, steps @ [s]))))))
       else Inr (old, steps)))"

definition sends :: "pyval \<Rightarrow> pyval \<Rightarrow> pyval \<Rightarrow> pyval option \<Rightarrow> pyval \<Rightarrow> pyval list res" where
  "sends e kind node previous expected =
     (if in_tuple kind [''campaign'', ''propose'', ''receive'', ''advance'', ''beat''] then
        (case previous of
           None \<Rightarrow> Inl TypeError
         | Some p \<Rightarrow>
             bindE (getitem p ''pending'') (\<lambda>prior.
             bindE (mapE message (the_list prior)) (\<lambda>old.
             bindE (getitem expected ''pending'') (\<lambda>pending.
             bindE (foldE (send_step e kind node) (mset (map key old), []) (the_list pending)) (\<lambda>st.
             Inr (snd st))))))
      else Inr [])"

definition event_steps :: "pyval option \<Rightarrow> pyval \<Rightarrow> pyval list res" where
  "event_steps previous e =
     bindE (observation e) (\<lambda>expected.
     bindE (getitem e ''kind'') (\<lambda>kind.
     bindE (getitem e ''node'') (\<lambda>node.
     bindE (if previous \<noteq> None \<and> truthy node then node_of (the previous) (the_int node) else Inr PNone) (\<lambda>prior.
     bindE (if truthy node then node_of e (the_int node) else Inr PNone) (\<lambda>after.
     bindE (kind_steps e kind prior after) (\<lambda>steps.
     bindE (sends e kind node previous expected) (\<lambda>sent.
     bindE (add_step e ''check'' [(''expected'', expected)]) (\<lambda>check.
     Inr (steps @ sent @ [check])))))))))"

definition instruction_step ::
  "pyval option \<times> pyval list \<Rightarrow> pyval \<Rightarrow> (pyval option \<times> pyval list) res" where
  "instruction_step st e = (case st of (previous, steps) \<Rightarrow>
     bindE (event_steps previous e) (\<lambda>new. Inr (Some e, steps @ new)))"

definition instructions :: "pyval list \<Rightarrow> pyval list res" where
  "instructions events =
     bindE (foldE instruction_step (None, []) events) (\<lambda>st. Inr (snd st))"

section \<open>The model configuration and the verdict\<close>

definition INVARIANTS :: "string list" where
  "INVARIANTS = [''LogInv'', ''MoreThanOneLeaderInv'', ''ElectionSafetyInv'', ''LogMatchingInv'',
     ''QuorumLogInv'', ''MoreUpToDateCorrectInv'', ''LeaderCompletenessInv'', ''CommittedIsDurableInv'']"

definition config_constants :: "(string \<times> pyval) list" where
  "config_constants = [(''Nil'', PInt 0), (''ValueEntry'', S ''ValueEntry''), (''ConfigEntry'', S ''ConfigEntry''),
     (''Follower'', S ''Follower''), (''Candidate'', S ''Candidate''), (''Leader'', S ''Leader''),
     (''RequestVoteRequest'', S ''RequestVoteRequest''), (''RequestVoteResponse'', S ''RequestVoteResponse''),
     (''AppendEntriesRequest'', S ''AppendEntriesRequest''), (''AppendEntriesResponse'', S ''AppendEntriesResponse'')]"

definition config :: pstr where
  "config =
     lit ''SPECIFICATION TraceSpec'' @ [10] @ lit ''CONSTANTS'' @ [10]
     @ lit ''    Server = {1,2,3}'' @ [10] @ lit ''    InitServer = {1,2,3}'' @ [10]
     @ concat (map (\<lambda>(k, v). lit ''    '' @ lit k @ lit '' = '' @ dumps False v @ [10]) config_constants)
     @ lit ''INVARIANTS'' @ [10] @ lit ''    '' @ join ([10] @ lit ''    '') (map lit INVARIANTS)
     @ [10] @ lit ''CHECK_DEADLOCK TRUE'' @ [10]"

definition completed :: "int \<Rightarrow> pstr \<Rightarrow> nat \<Rightarrow> bool" where
  "completed returncode t n \<longleftrightarrow>
     (let queues = map (\<lambda>(_, _, q). q) (summaries t) in
      returncode = 0 \<and> contains (marker ''RAFTZ_TRACE_COMPLETE'' n) t
      \<and> contains no_error_text t \<and> queues \<noteq> [] \<and> undec (last queues) = 0)"

end
