(* ===== verification/Schema_Facts.thy ===== *)
theory Schema_Facts
  imports Trace_Schema
begin

text \<open>
  What the schema of Trace_Schema accepts and returns: which exceptions its validators can
  raise, and for entries, logs, messages and observations an equivalence between acceptance
  and a description of the accepted values.  The instruction generator and the read-trace
  checker rely on these facts.
\<close>

section \<open>Which exceptions the validators raise\<close>

text \<open>
  A schema check either succeeds or raises \<open>ValueError\<close> (possibly its subclass
  \<open>UnicodeEncodeError\<close>) or, on an unhashable value, \<open>TypeError\<close>: no subscript misses.
\<close>

definition rejects :: "exc \<Rightarrow> bool" where
  "rejects e \<longleftrightarrow> is_value_error e \<or> e = TypeError"

definition safe :: "'a res \<Rightarrow> bool" where
  "safe m \<longleftrightarrow> (\<forall>e. m = Inl e \<longrightarrow> rejects e)"

named_theorems safe_intros \<open>checks that raise no unexpected exception\<close>

lemma safe_Inr [safe_intros]: "safe (Inr x)"
  by (simp add: safe_def)

lemma safe_bindE [safe_intros]: "safe m \<Longrightarrow> (\<And>x. m = Inr x \<Longrightarrow> safe (f x)) \<Longrightarrow> safe (bindE m f)"
  by (cases m) (auto simp: safe_def)

lemma safe_require [safe_intros]: "safe (require c m)"
  by (auto simp: safe_def require_eq_Inl rejects_def is_value_error_def)

lemma safe_fields [safe_intros]: "safe (fields obj names)"
  by (auto simp: safe_def fields_def guardE_eq_Inl rejects_def is_value_error_def)

lemma safe_natural [safe_intros]: "safe (natural_upto n v)"
  by (auto simp: safe_def natural_upto_def guardE_eq_Inl rejects_def is_value_error_def)

lemma safe_payload [safe_intros]: "safe (payload v)"
  by (auto simp: safe_def rejects_def dest: payload_error)

lemma safe_in_set [safe_intros]: "safe (in_set v names)"
  by (simp add: safe_def in_set_def rejects_def)

lemma safe_py_in [safe_intros]: "safe (py_in k v)"
  by (auto simp: safe_def py_in_def rejects_def split: pyval.splits)

lemma safe_mapE [safe_intros]: "(\<And>x. x \<in> set xs \<Longrightarrow> safe (f x)) \<Longrightarrow> safe (mapE f xs)"
  by (induction xs) (auto intro!: safe_intros)

lemma safe_if [safe_intros]: "(c \<Longrightarrow> safe a) \<Longrightarrow> (\<not> c \<Longrightarrow> safe b) \<Longrightarrow> safe (if c then a else b)"
  by simp

lemma safe_Let [safe_intros]: "safe (f v) \<Longrightarrow> safe (Let v f)"
  by simp

lemma safe_getitem: "fields obj names = Inr u \<Longrightarrow> k \<in> set names \<Longrightarrow> safe (getitem obj k)"
  using fields_getitem [of obj names u k] by (auto simp: safe_def)

lemma safe_naturals:
  "fields obj names = Inr u \<Longrightarrow> set ks \<subseteq> set names \<Longrightarrow> safe (naturals obj ks)"
  unfolding naturals_def by (intro safe_intros) (auto intro: safe_getitem)

lemma safe_entry: "safe (entry e i)"
  unfolding entry_def by (intro safe_intros; (erule safe_getitem, simp)?)

lemma safe_log_entries [safe_intros]: "safe (log_entries es start)"
  unfolding log_entries_def by (intro safe_intros) (auto simp: safe_entry)

lemma safe_message [safe_intros]: "safe (message m)"
  unfolding message_def by (intro safe_intros; (erule safe_getitem, simp)?; (erule safe_naturals, simp)?)

lemma safe_node_state [safe_intros]: "safe (node_state s)"
  unfolding node_state_def by (intro safe_intros; (erule safe_getitem, simp)?; (erule safe_naturals, simp)?)

lemma message_fields: "message m = Inr out \<Longrightarrow>
   fields m [''kind'', ''from'', ''to'', ''term'', ''index'', ''log_term'', ''commit'',
     ''commit_term'', ''reject'', ''reject_hint'', ''entries''] = Inr ()"
  unfolding message_def by (auto simp: bindE_eq_Inr [where y = out])

lemma observe_context_fields:
  assumes "observe_context e = Inr c" and "k \<in> set [''kind'', ''seq'', ''node'', ''input'', ''value'', ''states'', ''pending'', ''network'']"
  shows "safe (getitem e k)"
proof -
  obtain names where "fields e ([''kind'', ''seq'', ''node'', ''input'', ''value'', ''states'', ''pending'', ''network''] @ names) = Inr ()"
    using assms(1) by (auto simp: observe_context_def bindE_eq_Inr)
  then show ?thesis using assms(2) by (intro safe_getitem) auto
qed

lemma safe_observe_context [safe_intros]: "safe (observe_context e)"
  unfolding observe_context_def by (intro safe_intros; (erule safe_getitem, simp)?)

lemma safe_observation [safe_intros]: "safe (observation e)"
  unfolding observation_def observe_node_def observe_states_def observe_input_def observe_value_def observe_bag_def
    split_beta
  by (intro safe_intros; (erule observe_context_fields, simp)?; (drule message_fields)?; (erule safe_getitem, simp)?)

section \<open>What the schema accepts\<close>

definition entry_record :: "int \<Rightarrow> pstr \<Rightarrow> pstr \<Rightarrow> pyval" where
  "entry_record t data ctx = mkdict [(''term'', PInt t), (''type'', S ''ValueEntry''),
     (''value'', mkdict [(''val'', mkdict [
        (''kind'', if data = [] then S ''noop'' else S ''command''), (''data'', PStr data), (''context'', PStr ctx)])])]"

lemma entry_record_inject: "entry_record t d c = entry_record t' d' c' \<longleftrightarrow> t = t' \<and> d = d' \<and> c = c'"
  by (auto simp: entry_record_def dict_simps)

definition entry_of :: "pyval \<Rightarrow> int \<Rightarrow> int \<Rightarrow> pstr \<Rightarrow> pstr \<Rightarrow> bool" where
  "entry_of e i t data ctx \<longleftrightarrow>
     fields e [''index'', ''term'', ''data'', ''context''] = Inr ()
     \<and> getitem e ''index'' = Inr (PInt i) \<and> 0 \<le> i \<and> i \<le> 1000000
     \<and> getitem e ''term'' = Inr (PInt t) \<and> 0 \<le> t \<and> t \<le> 16
     \<and> bindE (getitem e ''data'') payload = Inr data \<and> bindE (getitem e ''context'') payload = Inr ctx"

lemma truthy_payload: "payload v = Inr h \<Longrightarrow> truthy v \<longleftrightarrow> h \<noteq> []"
  using payload_Nil_iff [of v h] by (auto simp: payload_eq_Inr)

lemma entry_eq_Inr: "entry e i = Inr out \<longleftrightarrow> (\<exists>t data ctx. entry_of e i t data ctx \<and> out = entry_record t data ctx)"
proof
  assume "entry e i = Inr out"
  then show "\<exists>t data ctx. entry_of e i t data ctx \<and> out = entry_record t data ctx"
    by (auto simp: entry_def entry_of_def entry_record_def bindE_eq_Inr require_eq_Inr natural_upto_eq_Inr truthy_payload)
next
  assume "\<exists>t data ctx. entry_of e i t data ctx \<and> out = entry_record t data ctx"
  then obtain t data ctx d c where "entry_of e i t data ctx" "out = entry_record t data ctx"
    "getitem e ''data'' = Inr d" "payload d = Inr data" "getitem e ''context'' = Inr c" "payload c = Inr ctx"
    by (auto simp: entry_of_def bindE_eq_Inr)
  then show "entry e i = Inr out"
    by (simp add: entry_def entry_of_def entry_record_def truthy_payload [of d data])
qed

lemma entry_of_unique: "entry_of e i t d c \<Longrightarrow> entry_of e i t' d' c' \<Longrightarrow> t = t' \<and> d = d' \<and> c = c'"
  by (auto simp: entry_of_def)

lemma log_entries_eq_Inr:
  "log_entries es start = Inr out \<longleftrightarrow>
     (\<exists>xs. es = PList xs \<and> length xs \<le> 32 \<and> length out = length xs
       \<and> (\<forall>k < length xs. \<exists>t data ctx. entry_of (xs ! k) (start + int k) t data ctx \<and> out ! k = entry_record t data ctx))"
  by (auto simp: log_entries_def bindE_eq_Inr require_eq_Inr list_guard mapE_eq_Inr list_all2_conv_all_nth
      nth_enum_from entry_eq_Inr)

text \<open>Two entries with the same translation at the same index agree on every field.\<close>

lemma entry_of_agree:
  assumes "entry_of e i t data ctx" and "entry_of e' i t data ctx" and "k \<in> {''index'', ''term'', ''data'', ''context''}"
  shows "getitem e k = getitem e' k"
proof -
  obtain d c d' c' where g: "getitem e ''data'' = Inr d" "payload d = Inr data" "getitem e ''context'' = Inr c" "payload c = Inr ctx"
      "getitem e' ''data'' = Inr d'" "payload d' = Inr data" "getitem e' ''context'' = Inr c'" "payload c' = Inr ctx"
    using assms(1,2) by (auto simp: entry_of_def bindE_eq_Inr)
  then have "d = d'" "c = c'" using payload_codec.enc_inj by auto
  with g assms show ?thesis by (auto simp: entry_of_def)
qed

lemma dict_with_mkdict:
  "distinct (map fst (items @ new)) \<Longrightarrow> dict_with (mkdict items) new = mkdict (items @ new)"
proof (induction new arbitrary: items)
  case (Cons kv new)
  obtain k v where kv: "kv = (k, v)" by (cases kv)
  have "lit k \<notin> fst ` set (map (\<lambda>(k, v). (lit k, v)) items)"
    using Cons.prems unfolding keys_mkdict by (force simp: kv)
  then have "dict_with (mkdict items) (kv # new) = dict_with (mkdict (items @ [(k, v)])) new"
    by (simp add: dict_with_def mkdict_def kv dict_set_new)
  also have "\<dots> = mkdict ((items @ [(k, v)]) @ new)" by (rule Cons.IH) (use Cons.prems kv in auto)
  finally show ?case by (simp add: kv)
qed (simp add: dict_with_def mkdict_def)

text \<open>What a validated message carries, and the record of the TLA+ adapter for it.\<close>

datatype message_view = Message_View (v_kind: string) (v_from: int) (v_to: int) (v_term: int)
  (v_index: int) (v_log_term: int) (v_commit: int) (v_reject: bool) (v_entries: "pyval list")

definition peers :: "int set" where
  "peers = {1, 2, 3}"

definition counter :: "pyval \<Rightarrow> string \<Rightarrow> int \<Rightarrow> bool" where
  "counter m k i \<longleftrightarrow> getitem m k = Inr (PInt i) \<and> 0 \<le> i \<and> i \<le> 1000000"

definition message_shows :: "pyval \<Rightarrow> message_view \<Rightarrow> bool" where
  "message_shows m v \<longleftrightarrow>
     fields m [''kind'', ''from'', ''to'', ''term'', ''index'', ''log_term'', ''commit'',
       ''commit_term'', ''reject'', ''reject_hint'', ''entries''] = Inr ()
     \<and> getitem m ''kind'' = Inr (S (v_kind v)) \<and> v_kind v \<in> fst ` set MESSAGE_TYPES
     \<and> counter m ''from'' (v_from v) \<and> v_from v \<in> peers \<and> counter m ''to'' (v_to v) \<and> v_to v \<in> peers
     \<and> counter m ''term'' (v_term v) \<and> counter m ''index'' (v_index v) \<and> counter m ''log_term'' (v_log_term v)
     \<and> counter m ''commit'' (v_commit v) \<and> (\<exists>i. counter m ''commit_term'' i) \<and> (\<exists>i. counter m ''reject_hint'' i)
     \<and> getitem m ''reject'' = Inr (PBool (v_reject v))
     \<and> bindE (getitem m ''entries'') (\<lambda>es. log_entries es (v_index v + 1)) = Inr (v_entries v)
     \<and> (v_kind v = ''append'' \<or> v_entries v = [])"

definition message_record :: "message_view \<Rightarrow> pyval" where
  "message_record v =
     (let base = [(''msource'', PInt (v_from v)), (''mdest'', PInt (v_to v)), (''mterm'', PInt (v_term v))] in
      if v_kind v = ''request_vote'' then
        mkdict ((''mtype'', S ''RequestVoteRequest'') # base
          @ [(''mlastLogIndex'', PInt (v_index v)), (''mlastLogTerm'', PInt (v_log_term v))])
      else if v_kind v = ''request_vote_response'' then
        mkdict ((''mtype'', S ''RequestVoteResponse'') # base @ [(''mvoteGranted'', PBool (\<not> v_reject v))])
      else if v_kind v \<in> {''append'', ''heartbeat''} then
        mkdict ((''mtype'', S ''AppendEntriesRequest'') # base
          @ [(''msubtype'', S (if v_kind v = ''append'' then ''app'' else ''heartbeat'')),
             (''mprevLogIndex'', PInt (v_index v)), (''mprevLogTerm'', PInt (v_log_term v)),
             (''mcommitIndex'', PInt (v_commit v)), (''mentries'', PList (v_entries v))])
      else
        mkdict ((''mtype'', S ''AppendEntriesResponse'') # base
          @ [(''msubtype'', S (if v_kind v = ''append_response'' then ''app'' else ''heartbeat'')),
             (''msuccess'', PBool (\<not> v_reject v)),
             (''mmatchIndex'', PInt (if v_kind v = ''append_response'' \<and> \<not> v_reject v then v_index v else 0))]))"

lemma naturals_eq_Inr: "naturals m ks = Inr u \<longleftrightarrow> (\<forall>k \<in> set ks. \<exists>i. counter m k i)"
proof -
  have "naturals m ks = Inr u \<longleftrightarrow> (\<exists>ys. mapE (\<lambda>k. bindE (getitem m k) natural) ks = Inr ys)"
    by (auto simp: naturals_def bindE_eq_Inr)
  also have "\<dots> \<longleftrightarrow> (\<forall>k \<in> set ks. \<exists>i. counter m k i)"
    unfolding mapE_ex_Inr by (auto simp: counter_def bindE_eq_Inr natural_upto_eq_Inr)
  finally show ?thesis .
qed

lemma is_peer_PInt: "is_peer (PInt i) \<longleftrightarrow> i \<in> peers"
  by (auto simp: is_peer_def peers_def)

lemma bool_guard [run_simps]: "(case v of PBool b \<Rightarrow> True | _ \<Rightarrow> False) \<longleftrightarrow> (\<exists>b. v = PBool b)"
  by (cases v) simp_all

lemma message_out_record:
  assumes "v_kind v \<in> fst ` set MESSAGE_TYPES"
  shows "message_out (S (v_kind v)) (PInt (v_from v)) (PInt (v_to v)) (PInt (v_term v)) (PInt (v_index v))
    (PInt (v_log_term v)) (PInt (v_commit v)) (PBool (v_reject v)) (v_entries v) = message_record v"
  using assms
  by (auto simp: MESSAGE_TYPES_def message_out_def message_record_def message_type_def dict_with_mkdict)

lemma message_eq_Inr: "message m = Inr out \<longleftrightarrow> (\<exists>v. message_shows m v \<and> out = message_record v)"
proof
  assume "message m = Inr out"
  then obtain kind src dst trm idx log_term commit reject entries where
    m: "fields m [''kind'', ''from'', ''to'', ''term'', ''index'', ''log_term'', ''commit'',
          ''commit_term'', ''reject'', ''reject_hint'', ''entries''] = Inr ()"
      "getitem m ''kind'' = Inr kind" "in_tuple kind (map fst MESSAGE_TYPES)"
      "getitem m ''from'' = Inr src" "natural src = Inr ()" "getitem m ''to'' = Inr dst" "natural dst = Inr ()"
      "is_peer src" "is_peer dst"
      "naturals m [''term'', ''index'', ''log_term'', ''commit'', ''commit_term'', ''reject_hint''] = Inr ()"
      "getitem m ''reject'' = Inr reject" "\<exists>b. reject = PBool b"
      "bindE (getitem m ''entries'') (\<lambda>es. log_entries es (the_int idx + 1)) = Inr entries"
      "getitem m ''term'' = Inr trm" "getitem m ''index'' = Inr idx" "getitem m ''log_term'' = Inr log_term"
      "getitem m ''commit'' = Inr commit" "is_lit kind ''append'' \<or> entries = []"
      "out = message_out kind src dst trm idx log_term commit reject entries"
    unfolding message_def
    by (simp add: bindE_eq_Inr [where y = out] require_eq_Inr in_set_eq_Inr bool_guard) (auto simp: bindE_eq_Inr)
  obtain k where k: "kind = S k" "k \<in> fst ` set MESSAGE_TYPES"
    using m(3) by (auto simp: in_tuple_iff is_lit_def)
  obtain t i lt c b where n: "trm = PInt t" "idx = PInt i" "log_term = PInt lt" "commit = PInt c" "reject = PBool b"
    using m(10,12,14-17) by (auto simp: naturals_eq_Inr counter_def)
  obtain s d where p: "src = PInt s" "dst = PInt d" using m(5,7) by (auto simp: natural_upto_eq_Inr)
  let ?v = "Message_View k s d t i lt c b entries"
  have "message_shows m ?v"
    using m k n p by (auto simp: message_shows_def counter_def naturals_eq_Inr is_peer_PInt natural_upto_eq_Inr)
  moreover have "out = message_record ?v"
    using message_out_record [of ?v] k m(19) n p by simp
  ultimately show "\<exists>v. message_shows m v \<and> out = message_record v" by blast
next
  assume "\<exists>v. message_shows m v \<and> out = message_record v"
  then obtain v es where v: "message_shows m v" "out = message_record v"
    and es: "getitem m ''entries'' = Inr es" "log_entries es (v_index v + 1) = Inr (v_entries v)"
    by (auto simp: message_shows_def bindE_eq_Inr)
  have "in_set (S (v_kind v)) (map fst MESSAGE_TYPES) = Inr True"
    using v(1) by (simp add: in_set_eq_Inr in_tuple_iff message_shows_def)
  moreover have "naturals m [''term'', ''index'', ''log_term'', ''commit'', ''commit_term'', ''reject_hint''] = Inr ()"
    using v(1) by (auto simp: naturals_eq_Inr message_shows_def)
  moreover have "message_out (S (v_kind v)) (PInt (v_from v)) (PInt (v_to v)) (PInt (v_term v)) (PInt (v_index v))
    (PInt (v_log_term v)) (PInt (v_commit v)) (PBool (v_reject v)) (v_entries v) = out"
    using message_out_record [of v] v by (simp add: message_shows_def)
  ultimately show "message m = Inr out"
    using v(1) es by (simp add: message_def message_shows_def counter_def is_peer_PInt)
qed

text \<open>What an accepted observation contains.\<close>

definition message_bag :: "pyval \<Rightarrow> string \<Rightarrow> pyval list \<Rightarrow> bool" where
  "message_bag e k out \<longleftrightarrow> (\<exists>ms. getitem e k = Inr (PList ms) \<and> length ms \<le> 128 \<and> mapE message ms = Inr out)"

definition event_fields :: "bool \<Rightarrow> string list" where
  "event_fields contextual = [''kind'', ''seq'', ''node'', ''input'', ''value'', ''states'', ''pending'', ''network'']
     @ (if contextual then [''proposal_context''] else [])"

lemma observe_context_eq_Inr:
  "observe_context e = Inr contextual \<longleftrightarrow> py_in ''proposal_context'' e = Inr contextual
     \<and> fields e (event_fields contextual) = Inr ()
     \<and> (contextual \<longrightarrow> (\<exists>pc h kind. getitem e ''proposal_context'' = Inr pc \<and> payload pc = Inr h
          \<and> getitem e ''kind'' = Inr kind \<and> (h \<noteq> [] \<longleftrightarrow> is_lit kind ''propose'')))"
  by (cases "py_in ''proposal_context'' e")
    (auto simp: observe_context_def event_fields_def bindE_eq_Inr require_eq_Inr truthy_payload split: if_splits)

lemma valid_node_iff:
  "valid_node (S k) node \<longleftrightarrow> (\<exists>n. node = PInt n \<and> n \<in> (if k \<in> {''init'', ''end''} then {0} else peers))"
  by (cases node) (simp_all add: valid_node_def peers_def)

lemma in_tuple_S: "in_tuple v names \<longleftrightarrow> (\<exists>s \<in> set names. v = S s)"
  by (simp add: in_tuple_iff is_lit_def)

lemma observe_node_eq_Inr:
  "observe_node e = Inr (kind, node) \<longleftrightarrow> (\<exists>k n. kind = S k \<and> node = PInt n
     \<and> getitem e ''kind'' = Inr kind \<and> k \<in> set EVENTS
     \<and> getitem e ''node'' = Inr node \<and> n \<in> (if k \<in> {''init'', ''end''} then {0} else peers))"
proof -
  have "observe_node e = Inr (kind, node) \<longleftrightarrow> getitem e ''kind'' = Inr kind \<and> in_set kind EVENTS = Inr True
      \<and> getitem e ''node'' = Inr node \<and> valid_node kind node"
    by (auto simp: observe_node_def bindE_eq_Inr require_eq_Inr)
  also have "\<dots> \<longleftrightarrow> getitem e ''kind'' = Inr kind \<and> (\<exists>k \<in> set EVENTS. kind = S k)
      \<and> getitem e ''node'' = Inr node \<and> valid_node kind node"
    by (auto simp: in_set_eq_Inr in_tuple_S)
  finally show ?thesis using valid_node_iff by blast
qed

lemma observe_states_eq_Inr:
  "observe_states e = Inr sts \<longleftrightarrow>
     (\<exists>ss. getitem e ''states'' = Inr (PList ss) \<and> length ss = 3 \<and> mapE node_state ss = Inr sts)"
  by (auto simp: observe_states_def bindE_eq_Inr require_eq_Inr list_guard)

lemma observe_value_eq_Inr:
  "observe_value e kind = Inr u \<longleftrightarrow>
     (\<exists>v h. getitem e ''value'' = Inr v \<and> payload v = Inr h \<and> (h \<noteq> [] \<longleftrightarrow> is_lit kind ''propose''))"
  by (auto simp: observe_value_def bindE_eq_Inr require_eq_Inr truthy_payload)

lemma observe_input_eq_Inr:
  "observe_input e kind node = Inr u \<longleftrightarrow>
     (if in_tuple kind [''receive'', ''drop'', ''duplicate'']
      then \<exists>inp msg. getitem e ''input'' = Inr inp \<and> message inp = Inr msg \<and> getitem inp ''to'' = Inr node
      else getitem e ''input'' = Inr PNone)"
proof -
  have "message PNone = Inl (ValueErrorArg ''Unexpected fields: '' PNone)"
    by (simp add: message_def fields_def)
  then show ?thesis by (auto simp: observe_input_def Let_def bindE_eq_Inr require_eq_Inr)
qed

lemma observe_bag_eq_Inr:
  "observe_bag e k = Inr ms \<longleftrightarrow> getitem e k = Inr (PList ms) \<and> length ms \<le> 128"
  by (auto simp: observe_bag_def bounded_bag_def bindE_eq_Inr require_eq_Inr list_guard)

lemma observation_eq_Inr:
  "observation e = Inr out \<longleftrightarrow> (\<exists>contextual kind node sts ps ns.
     observe_context e = Inr contextual \<and> observe_node e = Inr (kind, node) \<and> observe_states e = Inr sts
     \<and> observe_input e kind node = Inr () \<and> observe_value e kind = Inr ()
     \<and> message_bag e ''pending'' ps \<and> message_bag e ''network'' ns
     \<and> out = mkdict [(''states'', PList sts), (''pending'', PList ps), (''network'', PList ns)])"
  unfolding observation_def message_bag_def
  by (simp add: bindE_eq_Inr observe_bag_eq_Inr split_beta) metis

section \<open>Properties\<close>

text \<open>
  C30: \<open>message\<close> accepts exactly the dicts with the eleven fields, a known kind, endpoints among the
  three peers, counters from 0 to 1,000,000, a boolean rejection flag and contiguous entries that
  start behind \<open>index\<close> (on an append only), and returns the adapter's record of the kind.
\<close>

theorem message_iff: "message m = Inr out \<longleftrightarrow> (\<exists>v. message_shows m v \<and> out = message_record v)"
  by (rule message_eq_Inr)

text \<open>
  C31: the translation of a log loses nothing the schema admits: two logs with the same
  translation have the same length and agree, entry by entry, on index, term, data and context.
\<close>

theorem log_translation_injective:
  assumes "log_entries es start = Inr out" and "log_entries es' start = Inr out"
  shows "length (the_list es) = length (the_list es') \<and> (\<forall>i < length (the_list es).
    \<forall>k \<in> {''index'', ''term'', ''data'', ''context''}. getitem (the_list es ! i) k = getitem (the_list es' ! i) k)"
proof -
  obtain xs ys where xs: "es = PList xs" "length out = length xs" and ys: "es' = PList ys" "length out = length ys"
    using assms unfolding log_entries_eq_Inr by blast
  have "getitem (xs ! i) k = getitem (ys ! i) k" if i: "i < length xs" and k: "k \<in> {''index'', ''term'', ''data'', ''context''}" for i k
  proof -
    obtain t d c where x: "entry_of (xs ! i) (start + int i) t d c" "out ! i = entry_record t d c"
      using assms(1) i unfolding log_entries_eq_Inr xs(1) by blast
    obtain t' d' c' where y: "entry_of (ys ! i) (start + int i) t' d' c'" "out ! i = entry_record t' d' c'"
      using assms(2) i xs(2) ys(2) unfolding log_entries_eq_Inr ys(1) pyval.inject by metis
    have "t' = t" "d' = d" "c' = c" using x(2) y(2) by (simp_all add: entry_record_inject)
    with entry_of_agree [OF x(1)] y(1) k show ?thesis by blast
  qed
  then show ?thesis using xs ys by simp
qed

definition example_entry :: pyval where
  "example_entry = mkdict [(''index'', PInt 1), (''term'', PInt 2), (''data'', S ''x''), (''context'', S '''')]"

definition swapped_entry :: pyval where
  "swapped_entry = mkdict [(''context'', S ''''), (''data'', S ''x''), (''term'', PInt 2), (''index'', PInt 1)]"

lemma example_log:
  "log_entries (PList [example_entry]) 1 = Inr [entry_record 2 (hex (lit ''x'')) []]"
  "log_entries (PList [swapped_entry]) 1 = Inr [entry_record 2 (hex (lit ''x'')) []]"
  by (simp_all add: log_entries_def entry_def example_entry_def swapped_entry_def entry_record_def dict_simps insert_commute)

theorem log_translation_injective_witness: "getitem example_entry ''data'' = getitem swapped_entry ''data''"
  using log_translation_injective [OF example_log] by simp

text \<open>
  C32: \<open>observation\<close> rejects a malformed event with \<open>ValueError\<close> or \<open>TypeError\<close> only: on no JSON value
  does a missing key, attribute or index escape as another exception.
\<close>

theorem observation_errors:
  "case observation e of Inr out \<Rightarrow> True | Inl err \<Rightarrow> is_value_error err \<or> err = TypeError"
  using safe_observation [of e] by (auto simp: safe_def rejects_def split: sum.splits)

text \<open>
  C33: a payload is decodable and bounded: the hexadecimal text \<open>payload\<close> returns determines the
  string it came from, has at most 8192 characters and is ASCII.
\<close>

theorem payload_decodable:
  assumes "payload v = Inr h"
  shows "PStr (utf8_decode (unhex h)) = v \<and> length h \<le> 8192 \<and> list_all (\<lambda>c. c < 128) h"
  using payload_dec [OF assms] payload_bound [OF assms] payload_ascii [OF assms] by (simp add: list_all_iff)

theorem payload_decodable_witness:
  "PStr (utf8_decode (unhex (hex (lit ''x'')))) = S ''x'' \<and> length (hex (lit ''x'')) \<le> 8192
    \<and> list_all (\<lambda>c. c < 128) (hex (lit ''x''))"
  by (rule payload_decodable) (simp add: dict_simps)



end
