(* ===== verification/Trace_Facts.thy ===== *)
theory Trace_Facts
  imports Trace_Check Schema_Facts
begin

text \<open>
  The trace checker above the schema: which files \<open>load\<close> accepts, that \<open>write_events\<close> writes them
  back, and what the instructions for the TLA+ adapter are.
\<close>

section \<open>What load accepts\<close>

lemma kind_is_eq_Inr: "kind_is s e = Inr b \<longleftrightarrow> (\<exists>k. getitem e ''kind'' = Inr k \<and> b = is_lit k s)"
  by (auto simp: kind_is_def bindE_eq_Inr)

definition load_event_ok :: "bool \<Rightarrow> nat \<Rightarrow> nat \<Rightarrow> pyval \<Rightarrow> bool" where
  "load_event_ok contextual n i e \<longleftrightarrow> getitem e ''seq'' = Inr (PInt (int i))
     \<and> kind_is ''init'' e = Inr (i = 0) \<and> kind_is ''end'' e = Inr (Suc i = n)
     \<and> py_in ''proposal_context'' e = Inr contextual \<and> (\<exists>out. observation e = Inr out)"

lemma dict_get_PInt: "dict_get e k PNone = Inr (PInt i) \<longleftrightarrow> getitem e k = Inr (PInt i)"
  by (auto simp: dict_get_def getitem_def split: pyval.splits option.splits)

lemma load_event_eq_Inr:
  "load_event contextual n (int i, e) = Inr u \<longleftrightarrow> load_event_ok contextual n i e"
proof -
  have "int i = int n - 1 \<longleftrightarrow> Suc i = n" by linarith
  then show ?thesis
    by (auto simp: load_event_def load_event_ok_def bindE_eq_Inr require_eq_Inr dict_get_PInt kind_is_eq_Inr)
qed

lemma load_events:
  "(\<exists>us. mapE (load_event contextual n) (enum_from 0 events) = Inr us) \<longleftrightarrow>
     (\<forall>i < length events. load_event_ok contextual n i (events ! i))"
proof -
  have "set (enum_from 0 events) = {(int i, events ! i) |i. i < length events}"
    by (auto simp: set_conv_nth nth_enum_from) (metis add_0 nth_enum_from)
  then show ?thesis unfolding mapE_ex_Inr using load_event_eq_Inr by fastforce
qed

lemma any_kind_eq_Inr:
  assumes "\<And>e. e \<in> set events \<Longrightarrow> \<exists>k. getitem e ''kind'' = Inr k"
  shows "any_kind s events = Inr (\<exists>e \<in> set events. kind_is s e = Inr True)"
  using assms
proof (induction events)
  case (Cons e events)
  then obtain k where "getitem e ''kind'' = Inr k" by auto
  with Cons show ?case by (auto simp: kind_is_def)
qed simp

text \<open>The first and last event, the count, the profile and the liveness of a trace.\<close>

definition trace_ok :: "bool \<Rightarrow> pyval list \<Rightarrow> bool" where
  "trace_ok contextual events \<longleftrightarrow> 2 \<le> length events \<and> length events \<le> 1000
     \<and> (\<forall>i < length events. load_event_ok contextual (length events) i (events ! i))
     \<and> (\<exists>e \<in> set events. kind_is ''campaign'' e = Inr True) \<and> (\<exists>e \<in> set events. kind_is ''propose'' e = Inr True)"

lemma load_rows_split:
  "load_rows (header # mid @ [terminal]) = Inr events \<longleftrightarrow> events = mid \<and> (\<exists>contextual.
     key header = key (if contextual then CONTEXT_HEADER else HEADER)
     \<and> contextual = (key header = key CONTEXT_HEADER)
     \<and> Py_Values.fields terminal [''kind'', ''events''] = Inr ()
     \<and> key terminal = key (terminal_row (length mid)) \<and> trace_ok contextual mid)"
    (is "?lhs \<longleftrightarrow> ?rhs")
proof -
  let ?c = "key header = key CONTEXT_HEADER"
  let ?events_ok = "\<forall>i < length mid. load_event_ok ?c (length mid) i (mid ! i)"
  have kinds: "\<exists>k. getitem e ''kind'' = Inr k" if "?events_ok" "e \<in> set mid" for e
    using that by (auto simp: in_set_conv_nth load_event_ok_def kind_is_eq_Inr)
  have ends: "andE (kind_is ''init'' (hd mid)) (kind_is ''end'' (last mid)) = Inr True"
    if ok: "?events_ok" and len: "2 \<le> length mid"
  proof -
    have "load_event_ok ?c (length mid) 0 (mid ! 0)" "load_event_ok ?c (length mid) (length mid - 1) (mid ! (length mid - 1))"
      using ok [rule_format, of 0] ok [rule_format, of "length mid - 1"] len by fastforce+
    moreover have "hd mid = mid ! 0" "last mid = mid ! (length mid - 1)" using len by (cases mid; simp add: last_conv_nth)+
    ultimately show ?thesis using len by (auto simp: load_event_ok_def andE_def)
  qed
  have live: "andE (any_kind ''campaign'' mid) (any_kind ''propose'' mid) = Inr b \<longleftrightarrow>
      b = ((\<exists>e \<in> set mid. kind_is ''campaign'' e = Inr True) \<and> (\<exists>e \<in> set mid. kind_is ''propose'' e = Inr True))"
    if "?events_ok" for b
    using any_kind_eq_Inr [OF kinds [OF that]] by (auto simp: andE_def)
  have "?lhs \<longleftrightarrow> 4 \<le> length mid + 2 \<and> length mid + 2 \<le> 1002 \<and> (?c \<or> key header = key HEADER)
      \<and> Py_Values.fields terminal [''kind'', ''events''] = Inr () \<and> key terminal = key (terminal_row (length mid))
      \<and> andE (kind_is ''init'' (hd mid)) (kind_is ''end'' (last mid)) = Inr True
      \<and> (\<exists>us. mapE (load_event ?c (length mid)) (enum_from 0 mid) = Inr us)
      \<and> andE (any_kind ''campaign'' mid) (any_kind ''propose'' mid) = Inr True \<and> events = mid"
    by (auto simp: load_rows_def Let_def bindE_eq_Inr require_eq_Inr butlast_append)
  also have "\<dots> \<longleftrightarrow> 2 \<le> length mid \<and> length mid \<le> 1000 \<and> (?c \<or> key header = key HEADER)
      \<and> Py_Values.fields terminal [''kind'', ''events''] = Inr () \<and> key terminal = key (terminal_row (length mid))
      \<and> ?events_ok \<and> andE (any_kind ''campaign'' mid) (any_kind ''propose'' mid) = Inr True \<and> events = mid"
    unfolding load_events using ends by auto
  also have "\<dots> \<longleftrightarrow> ?rhs"
    using live [of True] by (auto simp: trace_ok_def)
  finally show ?thesis .
qed

lemma bracketed_rows:
  assumes "4 \<le> length rows"
  obtains header mid terminal where "rows = header # mid @ [terminal]"
  using assms by (cases rows; cases "tl rows" rule: rev_cases) auto

lemma load_rows_eq_Inr:
  "load_rows rows = Inr events \<longleftrightarrow> (\<exists>header terminal contextual.
     rows = header # events @ [terminal]
     \<and> key header = key (if contextual then CONTEXT_HEADER else HEADER) \<and> contextual = (key header = key CONTEXT_HEADER)
     \<and> Py_Values.fields terminal [''kind'', ''events''] = Inr ()
     \<and> key terminal = key (terminal_row (length events)) \<and> trace_ok contextual events)"
    (is "_ \<longleftrightarrow> ?rhs")
proof
  assume load: "load_rows rows = Inr events"
  then have "4 \<le> length rows" by (auto simp: load_rows_def bindE_eq_Inr require_eq_Inr)
  then obtain header mid terminal where rows: "rows = header # mid @ [terminal]" by (rule bracketed_rows)
  from load have "load_rows (header # mid @ [terminal]) = Inr events" by (simp add: rows)
  then show ?rhs unfolding load_rows_split rows by blast
next
  assume ?rhs
  then show "load_rows rows = Inr events" using load_rows_split by blast
qed

section \<open>Headers and terminal rows\<close>

lemma wf_pstr_lit: "wf_pstr (lit s)"
proof (induction s)
  case (Cons c s)
  have "of_char c < (256 :: nat)" by simp
  then have "of_char c < (0x110000 :: nat)" "\<not> high_surrogate (of_char c)"
    unfolding high_surrogate_def by linarith+
  with Cons show ?case by (cases s) (simp_all add: lit_def)
qed simp

lemma wf_mkdict: "wf_pyval (mkdict items) \<longleftrightarrow> distinct (map fst items) \<and> list_all (wf_pyval \<circ> snd) items"
proof -
  have "map fst (map (\<lambda>(k, v :: pyval). (lit k, v)) items) = map lit (map fst items)" by auto
  then have "distinct (map fst (map (\<lambda>(k, v :: pyval). (lit k, v)) items)) \<longleftrightarrow> distinct (map fst items)"
    using inj_on_subset [OF inj_lit subset_UNIV] by (simp only: distinct_map [of lit]) simp
  then show ?thesis by (auto simp: mkdict_def list_all_iff wf_pstr_lit)
qed

lemma wf_headers: "wf_pyval HEADER" "wf_pyval CONTEXT_HEADER" "wf_pyval (terminal_row n)"
proof -
  show "wf_pyval HEADER" "wf_pyval (terminal_row n)"
    by (simp_all add: HEADER_def terminal_row_def wf_mkdict wf_pstr_lit)
  have "CONTEXT_HEADER = dict_with (PDict (dict_set (lit ''version'') (PInt 2) (case HEADER of PDict kvs \<Rightarrow> kvs | _ \<Rightarrow> [])))
      [(''proposal_contexts'', PBool True)]"
    by (simp add: CONTEXT_HEADER_def HEADER_def dict_with_def mkdict_def)
  show "wf_pyval CONTEXT_HEADER"
    by (simp add: CONTEXT_HEADER_def HEADER_def dict_with_def mkdict_def wf_pstr_lit)
qed

lemma canon_dict_keys:
  assumes "canon v = canon (PDict kvs)"
  obtains kvs' where "v = PDict kvs'" and "fst ` set kvs' = fst ` set kvs"
proof -
  have keys: "fst ` set (sort_key fst (map (\<lambda>(k, v). (k, canon v)) kvs)) = fst ` set kvs" for kvs by force
  obtain kvs' where v: "v = PDict kvs'" using assms by (cases v) auto
  with assms have "sort_key fst (map (\<lambda>(k, v). (k, canon v)) kvs') = sort_key fst (map (\<lambda>(k, v). (k, canon v)) kvs)"
    by simp
  then have "fst ` set kvs' = fst ` set kvs" by (metis keys)
  with v show thesis by (rule that)
qed

lemma canon_fields: "canon v = canon (mkdict items) \<Longrightarrow> fst ` set items = set names \<Longrightarrow> Py_Values.fields v names = Inr ()"
  unfolding mkdict_def by (erule canon_dict_keys) (simp add: fields_eq_Inr keys_mkdict [unfolded set_map])

lemma headers_differ: "key HEADER \<noteq> key CONTEXT_HEADER"
proof
  assume "key HEADER = key CONTEXT_HEADER"
  then have eq: "canon CONTEXT_HEADER = canon HEADER" using key_eq_iff wf_headers by metis
  obtain kvs where kvs: "HEADER = PDict kvs" by (simp add: HEADER_def mkdict_def)
  obtain kvs' where kvs': "CONTEXT_HEADER = PDict kvs'" "fst ` set kvs' = fst ` set kvs"
    using canon_dict_keys [OF eq [unfolded kvs]] .
  have "map_of kvs (lit ''proposal_contexts'') = None"
    using kvs by (auto simp: HEADER_def mkdict_def)
  moreover have "map_of kvs' (lit ''proposal_contexts'') = Some (PBool True)"
    using kvs'(1) by (auto simp: CONTEXT_HEADER_def HEADER_def dict_with_def mkdict_def)
  ultimately show False using kvs'(2) by (metis map_of_eq_None_iff option.distinct(1))
qed

section \<open>write_events\<close>

lemma dict_set_same: "map_of kvs k = Some v \<Longrightarrow> dict_set k v kvs = kvs"
  by (induction kvs) (auto split: if_splits)

lemma setitem_same: "getitem e k = Inr v \<Longrightarrow> setitem k v e = Inr e"
  by (auto simp: getitem_eq_Inr setitem_def dict_set_same)

lemma renumber_same:
  assumes "\<And>k. k < length events \<Longrightarrow> getitem (events ! k) ''seq'' = Inr (PInt (int k))"
  shows "renumber events = Inr events"
proof -
  have "mapE (\<lambda>(i, e). setitem ''seq'' (PInt i) e) (enum_from 0 events) = Inr (map snd (enum_from 0 events))"
  proof (rule mapE_Inr_map)
    fix p assume "p \<in> set (enum_from 0 events)"
    then obtain k where "k < length events" "p = (int k, events ! k)" by (auto dest: set_enum_from)
    then show "(\<lambda>(i, e). setitem ''seq'' (PInt i) e) p = Inr (snd p)"
      using assms by (simp add: setitem_same)
  qed
  then show ?thesis by (simp add: renumber_def)
qed

lemma write_rows_events:
  assumes "\<forall>i < length events. load_event_ok contextual (length events) i (events ! i)" and "events \<noteq> []"
  shows "write_rows events = Inr ((if contextual then CONTEXT_HEADER else HEADER) # events @ [terminal_row (length events)])"
proof -
  have "renumber events = Inr events" by (rule renumber_same) (use assms(1) in \<open>simp add: load_event_ok_def\<close>)
  moreover have "py_in ''proposal_context'' (hd events) = Inr contextual"
    using assms by (auto simp: load_event_ok_def hd_conv_nth)
  ultimately show ?thesis using assms(2) by (simp add: write_rows_def)
qed

lemma write_rows_numbered:
  assumes "trace_ok contextual events"
  shows "write_rows events = Inr ((if contextual then CONTEXT_HEADER else HEADER) # events @ [terminal_row (length events)])"
  using assms by (intro write_rows_events) (auto simp: trace_ok_def)

end
