(* ===== verification/Tools_Facts.thy ===== *)
theory Tools_Facts
  imports Tools_Check Trace_Facts
begin

text \<open>
  The tool cache: \<open>classpath\<close> only names files with their pinned digests, \<open>prepare\<close> installs
  nothing else, also when it fails half way, and what it leaves satisfies \<open>classpath\<close>.
\<close>

section \<open>Files\<close>

abbreviation file_at :: "file_system \<Rightarrow> path \<Rightarrow> nat list option" where
  "file_at fs \<equiv> map_of (fs_files fs)"

lemma map_of_filter_key: "map_of (filter (\<lambda>(q, _). P q) kvs) p = (if P p then map_of kvs p else None)"
  by (induction kvs) auto

lemma file_at_put [simp]: "file_at (put_file p b fs) q = (if q = p then Some b else file_at fs q)"
  by (simp add: put_file_def map_of_filter_key [of "\<lambda>q. q \<noteq> p"])

lemma file_at_dirs [simp]: "file_at (fs\<lparr>fs_dirs := d\<rparr>) p = file_at fs p"
  by simp

lemma file_at_remove [simp]: "file_at (remove_tree d fs) p = (if below d p then None else file_at fs p)"
  by (simp add: remove_tree_def map_of_filter_key [of "\<lambda>p. \<not> below d p"])

lemma write_file_eq_Inr: "write_file p b fs = Inr fs' \<Longrightarrow> fs' = put_file p b fs"
  by (auto simp: write_file_def split: if_splits)

lemma replace_file_eq_Inr:
  assumes "replace_file p q fs = Inr fs'" and "file_at fs p = Some b"
  shows "file_at fs' r = (if r = q then Some b else if r = p then None else file_at fs r)"
  using assms map_of_filter_key [of "\<lambda>r. r \<noteq> p" "fs_files fs" r] by (auto simp: replace_file_def split: if_splits)

lemma mkdir_parents_files: "mkdir_parents p fs = Inr fs' \<Longrightarrow> fs_files fs' = fs_files fs"
  by (auto simp: mkdir_parents_def Let_def split: if_splits)

lemma read_text_cong: "file_at fs p = file_at fs' p \<Longrightarrow> read_text fs p = read_text fs' p"
  by (simp add: read_text_def read_bytes_def)

section \<open>Names\<close>

text \<open>A plain file name: one path component.\<close>

definition plain_name :: "pstr \<Rightarrow> bool" where
  "plain_name n \<longleftrightarrow> path_parts n = [n]"

lemma split_on_set: "\<Union> (set ` set (split_on d s)) = set s - {d}"
proof (induction s)
  case (Cons c s)
  then show ?case by (cases "split_on d s") auto
qed simp

lemma plain_name_no_slash: "plain_name n \<Longrightarrow> 47 \<notin> set n"
proof -
  assume "plain_name n"
  then have "n \<in> set (filter (\<lambda>c. c \<noteq> [] \<and> c \<noteq> lit ''.'') (split_on 47 n))" by (simp add: plain_name_def path_parts_def)
  then have "n \<in> set (split_on 47 n)" by simp
  then show ?thesis using split_on_set [of 47 n] by auto
qed

lemma join_plain: "plain_name n \<Longrightarrow> join_path base n = base @ [n]"
  using plain_name_no_slash [of n] by (cases n) (auto simp: join_path_def plain_name_def)

section \<open>classpath\<close>

text \<open>The file of an artifact is present with the digest its entry pins.\<close>

definition pinned :: "outside \<Rightarrow> file_system \<Rightarrow> pstr \<times> pyval \<Rightarrow> bool" where
  "pinned w fs kv \<longleftrightarrow> (case kv of (name, artifact) \<Rightarrow> case file_at fs (join_path (CACHE w) name) of
      None \<Rightarrow> False | Some b \<Rightarrow> getitem artifact ''sha256'' = Inr (PStr (sha256 w b)))"

lemma classpath_entry_eq_Inr:
  "classpath_entry w fs kv = Inr s \<longleftrightarrow> pinned w fs kv \<and> s = path_str (join_path (CACHE w) (fst kv))"
  by (cases kv) (auto simp: classpath_entry_def pinned_def Let_def is_file_def digest_def read_bytes_def bindE_eq_Inr split: option.splits)

lemma dict_items_eq_Inr: "dict_items v = Inr kvs \<longleftrightarrow> v = PDict kvs"
  by (auto simp: dict_items_def split: pyval.splits)

lemma classpath_eq_Inr:
  "classpath w fs = Inr cp \<longleftrightarrow> (\<exists>kvs. tools w fs = Inr (PDict kvs) \<and> list_all (pinned w fs) kvs
     \<and> cp = join [58] (map (\<lambda>kv. path_str (join_path (CACHE w) (fst kv))) kvs))"
proof -
  have "mapE (classpath_entry w fs) kvs = Inr ss \<longleftrightarrow> list_all (pinned w fs) kvs
      \<and> ss = map (\<lambda>kv. path_str (join_path (CACHE w) (fst kv))) kvs" for kvs ss
    by (induction kvs arbitrary: ss) (auto simp: bindE_eq_Inr classpath_entry_eq_Inr)
  then show ?thesis by (auto simp: classpath_def bindE_eq_Inr dict_items_eq_Inr)
qed

section \<open>prepare\<close>

text \<open>What \<open>mkdtemp\<close> guarantees: nothing exists under the name it chooses.\<close>

definition fresh_names :: "outside \<Rightarrow> bool" where
  "fresh_names w \<longleftrightarrow> (\<forall>fs d p. below (d @ [temp_name w fs d]) p \<longrightarrow> file_at fs p = None)"

text \<open>A step that installs one artifact: the other files stay, and the target has changed only to its pinned content.\<close>

definition installs :: "outside \<Rightarrow> pstr \<times> pyval \<Rightarrow> file_system \<Rightarrow> file_system \<Rightarrow> bool" where
  "installs w kv fs fs' \<longleftrightarrow>
     (\<forall>p. p \<noteq> join_path (CACHE w) (fst kv) \<longrightarrow> file_at fs' p = file_at fs p)
     \<and> (file_at fs' (join_path (CACHE w) (fst kv)) = file_at fs (join_path (CACHE w) (fst kv)) \<or> pinned w fs' kv)"

lemma download_installs:
  assumes d: "download_artifact w temporary name target artifact url fs = (r, fs')"
    and names: "plain_name name" "target = CACHE w @ [name]" "temporary = CACHE w @ [t]"
  shows "(\<forall>p. p \<noteq> target \<and> p \<noteq> temporary @ [name] \<longrightarrow> file_at fs' p = file_at fs p)
    \<and> (if r = Inr () then pinned w fs' (name, artifact) else file_at fs' target = file_at fs target)"
proof -
  let ?dl = "temporary @ [name]"
  have dl: "join_path temporary name = ?dl" "join_path (CACHE w) name = target"
    using names join_plain by auto
  have ne: "?dl \<noteq> target" using names by simp
  show ?thesis
  proof (cases "bindE (fetch w url) (\<lambda>body. write_file ?dl body fs)")
    case (Inl e)
    then show ?thesis using d dl by (auto simp: download_artifact_def Let_def)
  next
    case (Inr fs1)
    then obtain body where body: "fetch w url = Inr body" "fs1 = put_file ?dl body fs"
      by (auto simp: bindE_eq_Inr dest: write_file_eq_Inr)
    then have at: "file_at fs1 ?dl = Some body" by simp
    let ?check = "bindE (digest w fs1 ?dl) (\<lambda>d. bindE (getitem artifact ''sha256'') (\<lambda>sha.
               if PStr d \<noteq> sha then Inl (RuntimeError ''Checksum mismatch'') else replace_file ?dl target fs1))"
    show ?thesis
    proof (cases ?check)
      case (Inl e)
      then have "r = Inl e" "fs' = fs1" using d dl Inr by (auto simp: download_artifact_def Let_def)
      then show ?thesis using body ne by auto
    next
      case (Inr fs2)
      then have r: "r = Inr ()" "fs' = fs2"
        using d dl \<open>bindE (fetch w url) _ = Inr fs1\<close> by (auto simp: download_artifact_def Let_def)
      from Inr at have sha: "getitem artifact ''sha256'' = Inr (PStr (sha256 w body))" "replace_file ?dl target fs1 = Inr fs2"
        by (auto simp: bindE_eq_Inr digest_def read_bytes_def split: if_splits)
      note files = replace_file_eq_Inr [OF sha(2) at]
      show ?thesis using r files body ne sha(1) by (auto simp: pinned_def dl)
    qed
  qed
qed

lemma download_not_dir:
  assumes "download_artifact w temporary name target artifact url fs = (Inr (), fs')"
  shows "\<not> is_dir fs target"
proof -
  obtain b where "replace_file (join_path temporary name) target (put_file (join_path temporary name) b fs) = Inr fs'"
    using assms by (auto simp: download_artifact_def Let_def bindE_eq_Inr bindE_eq_Inl dest!: write_file_eq_Inr split: sum.splits if_splits)
  then have "\<not> is_dir (put_file (join_path temporary name) b fs) target"
    by (auto simp: replace_file_def split: option.splits if_splits)
  then show ?thesis by (simp add: is_dir_def put_file_def)
qed

lemma below_iff: "below d p \<longleftrightarrow> (\<exists>r. p = d @ r)"
  by (metis append_eq_conv_conj append_take_drop_id below_def)

lemma prepare_artifact_installs:
  assumes step: "prepare_artifact w kv fs = (r, fs')" and name: "plain_name (fst kv)" and fresh: "fresh_names w"
  shows "installs w kv fs fs' \<and> (r = Inr () \<longrightarrow> pinned w fs' kv)"
proof -
  obtain name artifact where kv: "kv = (name, artifact)" by (cases kv)
  let ?target = "CACHE w @ [name]"
  have target: "join_path (CACHE w) name = ?target" using name kv join_plain by simp
  show ?thesis
  proof (cases "\<exists>url. up_to_date w fs ?target artifact = Inr False \<and> getitem artifact ''url'' = Inr url")
    case False
    then have "fs' = fs" and "r = Inr () \<Longrightarrow> up_to_date w fs ?target artifact = Inr True"
      using step by (auto simp: prepare_artifact_def kv target Let_def split: sum.splits bool.splits)
    then show ?thesis
      by (auto simp: installs_def pinned_def kv target up_to_date_def is_file_def digest_def read_bytes_def bindE_eq_Inr
          split: if_splits option.splits)
  next
    case True
    then obtain url where url: "up_to_date w fs ?target artifact = Inr False" "getitem artifact ''url'' = Inr url" by blast
    define t where "t = temp_name w fs (CACHE w)"
    let ?tmp = "CACHE w @ [t]"
    obtain fs1 where d: "download_artifact w ?tmp name ?target artifact url (fs\<lparr>fs_dirs := ?tmp # fs_dirs fs\<rparr>) = (r, fs1)"
      and fs': "fs' = remove_tree ?tmp fs1"
      using step url by (auto simp: prepare_artifact_def kv target Let_def t_def split: prod.splits)
    have new: "file_at fs p = None" if "below ?tmp p" for p
      using fresh that by (auto simp: fresh_names_def t_def)
    note dl = download_installs [OF d _ refl refl, unfolded file_at_dirs]
    have name': "plain_name name" using name kv by simp
    have other: "file_at fs' p = file_at fs p" if "p \<noteq> ?target" for p
      using dl [OF name'] new that by (cases "below ?tmp p") (auto simp: fs' below_iff)
    show ?thesis
    proof (cases "t = name")
      case False
      then have "\<not> below ?tmp ?target" by (auto simp: below_iff)
      then have "file_at fs' ?target = file_at fs1 ?target" by (simp add: fs')
      then show ?thesis using dl [OF name'] other by (auto simp: installs_def pinned_def kv target split: if_splits)
    next
      case True
      then have "is_dir (fs\<lparr>fs_dirs := ?tmp # fs_dirs fs\<rparr>) ?target" by (simp add: is_dir_def)
      then have "r \<noteq> Inr ()" using download_not_dir d by blast
      then show ?thesis using other new [of ?target] True by (auto simp: installs_def kv target fs' below_iff)
    qed
  qed
qed

text \<open>The whole loop keeps what it installed: the targets of plain, distinct names do not interfere.\<close>

definition installed :: "outside \<Rightarrow> (pstr \<times> pyval) list \<Rightarrow> file_system \<Rightarrow> file_system \<Rightarrow> bool" where
  "installed w kvs fs fs' \<longleftrightarrow> (\<forall>p. file_at fs' p = file_at fs p
     \<or> (\<exists>kv \<in> set kvs. p = join_path (CACHE w) (fst kv) \<and> pinned w fs' kv))"

lemma pinned_cong:
  "file_at fs (join_path (CACHE w) (fst kv)) = file_at fs' (join_path (CACHE w) (fst kv)) \<Longrightarrow> pinned w fs kv \<longleftrightarrow> pinned w fs' kv"
  by (cases kv) (simp add: pinned_def)

lemma prepare_all_installs:
  assumes "prepare_all w kvs fs = (r, fs')" and "list_all (\<lambda>kv. plain_name (fst kv)) kvs" and "distinct (map fst kvs)" and "fresh_names w"
  shows "installed w kvs fs fs' \<and> (r = Inr () \<longrightarrow> list_all (pinned w fs') kvs)
    \<and> (\<forall>p. (\<forall>kv \<in> set kvs. p \<noteq> join_path (CACHE w) (fst kv)) \<longrightarrow> file_at fs' p = file_at fs p)"
  using assms
proof (induction kvs arbitrary: fs)
  case Nil
  then show ?case by (simp add: installed_def)
next
  case (Cons kv kvs)
  obtain r1 fs1 where one: "prepare_artifact w kv fs = (r1, fs1)" by (cases "prepare_artifact w kv fs")
  note step = prepare_artifact_installs [OF one _ Cons.prems(4)]
  have plain: "plain_name (fst kv)" using Cons.prems(2) by simp
  have keep: "join_path (CACHE w) (fst kv) \<noteq> join_path (CACHE w) (fst kv')" if "kv' \<in> set kvs" for kv'
    using Cons.prems(2,3) that join_plain by (force simp: list_all_iff)
  show ?case
  proof (cases r1)
    case (Inl e)
    then have "r = Inl e" "fs' = fs1" using Cons.prems(1) one by auto
    then show ?thesis using step plain unfolding installed_def installs_def by (metis Inl_Inr_False list.set_intros(1))
  next
    case (Inr u)
    then have rest: "prepare_all w kvs fs1 = (r, fs')" using Cons.prems(1) one by auto
    note IH = Cons.IH [OF rest _ _ Cons.prems(4)]
    have IH: "installed w kvs fs1 fs'" "r = Inr () \<Longrightarrow> list_all (pinned w fs') kvs"
      "\<And>p. (\<forall>kv \<in> set kvs. p \<noteq> join_path (CACHE w) (fst kv)) \<Longrightarrow> file_at fs' p = file_at fs1 p"
      using IH Cons.prems(2,3) by auto
    have same: "file_at fs' (join_path (CACHE w) (fst kv)) = file_at fs1 (join_path (CACHE w) (fst kv))"
      using IH(3) keep by blast
    have this_pinned: "pinned w fs' kv" using step [OF plain] Inr pinned_cong [OF same] by simp
    have "installed w (kv # kvs) fs fs'"
      unfolding installed_def
    proof
      fix p
      show "file_at fs' p = file_at fs p \<or> (\<exists>kv \<in> set (kv # kvs). p = join_path (CACHE w) (fst kv) \<and> pinned w fs' kv)"
        using IH(1) step [OF plain] this_pinned unfolding installed_def installs_def by (metis list.set_intros)
    qed
    moreover have "file_at fs' p = file_at fs p" if "\<forall>kv \<in> set (kv # kvs). p \<noteq> join_path (CACHE w) (fst kv)" for p
      using IH(3) [of p] step [OF plain] that by (simp add: installs_def)
    ultimately show ?thesis using IH(2) this_pinned by auto
  qed
qed

section \<open>The lock file\<close>

lemma universal_newlines_id: "13 \<notin> set s \<Longrightarrow> universal_newlines s = s"
  by (induction s rule: universal_newlines.induct) (auto split: if_splits)

lemma text_of_dumps:
  assumes "json_ok fr v"
  shows "text_of (dumps False v) = Inr (dumps False v)"
proof -
  have ascii: "32 \<le> c \<and> c < 127" if "c \<in> set (dumps False v)" for c using dumps_ascii [OF assms that] .
  then have "decode_utf8 (dumps False v) = Inr (dumps False v)" by (intro decode_utf8_ascii) force
  moreover have "\<not> list_ex is_surrogate (dumps False v)" using ascii by (fastforce simp: list_ex_iff is_surrogate_def)
  moreover have "13 \<notin> set (dumps False v)" using ascii by fastforce
  ultimately show ?thesis by (simp add: text_of_def universal_newlines_id)
qed

lemma json_loads_text_dumps:
  assumes "json_ok fr v"
  shows "json_loads_text fr (dumps False v) = Inr v"
proof -
  obtain c t where c: "dumps False v = c # t" "\<not> is_space c" using assms by (rule dumps_head)
  then have "skip (dumps False v) = dumps False v" by simp
  moreover have "scan_value (plain_object, fr) (dumps False v) = Inr (v, [])"
    using plain.scan_value_dumps [OF assms, of "[]"] by (simp add: delim_def)
  moreover have "\<not> starts_with [0xFEFF] (dumps False v)" using c dumps_ascii [OF assms, of c] by auto
  ultimately show ?thesis by (simp add: json_loads_text_def decode_text_def)
qed

lemma scan_value_dict:
  assumes "scan_value (plain_object, fr) s = Inr (PDict kvs, r)"
  shows "distinct (map fst kvs)"
proof (cases s)
  case (Cons c q)
  have "\<exists>kvs'. plain_object kvs' = Inr (PDict kvs)"
    using assms [unfolded Cons scan_value_Cons] scan_atom_dict
    by (auto simp: bindE_eq_Inr json_error_def split: if_splits list.splits)
  then show ?thesis using plain.hook_dict by blast
qed (use assms in \<open>simp add: scan_value.simps json_error_def\<close>)

lemma tools_distinct:
  assumes "tools w fs = Inr (PDict kvs)"
  shows "distinct (map fst kvs)"
proof -
  obtain s r where "scan_value (plain_object, float_repr w) (skip s) = Inr (PDict kvs, r)"
    using assms by (auto simp: tools_def bindE_eq_Inr json_loads_text_def decode_text_def json_error_def split: if_splits)
  then show ?thesis by (rule scan_value_dict)
qed

lemma lock_not_target: "root w @ [n] \<noteq> CACHE w @ [m]"
proof
  assume "root w @ [n] = CACHE w @ [m]"
  then have "length (root w @ [n]) = length (CACHE w @ [m])" by (rule arg_cong)
  then show False by (cases "root w" rule: rev_cases) (simp_all add: CACHE_def)
qed

lemma prepare_installs:
  assumes tools: "tools w fs = Inr (PDict kvs)" and names: "list_all (\<lambda>kv. plain_name (fst kv)) kvs" and "fresh_names w"
    and run: "prepare w fs = (r, fs')"
  shows "installed w kvs fs fs'" and "r = Inr () \<Longrightarrow> list_all (pinned w fs') kvs" and "tools w fs' = tools w fs"
proof -
  have frame: "tools w fs1 = tools w fs" if "\<And>p. (\<forall>kv \<in> set kvs. p \<noteq> join_path (CACHE w) (fst kv)) \<Longrightarrow> file_at fs1 p = file_at fs p" for fs1
  proof -
    have "root w @ [lit ''tools.lock.json''] \<noteq> join_path (CACHE w) (fst kv)" if "kv \<in> set kvs" for kv
      using lock_not_target [of w] join_plain names that by (simp add: list_all_iff)
    then have "file_at fs1 (root w @ [lit ''tools.lock.json'']) = file_at fs (root w @ [lit ''tools.lock.json''])" using that by blast
    from read_text_cong [OF this] show ?thesis by (simp only: tools_def)
  qed
  have "installed w kvs fs fs' \<and> (r = Inr () \<longrightarrow> list_all (pinned w fs') kvs) \<and> tools w fs' = tools w fs"
  proof (cases "mkdir_parents (CACHE w) fs")
    case (Inl e)
    then show ?thesis using run by (auto simp: prepare_def installed_def)
  next
    case (Inr fs1)
    have files: "fs_files fs1 = fs_files fs" using mkdir_parents_files [OF Inr] .
    then have "tools w fs1 = tools w fs" by (intro frame) simp
    then have "prepare_all w kvs fs1 = (r, fs')" using run Inr tools by (simp add: prepare_def dict_items_def)
    note all = prepare_all_installs [OF this names tools_distinct [OF tools] assms(3), unfolded installed_def files]
    then have "tools w fs' = tools w fs" by (intro frame) blast
    with all show ?thesis unfolding installed_def by blast
  qed
  then show "installed w kvs fs fs'" "r = Inr () \<Longrightarrow> list_all (pinned w fs') kvs" "tools w fs' = tools w fs" by auto
qed

section \<open>A passing baseline run\<close>

text \<open>The vendored specification matches its manifest.\<close>

definition upstream_intact :: "outside \<Rightarrow> file_system \<Rightarrow> bool" where
  "upstream_intact w fs \<longleftrightarrow> (\<exists>body manifest listed. read_text fs (UPSTREAM w @ [lit ''manifest.json'']) = Inr body
     \<and> json_loads_text (float_repr w) body = Inr manifest \<and> getitem manifest ''files'' = Inr (PDict listed)
     \<and> list_all (\<lambda>(name, expected). \<exists>b. file_at fs (join_path (UPSTREAM w) name) = Some b \<and> expected = PStr (sha256 w b)) listed)"

lemma verify_upstream_intact: "verify_upstream w fs = Inr () \<Longrightarrow> upstream_intact w fs"
proof -
  assume "verify_upstream w fs = Inr ()"
  then obtain body manifest listed us where v: "read_text fs (UPSTREAM w @ [lit ''manifest.json'']) = Inr body"
    "json_loads_text (float_repr w) body = Inr manifest" "getitem manifest ''files'' = Inr (PDict listed)"
    "mapE (verify_file w fs) listed = Inr us"
    by (auto simp: verify_upstream_def bindE_eq_Inr dict_items_eq_Inr)
  have "\<forall>kv \<in> set listed. \<exists>u. verify_file w fs kv = Inr u" using v(4) unfolding mapE_ex_Inr [symmetric] by blast
  then have "list_all (\<lambda>(name, expected). \<exists>b. file_at fs (join_path (UPSTREAM w) name) = Some b \<and> expected = PStr (sha256 w b)) listed"
    by (fastforce simp: list_all_iff verify_file_def Let_def is_file_def digest_def read_bytes_def split: if_splits)
  with v(1-3) show "upstream_intact w fs" unfolding upstream_intact_def by blast
qed

text \<open>TLC ran the profile's model with the verified tools and reported the completion its mode requires.\<close>

definition profile_passed :: "outside \<Rightarrow> tlc_process \<Rightarrow> file_system \<Rightarrow> int \<Rightarrow> string \<Rightarrow> bool" where
  "profile_passed w tlc fs timeout profile \<longleftrightarrow> (\<exists>cp config extra inputs run. classpath w fs = Inr cp
     \<and> map_of profiles profile = Some (config, extra) \<and> copied_files w fs config = Inr inputs
     \<and> tlc (tlc_command cp (run_directory w fs (profile @ ''-'')) config extra ''RaftzMC.tla'') inputs timeout = Some run
     \<and> tlc_returncode run = 0
     \<and> (if extra \<noteq> [] then contains (lit ''100 traces generated'') (tlc_text run) \<and> contains (lit ''Simulation using seed'') (tlc_text run)
        else contains no_error_text (tlc_text run)))"

lemma conclude_check_eq_Inr:
  "conclude_check simulation run = Inr u \<longleftrightarrow> tlc_returncode run = 0
     \<and> (if simulation then contains (lit ''100 traces generated'') (tlc_text run) \<and> contains (lit ''Simulation using seed'') (tlc_text run)
        else contains no_error_text (tlc_text run))"
  by (auto simp: conclude_check_def)

lemma case_option_eq_Inr:
  "(case x of None \<Rightarrow> Inl e | Some y \<Rightarrow> f y) = Inr u \<longleftrightarrow> (\<exists>y. x = Some y \<and> f y = Inr u)"
  by (cases x) auto

lemma check_eq_Inr: "check w tlc fs profile timeout = Inr u \<longleftrightarrow> profile_passed w tlc fs timeout profile"
  unfolding check_def profile_passed_def bindE_eq_Inr case_option_eq_Inr split_paired_Ex prod.case conclude_check_eq_Inr
  by blast

section \<open>A small world\<close>

definition small_world :: outside where
  "small_world = \<lparr>root = [lit ''formal''], sha256 = (\<lambda>b. dec (length b)), float_repr = (\<lambda>t. lit ''1.0''),
     fetch = (\<lambda>url. Inr [1, 2, 3]),
     temp_name = (\<lambda>fs d. replicate (Suc (sum_list (map (\<lambda>(p, _). sum_list (map length p)) (fs_files fs)))) 120)\<rparr>"

lemma fresh_small_world: "fresh_names small_world"
  unfolding fresh_names_def
proof (intro allI impI)
  fix fs d p assume below: "below (d @ [temp_name small_world fs d]) p"
  let ?n = "sum_list (map (\<lambda>(p, _). sum_list (map length p)) (fs_files fs))"
  show "file_at fs p = None"
  proof (rule ccontr)
    assume "file_at fs p \<noteq> None"
    then obtain b where "(p, b) \<in> set (fs_files fs)" by (auto dest: map_of_SomeD)
    then have "sum_list (map length p) \<le> ?n"
      using member_le_sum_list [of "sum_list (map length p)" "map (\<lambda>(p, _). sum_list (map length p)) (fs_files fs)"] by force
    moreover obtain r where "p = d @ replicate (Suc ?n) 120 # r" using below by (auto simp: below_iff small_world_def)
    then have "Suc ?n \<le> sum_list (map length p)" by simp
    ultimately show False by simp
  qed
qed

definition small_lock :: pyval where
  "small_lock = mkdict [(''a.jar'', mkdict [(''url'', S ''https://example.org/a.jar''), (''sha256'', S ''3'')])]"

definition small_manifest :: pyval where
  "small_manifest = mkdict [(''revision'', S ''r1''), (''files'', mkdict [(''LICENSE'', S ''1'')])]"

definition small_files :: file_system where
  "small_files = \<lparr>fs_files =
     [([lit ''formal'', lit ''tools.lock.json''], dumps False small_lock),
      ([lit ''formal'', lit ''upstream'', lit ''etcd'', lit ''manifest.json''], dumps False small_manifest),
      ([lit ''formal'', lit ''upstream'', lit ''etcd'', lit ''LICENSE''], [1]),
      ([lit ''formal'', lit ''models'', lit ''RaftzMC.tla''], []),
      ([lit ''formal'', lit ''models'', lit ''SingleNode.cfg''], [])],
     fs_dirs = [[lit ''formal'']]\<rparr>"

lemma small_json: "json_ok fr small_lock" "json_ok fr small_manifest"
  by (simp_all add: small_lock_def small_manifest_def mkdict_def wf_pstr_lit)

lemma small_plain: "plain_name (lit ''a.jar'')"
  by (simp add: plain_name_def path_parts_def lit_def)

lemma small_tools:
  assumes "map_of (fs_files fs) [lit ''formal'', lit ''tools.lock.json''] = Some (dumps False small_lock)"
  shows "tools small_world fs = Inr small_lock"
  using assms text_of_dumps [OF small_json(1)] json_loads_text_dumps [OF small_json(1)]
  by (simp add: tools_def read_text_def read_bytes_def small_world_def)

lemma small_temp: "\<exists>n. temp_name small_world fs d = 120 # replicate n 120"
  by (auto simp: small_world_def)

lemma small_prepared: "fst (prepare small_world small_files) = Inr ()"
proof -
  let ?cache = "[lit ''.cache'', lit ''tla'']"
  have cache: "CACHE small_world = ?cache" by (simp add: CACHE_def small_world_def)
  obtain fs where fs: "mkdir_parents ?cache small_files = Inr fs" "fs_files fs = fs_files small_files" "?cache \<in> set (fs_dirs fs)"
      "?cache @ [lit ''a.jar''] \<notin> set (fs_dirs fs)" "\<And>x. ?cache @ [x, lit ''a.jar''] \<notin> set (fs_dirs fs)"
    by (simp add: mkdir_parents_def small_files_def is_file_def)
  have "tools small_world fs = Inr small_lock" by (rule small_tools) (simp add: fs(2) small_files_def)
  then have "prepare small_world small_files = prepare_all small_world
      [(lit ''a.jar'', mkdict [(''url'', S ''https://example.org/a.jar''), (''sha256'', S ''3'')])] fs"
    by (simp add: prepare_def cache fs(1) small_lock_def mkdict_def dict_items_def)
  moreover have "\<not> is_file fs (?cache @ [lit ''a.jar''])" by (simp add: is_file_def fs(2) small_files_def)
  moreover obtain n where "temp_name small_world fs ?cache = 120 # replicate n 120" using small_temp by blast
  then obtain t where t: "temp_name small_world fs ?cache = 120 # t" "t = replicate n 120" by simp
  have "120 # t \<noteq> lit ''a.jar''" by (simp add: lit_def)
  moreover have "sha256 small_world [1, 2, 3] = lit ''3''" "fetch small_world u = Inr [1, 2, 3]" for u
    by (simp_all add: small_world_def dec.simps lit_def)
  moreover have "list_all (list_all os_char) (?cache @ [120 # t, lit ''a.jar''])"
    by (auto simp: list_all_iff lit_def os_char_def is_surrogate_def t(2))
  ultimately show ?thesis
    using fs(3-5) small_plain
    by (simp add: prepare_artifact_def Let_def cache join_plain up_to_date_def dict_simps t(1) download_artifact_def write_file_def is_dir_def
        digest_def read_bytes_def replace_file_def put_file_def)
qed

section \<open>Properties\<close>

text \<open>
  C36: \<open>classpath\<close> succeeds exactly when every artifact of the lock file is in the cache with its
  pinned digest, and then names exactly those files, in the order of the lock file; a missing or
  changed file never reaches Java.
\<close>

theorem classpath_only_pinned:
  "classpath w fs = Inr cp \<longleftrightarrow> (\<exists>kvs. tools w fs = Inr (PDict kvs) \<and> list_all (pinned w fs) kvs
     \<and> cp = join [58] (map (\<lambda>kv. path_str (join_path (CACHE w) (fst kv))) kvs))"
  by (rule classpath_eq_Inr)

text \<open>
  C37: for a lock file whose names are plain file names (one path component, as those of
  tools.lock.json) and temporary directories that are new, \<open>prepare\<close> changes no file, whether it
  succeeds or raises, except that targets of the lock file may have received content with their
  pinned digest: a download that fails or has the wrong checksum leaves no trace.
\<close>

theorem prepare_installs_only_pinned:
  assumes "tools w fs = Inr (PDict kvs)" and "list_all (\<lambda>kv. plain_name (fst kv)) kvs" and "fresh_names w"
    and "prepare w fs = (r, fs')"
  shows "file_at fs' p = file_at fs p \<or> (\<exists>kv \<in> set kvs. p = join_path (CACHE w) (fst kv) \<and> pinned w fs' kv)"
  using prepare_installs(1) [OF assms] by (simp add: installed_def)

theorem prepare_installs_only_pinned_witness:
  "file_at (snd (prepare small_world small_files)) [lit ''.cache'', lit ''tla'', lit ''a.jar'']
      = file_at small_files [lit ''.cache'', lit ''tla'', lit ''a.jar'']
    \<or> (\<exists>kv \<in> set [(lit ''a.jar'', mkdict [(''url'', S ''https://example.org/a.jar''), (''sha256'', S ''3'')])].
        [lit ''.cache'', lit ''tla'', lit ''a.jar''] = join_path (CACHE small_world) (fst kv)
        \<and> pinned small_world (snd (prepare small_world small_files)) kv)"
proof (rule prepare_installs_only_pinned)
  show "tools small_world small_files
      = Inr (PDict [(lit ''a.jar'', mkdict [(''url'', S ''https://example.org/a.jar''), (''sha256'', S ''3'')])])"
    using small_tools [of small_files] by (simp add: small_files_def small_lock_def mkdict_def)
  show "prepare small_world small_files = (fst (prepare small_world small_files), snd (prepare small_world small_files))" by simp
qed (simp_all add: small_plain fresh_small_world)

text \<open>
  C38: under the same conditions, plain names in the lock file and new temporary directories,
  \<open>classpath\<close> returns after a successful \<open>prepare\<close>: the tools can be used.
\<close>

theorem prepare_then_classpath:
  assumes "tools w fs = Inr (PDict kvs)" and "list_all (\<lambda>kv. plain_name (fst kv)) kvs" and "fresh_names w"
    and "prepare w fs = (Inr (), fs')"
  shows "\<exists>cp. classpath w fs' = Inr cp"
  using prepare_installs(2,3) [OF assms] assms(1) by (auto simp: classpath_eq_Inr)

theorem prepare_then_classpath_witness:
  "\<exists>cp. classpath small_world (snd (prepare small_world small_files)) = Inr cp"
proof (rule prepare_then_classpath)
  show "tools small_world small_files
      = Inr (PDict [(lit ''a.jar'', mkdict [(''url'', S ''https://example.org/a.jar''), (''sha256'', S ''3'')])])"
    using small_tools [of small_files] by (simp add: small_files_def small_lock_def mkdict_def)
  show "prepare small_world small_files = (Inr (), snd (prepare small_world small_files))"
    using small_prepared by (cases "prepare small_world small_files") simp
qed (simp_all add: small_plain fresh_small_world)

text \<open>
  C39: exit status 0 of a baseline check means that the vendored specification matches its
  manifest, that every tool has its pinned digest, and that TLC ran the requested profile within
  the time limit and reported completion: without an error for the exhaustive profiles, the full
  number of traces for the simulation; \<open>smoke\<close> includes the exhaustive single-node profile.
\<close>

theorem baseline_exit_zero:
  assumes "exit_status w tlc action timeout fs = 0" and "action \<in> {''smoke'', ''single'', ''model''}"
  shows "0 < timeout \<and> upstream_intact w fs
    \<and> (\<exists>kvs. tools w fs = Inr (PDict kvs) \<and> list_all (pinned w fs) kvs)
    \<and> list_all (profile_passed w tlc fs timeout) (if action = ''smoke'' then [''single'', ''smoke''] else [action])"
proof -
  obtain u where run: "fst (main w tlc action timeout fs) = Inr u" and t: "0 < timeout"
    using assms(1) by (auto simp: exit_status_def split: if_splits sum.splits)
  have act: "action \<noteq> ''prepare'' \<and> action \<noteq> ''verify''" using assms(2) by auto
  then have v: "verify_upstream w fs = Inr ()" using run by (auto simp: main_def split: sum.splits)
  then have "bindE (if action = ''smoke'' then check w tlc fs ''single'' timeout else Inr ()) (\<lambda>_. check w tlc fs action timeout) = Inr u"
    using run act by (simp add: main_def)
  then have passed: "list_all (profile_passed w tlc fs timeout) (if action = ''smoke'' then [''single'', ''smoke''] else [action])"
    by (auto simp: bindE_eq_Inr check_eq_Inr split: if_splits)
  then obtain cp where "classpath w fs = Inr cp" by (auto simp: profile_passed_def split: if_splits)
  then show ?thesis using t passed verify_upstream_intact [OF v] by (auto simp: classpath_eq_Inr)
qed

definition cached_files :: file_system where
  "cached_files = small_files\<lparr>fs_files := ([lit ''.cache'', lit ''tla'', lit ''a.jar''], [1, 2, 3]) # fs_files small_files\<rparr>"

definition passing_tlc :: tlc_process where
  "passing_tlc command inputs timeout = Some \<lparr>tlc_returncode = 0, tlc_text = no_error_text, tlc_witness = None\<rparr>"

lemma small_consts:
  "sha256 small_world [1, 2, 3] = lit ''3''" "sha256 small_world [1] = lit ''1''"
  "CACHE small_world = [lit ''.cache'', lit ''tla'']"
  "UPSTREAM small_world = [lit ''formal'', lit ''upstream'', lit ''etcd'']"
  by (simp_all add: small_world_def CACHE_def UPSTREAM_def dec.simps lit_def)

lemma small_classpath:
  assumes "file_at fs [lit ''formal'', lit ''tools.lock.json''] = Some (dumps False small_lock)"
    and "file_at fs [lit ''.cache'', lit ''tla'', lit ''a.jar''] = Some [1, 2, 3]"
  shows "classpath small_world fs = Inr (path_str [lit ''.cache'', lit ''tla'', lit ''a.jar''])"
proof -
  have "pinned small_world fs (lit ''a.jar'', mkdict [(''url'', S ''https://example.org/a.jar''), (''sha256'', S ''3'')])"
    using small_consts assms(2) by (simp add: pinned_def join_plain small_plain dict_simps)
  then show ?thesis using small_tools [OF assms(1)]
    by (simp add: classpath_eq_Inr small_lock_def mkdict_def join_plain small_plain small_consts(3))
qed

lemma small_verify:
  assumes "file_at fs [lit ''formal'', lit ''upstream'', lit ''etcd'', lit ''manifest.json''] = Some (dumps False small_manifest)"
    and "file_at fs [lit ''formal'', lit ''upstream'', lit ''etcd'', lit ''LICENSE''] = Some [1]"
  shows "verify_upstream small_world fs = Inr ()"
proof -
  have "plain_name (lit ''LICENSE'')" by (simp add: plain_name_def path_parts_def lit_def)
  then have "verify_file small_world fs (lit ''LICENSE'', S ''1'') = Inr ()"
    using small_consts assms(2) by (simp add: verify_file_def Let_def join_plain is_file_def digest_def read_bytes_def)
  moreover have "read_text fs (UPSTREAM small_world @ [lit ''manifest.json'']) = Inr (dumps False small_manifest)"
    using text_of_dumps [OF small_json(2)] assms(1) by (simp add: small_consts(4) read_text_def read_bytes_def)
  moreover have "json_loads_text (float_repr small_world) (dumps False small_manifest) = Inr small_manifest"
    using json_loads_text_dumps [OF small_json(2)] .
  moreover have "getitem small_manifest ''files'' = Inr (PDict [(lit ''LICENSE'', S ''1'')])"
      "getitem small_manifest ''revision'' = Inr (S ''r1'')"
    by (simp_all add: small_manifest_def dict_simps) (simp add: mkdict_def)
  ultimately show ?thesis by (simp add: verify_upstream_def dict_items_def)
qed

lemma cached_passes: "exit_status small_world passing_tlc ''single'' 120 cached_files = 0"
proof -
  have "verify_upstream small_world cached_files = Inr ()"
    by (rule small_verify) (simp_all add: cached_files_def small_files_def)
  moreover have "classpath small_world cached_files = Inr (path_str [lit ''.cache'', lit ''tla'', lit ''a.jar''])"
    by (rule small_classpath) (simp_all add: cached_files_def small_files_def)
  moreover have "copied_files small_world cached_files ''SingleNode.cfg'' = Inr [(lit ''SingleNode.cfg'', []), (lit ''RaftzMC.tla'', [])]"
    by (simp add: copied_files_def cached_files_def small_files_def tla_entry_def UPSTREAM_def small_world_def read_bytes_def ends_with_def)
  moreover have "contains no_error_text no_error_text" unfolding contains_iff by (metis append_Nil append_Nil2)
  ultimately show ?thesis
    by (simp add: exit_status_def actions_def main_def check_def profiles_def passing_tlc_def conclude_check_def)
qed

theorem baseline_exit_zero_witness:
  "0 < (120 :: int) \<and> upstream_intact small_world cached_files
    \<and> (\<exists>kvs. tools small_world cached_files = Inr (PDict kvs) \<and> list_all (pinned small_world cached_files) kvs)
    \<and> profile_passed small_world passing_tlc cached_files 120 ''single''"
  using baseline_exit_zero [OF cached_passes] by simp

end
