(* ===== verification/Json_Indent.thy ===== *)
theory Json_Indent
  imports Tools_Facts
begin

text \<open>
  \<open>json.dumps(value, indent=2)\<close>, the layout of the artifacts the checkers write and read again, and
  that \<open>json.loads\<close> reads it back.
\<close>

section \<open>Printing with indentation\<close>

definition line_start :: "nat \<Rightarrow> pstr" where
  "line_start n = 10 # replicate (2 * n) 32"

fun indented :: "nat \<Rightarrow> pyval \<Rightarrow> pstr" where
  "indented n (PList xs) =
     (if xs = [] then [91, 93]
      else 91 # line_start (Suc n) @ join (44 # line_start (Suc n)) (map (indented (Suc n)) xs) @ line_start n @ [93])"
| "indented n (PDict kvs) =
     (if kvs = [] then [123, 125]
      else 123 # line_start (Suc n)
        @ join (44 # line_start (Suc n)) (map (\<lambda>(k, v). json_string k @ [58, 32] @ indented (Suc n) v) kvs)
        @ line_start n @ [125])"
| "indented n v = dumps False v"

lemma line_start_space: "list_all is_space (line_start n)" "delim (line_start n @ r)"
  by (simp_all add: line_start_def list_all_iff is_space_def)

lemma indented_head_exists:
  assumes "json_ok fr v"
  shows "\<exists>c t. indented n v = c # t \<and> \<not> is_space c \<and> c \<noteq> 93"
proof -
  obtain c t where c: "dumps False v = c # t" "\<not> is_space c" "c \<notin> {93, 125, 44}" using assms by (rule dumps_head)
  show ?thesis
  proof (cases v)
    case (PList xs)
    then show ?thesis by (cases xs) (simp_all add: is_space_def)
  next
    case (PDict kvs)
    then show ?thesis by (cases kvs) (simp_all add: is_space_def)
  qed (use c in auto)
qed

lemma indented_head:
  assumes "json_ok fr v"
  obtains c t where "indented n v = c # t" and "\<not> is_space c" and "c \<noteq> 93"
  using indented_head_exists [OF assms] by blast

lemma opens_indented: "json_ok fr v \<Longrightarrow> opens (indented n v)"
  using indented_head_exists [of fr v n] by (auto simp: opens_iff)

context pairs_hook
begin

lemma scan_value_indented:
  assumes "json_ok fr v" and "delim r"
  shows "scan_value (hook, fr) (indented n v @ r) = Inr (v, r)"
  using assms
proof (induction v arbitrary: r n)
  case (PList xs)
  show ?case
  proof (cases xs)
    case Nil
    then show ?thesis by (simp add: scan_value_Cons lit_codes is_space_def)
  next
    case (Cons x ys)
    let ?body = "join (44 # line_start (Suc n)) (map (indented (Suc n)) xs) @ line_start n @ 93 # r"
    have "json_ok fr x" using PList.prems(1) Cons by simp
    then obtain c t where "indented (Suc n) x = c # t" "\<not> is_space c" "c \<noteq> 93" by (rule indented_head)
    then obtain t' where body: "?body = c # t'" "\<not> is_space c" "c \<noteq> 93" using Cons by (cases ys) simp_all
    have "scan_elements (hook, fr) [] ?body = Inr ([] @ xs, r)"
    proof (rule scan_elements_text)
      show "opens (indented (Suc n) v)" if "v \<in> set xs" for v
        using PList.prems(1) that by (auto simp: list_all_iff intro: opens_indented)
      show "scan_value (hook, fr) (indented (Suc n) v @ q) = Inr (v, q)" if "v \<in> set xs" "delim q" for v q
        using PList.IH [OF that(1) _ that(2)] PList.prems(1) that(1) by (simp add: list_all_iff)
    qed (use Cons line_start_space in simp_all)
    then show ?thesis using body Cons line_start_space(1) by (simp add: scan_value_Cons skip_spaces)
  qed
next
  case (PDict kvs)
  show ?case
  proof (cases kvs)
    case Nil
    then show ?thesis by (simp add: scan_value_Cons lit_codes is_space_def hook_distinct)
  next
    case (Cons kv kvs')
    let ?body = "join (44 # line_start (Suc n)) (map (\<lambda>(k, v). json_string k @ [58, 32] @ indented (Suc n) v) kvs) @ line_start n @ 125 # r"
    obtain t' where body: "?body = 34 # t'" using Cons by (cases kv; cases kvs') (simp_all add: json_string_def)
    have "scan_members (hook, fr) [] ?body = Inr ([] @ kvs, r)"
    proof (rule scan_members_text)
      show "wf_pstr k \<and> opens (indented (Suc n) v)" if "(k, v) \<in> set kvs" for k v
        using PDict.prems(1) that by (auto simp: list_all_iff intro: opens_indented)
      show "scan_value (hook, fr) (indented (Suc n) v @ q) = Inr (v, q)" if "(k, v) \<in> set kvs" "delim q" for k v q
        using PDict.IH [of "(k, v)" v q] PDict.prems(1) that by (auto simp: list_all_iff)
    qed (use Cons line_start_space in simp_all)
    moreover have "hook kvs = Inr (PDict kvs)" using PDict.prems(1) by (simp add: hook_distinct)
    moreover have "indented n (PDict kvs) @ r = 123 # line_start (Suc n) @ ?body"
      using Cons by (simp only: indented.simps append_Cons append_assoc append_Nil) simp
    ultimately show ?thesis using body line_start_space(1) by (simp add: scan_value_Cons skip_spaces is_space_def)
  qed
qed (simp_all add: scan_value_dumps del: dumps.simps)

end

section \<open>Reading it back\<close>

lemma join_chars: "c \<in> set (join sep ts) \<Longrightarrow> c \<in> set sep \<or> (\<exists>t \<in> set ts. c \<in> set t)"
  by (induction sep ts rule: join.induct) auto

lemma line_start_ascii: "c \<in> set (line_start n) \<Longrightarrow> c = 10 \<or> c = 32"
  by (auto simp: line_start_def)

lemma indented_ascii: "json_ok fr v \<Longrightarrow> c \<in> set (indented n v) \<Longrightarrow> c = 10 \<or> 32 \<le> c \<and> c < 128"
proof (induction v arbitrary: n)
  case (PList xs)
  then show ?case
    by (auto simp: list_all_iff dest!: join_chars line_start_ascii split: if_splits)
next
  case (PDict kvs)
  then show ?case
    by (fastforce simp: list_all_iff dest!: join_chars line_start_ascii dest: json_string_ascii split: if_splits)
qed (use dumps_ascii in \<open>fastforce simp del: dumps.simps\<close>)+

lemma plain_utf8_ascii: "(\<And>c. c \<in> set s \<Longrightarrow> 0 < c \<and> c < 128) \<Longrightarrow> plain_utf8 s"
proof -
  assume s: "\<And>c. c \<in> set s \<Longrightarrow> 0 < c \<and> c < 128"
  have nz: "s ! i \<noteq> 0" if "i < length s" for i using s [OF nth_mem [OF that]] by linarith
  have "\<not> starts_with (b # p) s" if "128 \<le> b" for b p
    using s that by (cases s) fastforce+
  moreover have "s ! 0 \<noteq> 0 \<and> s ! 1 \<noteq> 0" if "2 \<le> length s" using nz [of 0] nz [of 1] that by linarith
  ultimately show ?thesis by (simp add: plain_utf8_def)
qed

lemma json_loads_indented:
  assumes "json_ok fr v"
  shows "json_loads fr od (indented n v @ [10]) = Inr v"
proof -
  have ascii: "0 < c \<and> c < 128" if "c \<in> set (indented n v @ [10])" for c
    using indented_ascii [OF assms, of c n] that by auto
  then have "plain_utf8 (indented n v @ [10])" "decode_utf8 (indented n v @ [10]) = Inr (indented n v @ [10])"
    using plain_utf8_ascii decode_utf8_ascii by blast+
  moreover obtain c t where "indented n v = c # t" "\<not> is_space c" using assms by (rule indented_head)
  then have "skip (indented n v @ [10]) = indented n v @ [10]" by simp
  moreover have "scan_value (unique_object, fr) (indented n v @ [10]) = Inr (v, [10])"
    using unique.scan_value_indented [OF assms] by simp
  ultimately show ?thesis by (simp add: json_loads_def decode_text_def is_space_def)
qed

section \<open>With and without the hook\<close>

text \<open>What is read with \<open>unique_object\<close> is read the same without a hook.\<close>

lemma plain_unique: "unique_object kvs = Inr v \<Longrightarrow> plain_object kvs = Inr v"
  by (auto simp: unique_object_eq_Inr plain.hook_distinct)

lemma scan_plain:
  shows "p = (unique_object, fr) \<Longrightarrow> scan_value p s = Inr x \<Longrightarrow> scan_value (plain_object, fr) s = Inr x"
    and "p' = (unique_object, fr) \<Longrightarrow> scan_elements p' xs s' = Inr y \<Longrightarrow> scan_elements (plain_object, fr) xs s' = Inr y"
    and "p'' = (unique_object, fr) \<Longrightarrow> scan_members p'' kvs s'' = Inr z \<Longrightarrow> scan_members (plain_object, fr) kvs s'' = Inr z"
proof (induction p s and p' xs s' and p'' kvs s'' arbitrary: x and y and z rule: scan_value_scan_elements_scan_members.induct)
  case (1 p s)
  show ?case
  proof (cases s)
    case (Cons c r)
    then show ?thesis using "1.prems" "1.IH"(1) [OF Cons] "1.IH"(2) [OF Cons]
      by (cases "skip r") (fastforce simp: scan_value.simps bindE_eq_Inr json_error_def plain_unique split: if_splits)+
  qed (use "1.prems" in \<open>simp add: scan_value.simps json_error_def\<close>)
next
  case (2 p xs s)
  then obtain v q where v: "scan_value p s = Inr (v, q)" by (auto simp: scan_elements.simps bindE_eq_Inr)
  note scanned = "2.IH"(1) [OF "2.prems"(1) v]
  obtain d t where d: "skip q = d # t" using "2.prems" v by (cases "skip q") (auto simp: scan_elements.simps json_error_def)
  show ?case using "2.prems"(2) v scanned d "2.IH"(2) [OF v refl d _ _ _ "2.prems"(1)]
    by (auto simp: scan_elements.simps json_error_def split: if_splits)
next
  case (3 p kvs s)
  obtain c q where s: "s = c # q" using "3.prems" by (cases s) (auto simp: scan_members.simps json_error_def)
  have c: "c = 34" using "3.prems" s by (auto simp: scan_members.simps json_error_def split: if_splits)
  obtain k r1 where k: "scan_string q = Inr (k, r1)" using "3.prems" s c by (auto simp: scan_members.simps bindE_eq_Inr)
  obtain d r2 where d: "skip r1 = d # r2" using "3.prems" s c k by (cases "skip r1") (auto simp: scan_members.simps json_error_def)
  have colon: "d = 58" using "3.prems" s c k d by (auto simp: scan_members.simps json_error_def split: if_splits)
  have r2: "length (skip r2) < length s" using "3.prems" s c k d colon by (auto simp: scan_members.simps json_error_def split: if_splits)
  obtain v r3 where v: "scan_value p (skip r2) = Inr (v, r3)"
    using "3.prems" s c k d colon r2 by (auto simp: scan_members.simps bindE_eq_Inr)
  have scanned: "scan_value (plain_object, fr) (skip r2) = Inr (v, r3)"
    using "3.IH"(1) [OF s _ k refl d _ r2 "3.prems"(1) v] c colon by simp
  obtain d' t where t: "skip r3 = d' # t"
    using "3.prems" s c k d colon r2 v by (cases "skip r3") (auto simp: scan_members.simps json_error_def)
  show ?case using "3.prems"(2) s c k d colon r2 v t scanned "3.IH"(2) [OF s _ k refl d _ r2 v refl t _ _ _ "3.prems"(1)]
    by (auto simp: scan_members.simps json_error_def split: if_splits)
qed

text \<open>A file read as bytes with the hook, and as text without one.\<close>

lemma loads_as_text:
  assumes loaded: "json_loads fr od b = Inr v" and plain: "plain_utf8 b" and t: "text_of b = Inr t" and "13 \<notin> set b"
  shows "json_loads_text fr t = Inr v"
proof -
  obtain s where s: "decode_utf8 b = Inr s" "t = universal_newlines s" using t by (auto simp: text_of_def bindE_eq_Inr split: if_splits)
  have b: "b = concat (map utf8_pass s)" using s(1) by (auto simp: decode_utf8_def Let_def split: if_splits)
  have "utf8_pass 13 = [13]" by (simp add: utf8_pass_def is_surrogate_def utf8_char_ascii)
  then have "13 \<in> set b" if "13 \<in> set s" unfolding b using that by (auto intro!: bexI [of _ 13])
  then have "13 \<notin> set s" using assms(4) by blast
  then have "t = s" using s(2) universal_newlines_id by simp
  moreover have "\<not> starts_with [0xFEFF] s"
  proof
    assume "starts_with [0xFEFF] s"
    then obtain r where r: "s = 0xFEFF # r" by (auto simp: starts_with_iff)
    have "utf8_pass 0xFEFF = [0xEF, 0xBB, 0xBF]" by (simp add: utf8_pass_def is_surrogate_def utf8_char_def)
    then have "b = [0xEF, 0xBB, 0xBF] @ concat (map utf8_pass r)" unfolding b r by simp
    then have "starts_with [0xEF, 0xBB, 0xBF] b" unfolding starts_with_iff by blast
    then show False using plain by (simp add: plain_utf8_def)
  qed
  moreover have "decode_text (plain_object, fr) s = Inr v"
  proof -
    have "decode_text (unique_object, fr) s = Inr v" using loaded plain s(1) by (simp add: json_loads_def)
    then obtain r where r: "scan_value (unique_object, fr) (skip s) = Inr (v, r)" "skip r = []"
      by (auto simp: decode_text_def bindE_eq_Inr json_error_def split: if_splits)
    then show ?thesis using scan_plain(1) [OF refl r(1)] by (simp add: decode_text_def)
  qed
  ultimately show ?thesis by (simp add: json_loads_text_def)
qed

end
