(* ===== verification/Trace_Instructions.thy ===== *)
theory Trace_Instructions
  imports Trace_Facts
begin

text \<open>
  The instructions of a trace: one group of steps per event, the sends as the requests of the
  pending bag the previous one does not account for, and which loaded traces are translated and
  with which error the others are refused.  At the end the properties of the trace checker, with a
  small accepted trace as their witness.
\<close>

section \<open>Instructions\<close>

text \<open>A step carries the node and number of its event and the fixed bound.\<close>

definition step_record :: "pyval \<Rightarrow> string \<Rightarrow> (string \<times> pyval) list \<Rightarrow> pyval" where
  "step_record e op kw = mkdict ([(''op'', S op), (''node'', item e ''node''), (''event'', item e ''seq''), (''bound'', PInt 36)] @ kw)"

lemma add_step_eq_Inr:
  "add_step e op kw = Inr s \<longleftrightarrow> (\<exists>n q. getitem e ''node'' = Inr n \<and> getitem e ''seq'' = Inr q) \<and> s = step_record e op kw"
  by (auto simp: add_step_def step_record_def bindE_eq_Inr item_def)

definition is_step :: "pyval \<Rightarrow> string set \<Rightarrow> pyval \<Rightarrow> bool" where
  "is_step e ops s \<longleftrightarrow> (\<exists>op kw. op \<in> ops \<and> s = step_record e op kw)"

lemma add_steps_is_step:
  "add_steps e ops = Inr ss \<Longrightarrow> fst ` set ops \<subseteq> names \<Longrightarrow> list_all (is_step e names) ss"
  by (induction ops arbitrary: ss) (auto simp: add_steps_def bindE_eq_Inr add_step_eq_Inr is_step_def, blast)

definition model_ops :: "string set" where
  "model_ops = {''timeout'', ''selfVote'', ''client'', ''receive'', ''leader'', ''commit'', ''selfAck'', ''persist'',
     ''release'', ''restart'', ''drop'', ''duplicate''}"

lemma kind_steps_is_step: "kind_steps e kind prior after = Inr ss \<Longrightarrow> list_all (is_step e model_ops) ss"
  unfolding kind_steps_def
  by (auto simp: bindE_eq_Inr split: if_splits elim!: add_steps_is_step) (auto simp: model_ops_def)

subsection \<open>Sends\<close>

text \<open>The messages a multiset of old ones does not account for.\<close>

fun fresh :: "pstr multiset \<Rightarrow> pyval list \<Rightarrow> pyval list" where
  "fresh old [] = []"
| "fresh old (m # ms) = (if key m \<in># old then fresh (old - {#key m#}) ms else m # fresh old ms)"

lemma mset_fresh: "mset (map key (fresh old ms)) = mset (map key ms) - old"
proof (induction old ms rule: fresh.induct)
  case (2 old m ms)
  then show ?case by (auto simp: add_mset_diff_bothsides dest!: multi_member_split)
qed simp

definition is_request :: "pyval \<Rightarrow> bool" where
  "is_request m \<longleftrightarrow> in_tuple (item m ''mtype'') [''RequestVoteRequest'', ''AppendEntriesRequest'']"

definition send_ok :: "pyval \<Rightarrow> pyval \<Rightarrow> pyval \<Rightarrow> bool" where
  "send_ok kind node m \<longleftrightarrow> getitem m ''msource'' = Inr node
     \<and> is_lit (item m ''mtype'') (if is_lit kind ''campaign'' then ''RequestVoteRequest'' else ''AppendEntriesRequest'')
     \<and> (is_lit kind ''beat'' \<longrightarrow> getitem m ''msubtype'' = Inr (S ''heartbeat''))"

lemma send_step_eq_Inr:
  assumes "send_step e kind node (old, steps) m = Inr st"
  shows "if key m \<in># old then st = (old - {#key m#}, steps)
    else if is_request m then st = (old, steps @ [step_record e ''send'' [(''msg'', m)]]) \<and> send_ok kind node m
    else st = (old, steps)"
  using assms unfolding send_step_def Let_def
  by (auto simp: bindE_eq_Inr require_eq_Inr add_step_eq_Inr is_request_def send_ok_def item_def is_lit_def split: if_splits)

lemma send_loop:
  assumes "foldE (send_step e kind node) (old, steps) ms = Inr st"
  shows "snd st = steps @ map (\<lambda>m. step_record e ''send'' [(''msg'', m)]) (filter is_request (fresh old ms))
    \<and> list_all (send_ok kind node) (filter is_request (fresh old ms))"
  using assms
proof (induction ms arbitrary: old steps)
  case (Cons m ms)
  then obtain st' where step: "send_step e kind node (old, steps) m = Inr st'"
    and rest: "foldE (send_step e kind node) st' ms = Inr st" by (auto simp: bindE_eq_Inr)
  from send_step_eq_Inr [OF step] rest show ?case
    by (auto dest!: Cons.IH split: if_splits)
qed auto

lemma is_step_mono: "is_step e ops s \<Longrightarrow> ops \<subseteq> ops' \<Longrightarrow> is_step e ops' s"
  by (auto simp: is_step_def)

lemma sends_eq:
  assumes "sends e kind node previous expected = Inr ss"
    and "in_tuple kind [''campaign'', ''propose'', ''receive'', ''advance'', ''beat'']"
  obtains p prior old pending where "previous = Some p" and "getitem p ''pending'' = Inr prior"
    and "mapE message (the_list prior) = Inr old" and "getitem expected ''pending'' = Inr pending"
    and "ss = map (\<lambda>m. step_record e ''send'' [(''msg'', m)]) (filter is_request (fresh (mset (map key old)) (the_list pending)))"
    and "list_all (send_ok kind node) (filter is_request (fresh (mset (map key old)) (the_list pending)))"
proof (cases previous)
  case None
  with assms show thesis by (simp add: sends_def)
next
  case (Some p)
  with assms obtain prior old pending st where "getitem p ''pending'' = Inr prior" "mapE message (the_list prior) = Inr old"
    "getitem expected ''pending'' = Inr pending"
    and loop: "foldE (send_step e kind node) (mset (map key old), []) (the_list pending) = Inr st" and "ss = snd st"
    by (auto simp: sends_def bindE_eq_Inr)
  moreover note send_loop [OF loop]
  ultimately show thesis using Some that by (metis append_Nil)
qed

lemma sends_is_step: "sends e kind node previous expected = Inr ss \<Longrightarrow> list_all (is_step e {''send''}) ss"
proof (cases "in_tuple kind [''campaign'', ''propose'', ''receive'', ''advance'', ''beat'']")
  case True
  assume "sends e kind node previous expected = Inr ss"
  then obtain ms where "ss = map (\<lambda>m. step_record e ''send'' [(''msg'', m)]) ms" using True by (rule sends_eq)
  then show ?thesis by (auto simp: list_all_iff is_step_def)
qed (auto simp: sends_def)

subsection \<open>The steps of an event and of a trace\<close>

definition check_step :: "pyval \<Rightarrow> pyval \<Rightarrow> pyval" where
  "check_step e out = step_record e ''check'' [(''expected'', out)]"

lemma event_steps_eq_Inr:
  assumes "event_steps previous e = Inr new"
  obtains out steps where "observation e = Inr out" and "new = steps @ [check_step e out]"
    and "list_all (is_step e (insert ''send'' model_ops)) steps"
proof -
  obtain out kind node prior after steps sent where out: "observation e = Inr out"
    and steps: "kind_steps e kind prior after = Inr steps" and sent: "sends e kind node previous out = Inr sent"
    and new: "new = steps @ sent @ [check_step e out]"
    using assms by (auto simp: event_steps_def bindE_eq_Inr add_step_eq_Inr check_step_def)
  have "list_all (is_step e (insert ''send'' model_ops)) (steps @ sent)"
    using kind_steps_is_step [OF steps] sends_is_step [OF sent] is_step_mono
    by (auto simp: list_all_iff) blast+
  with out new show thesis by (intro that [of out "steps @ sent"]) simp_all
qed

text \<open>The instructions are the steps of the events, one group per event, each with the event before it.\<close>

fun step_groups :: "pyval option \<Rightarrow> pyval list \<Rightarrow> pyval list list res" where
  "step_groups previous [] = Inr []"
| "step_groups previous (e # es) =
     bindE (event_steps previous e) (\<lambda>g. bindE (step_groups (Some e) es) (\<lambda>gs. Inr (g # gs)))"

lemma instruction_loop:
  "bindE (foldE instruction_step (previous, steps) events) (\<lambda>st. Inr (snd st)) =
     bindE (step_groups previous events) (\<lambda>gs. Inr (steps @ concat gs))"
proof (induction events arbitrary: previous steps)
  case (Cons e es)
  show ?case
  proof (cases "event_steps previous e")
    case (Inr g)
    then show ?thesis using Cons.IH [of "Some e" "steps @ g"] by (simp add: instruction_step_def bindE_assoc)
  qed (simp add: instruction_step_def)
qed simp

lemma instructions_groups: "instructions events = bindE (step_groups None events) (\<lambda>gs. Inr (concat gs))"
  using instruction_loop [of None "[]" events] by (simp add: instructions_def)

lemma step_groups_nth:
  assumes "step_groups previous events = Inr gs"
  shows "length gs = length events \<and> (\<forall>i < length events.
    event_steps (if i = 0 then previous else Some (events ! (i - 1))) (events ! i) = Inr (gs ! i))"
  using assms
proof (induction events arbitrary: previous gs)
  case (Cons e es)
  then obtain g gs' where g: "event_steps previous e = Inr g" and gs: "step_groups (Some e) es = Inr gs'" "gs = g # gs'"
    by (auto simp: bindE_eq_Inr)
  show ?case using Cons.IH [OF gs(1)] g gs(2) by (auto simp: nth_Cons split: nat.splits)
qed simp

subsection \<open>The verdict on a loaded trace\<close>

text \<open>The refusals of \<open>instructions\<close>: a new request that its event does not allow.\<close>

definition send_errors :: "exc set" where
  "send_errors = ValueError ` {''Send from wrong node'', ''Unsupported campaign send'', ''Unsupported replication send'',
     ''Unsupported heartbeat send''}"

text \<open>A computation that returns exactly under the given condition and is refused for a send otherwise.\<close>

definition returns_iff :: "bool \<Rightarrow> 'a res \<Rightarrow> bool" where
  "returns_iff allowed m \<longleftrightarrow> (if allowed then \<exists>x. m = Inr x else \<exists>e \<in> send_errors. m = Inl e)"

lemma returns_iff_bind:
  assumes "returns_iff a m" and "\<And>x. m = Inr x \<Longrightarrow> returns_iff b (f x)"
  shows "returns_iff (a \<and> b) (bindE m f)"
  using assms by (auto simp: returns_iff_def split: if_splits)

lemma add_steps_total:
  assumes "getitem e ''node'' = Inr n" and "getitem e ''seq'' = Inr q"
  shows "\<exists>s. add_step e op kw = Inr s" and "\<exists>ss. add_steps e ops = Inr ss"
  unfolding add_steps_def mapE_ex_Inr using assms by (auto simp: add_step_def)

lemma message_record_getitem:
  assumes "v_kind v \<in> fst ` set MESSAGE_TYPES"
  shows "\<exists>t. getitem (message_record v) ''mtype'' = Inr (S t)
      \<and> (t = ''AppendEntriesRequest'' \<longrightarrow> (\<exists>s. getitem (message_record v) ''msubtype'' = Inr s))"
    and "getitem (message_record v) ''msource'' = Inr (PInt (v_from v))"
  using assms by (auto simp: MESSAGE_TYPES_def message_record_def dict_simps)

lemma send_step_verdict:
  assumes "message m' = Inr m" and "getitem e ''node'' = Inr n" and "getitem e ''seq'' = Inr q"
    and "key m \<notin># old" and "is_request m"
  shows "returns_iff (send_ok kind node m) (send_step e kind node (old, steps) m)"
proof -
  obtain v where v: "message_shows m' v" "m = message_record v" using assms(1) by (auto simp: message_eq_Inr)
  then have known: "v_kind v \<in> fst ` set MESSAGE_TYPES" by (simp add: message_shows_def)
  obtain t where t: "getitem m ''mtype'' = Inr (S t)"
      "t = ''AppendEntriesRequest'' \<longrightarrow> (\<exists>s. getitem m ''msubtype'' = Inr s)"
    using message_record_getitem(1) [OF known] v(2) by blast
  note src = message_record_getitem(2) [OF known, folded v(2)]
  have req: "t = ''RequestVoteRequest'' \<or> t = ''AppendEntriesRequest''"
    using assms(5) t(1) by (simp add: is_request_def item_def)
  obtain s where add: "add_step e ''send'' [(''msg'', m)] = Inr s" using add_steps_total(1) [OF assms(2,3)] by blast
  have "\<not> (is_lit kind ''campaign'' \<and> is_lit kind ''beat'')" by (auto simp: is_lit_def)
  then show ?thesis
    using req t(2) assms(4) add
    by (auto simp: send_step_def Let_def t(1) src returns_iff_def send_ok_def item_def require_def guardE_def send_errors_def is_lit_def)
qed

lemma send_loop_verdict:
  assumes "getitem e ''node'' = Inr n" and "getitem e ''seq'' = Inr q" and "\<And>m. m \<in> set ms \<Longrightarrow> \<exists>m'. message m' = Inr m"
  shows "returns_iff (list_all (send_ok kind node) (filter is_request (fresh old ms))) (foldE (send_step e kind node) (old, steps) ms)"
  using assms(3)
proof (induction ms arbitrary: old steps)
  case (Cons m ms)
  obtain m' where m': "message m' = Inr m" using Cons.prems by auto
  then have "\<exists>t. getitem m ''mtype'' = Inr (S t)"
    using message_record_getitem(1) by (fastforce simp: message_eq_Inr message_shows_def)
  then obtain t where t: "getitem m ''mtype'' = Inr (S t)" by blast
  have ih: "returns_iff (list_all (send_ok kind node) (filter is_request (fresh o' ms))) (foldE (send_step e kind node) (o', s') ms)" for o' s'
    using Cons by simp
  consider (known) "key m \<in># old" | (other) "key m \<notin># old" "\<not> is_request m" | (new) "key m \<notin># old" "is_request m" by blast
  then show ?case
  proof cases
    case new
    have "returns_iff (list_all (send_ok kind node) (filter is_request (fresh old ms))) (foldE (send_step e kind node) st ms)"
      if "send_step e kind node (old, steps) m = Inr st" for st
      using send_step_eq_Inr [OF that] new ih by auto
    from returns_iff_bind [OF send_step_verdict [OF m' assms(1,2) new] this] show ?thesis using new by simp
  next
    case known
    then have "send_step e kind node (old, steps) m = Inr (old - {#key m#}, steps)" by (simp add: send_step_def)
    then show ?thesis using known ih by simp
  next
    case other
    then have "send_step e kind node (old, steps) m = Inr (old, steps)" by (simp add: send_step_def t is_request_def item_def)
    then show ?thesis using other ih by simp
  qed
qed (simp add: returns_iff_def)

lemma node_state_role: "node_state s = Inr out \<Longrightarrow> \<exists>role. getitem s ''role'' = Inr role"
  by (auto simp: node_state_def bindE_eq_Inr)

lemma observed_state:
  assumes "observation e = Inr out" and "n \<in> peers"
  obtains s role where "node_of e n = Inr s" and "getitem s ''role'' = Inr role"
proof -
  obtain ss sts where ss: "getitem e ''states'' = Inr (PList ss)" "length ss = 3" "mapE node_state ss = Inr sts"
    using assms(1) by (auto simp: observation_eq_Inr observe_states_eq_Inr)
  have n: "0 < n" "n \<le> int (length ss)" using assms(2) ss(2) by (auto simp: peers_def)
  have "nat (n - 1) < length ss" using n by linarith
  then obtain role where "getitem (ss ! nat (n - 1)) ''role'' = Inr role"
    using mapE_nth [OF ss(3)] node_state_role by blast
  moreover have "node_of e n = Inr (ss ! nat (n - 1))" using ss(1) n by (simp add: node_of_def)
  ultimately show thesis using that by blast
qed

lemma proposal_context_payload:
  assumes "observe_context e = Inr c"
  shows "\<exists>pc h. dict_get e ''proposal_context'' (S '''') = Inr pc \<and> payload pc = Inr h"
proof (cases c)
  case True
  then show ?thesis using assms by (auto simp: observe_context_eq_Inr dict_get_def getitem_eq_Inr)
next
  case False
  obtain kvs where e: "e = PDict kvs" using assms by (auto simp: observe_context_eq_Inr fields_eq_Inr)
  have "map_of kvs (lit ''proposal_context'') = None"
    using assms False by (auto simp: observe_context_eq_Inr e py_in_def has_key_def map_of_eq_None_iff)
  moreover have "payload (S '''') = Inr []" by (simp add: payload_def utf8_encode_def require_def guardE_def)
  ultimately show ?thesis by (auto simp: dict_get_def e)
qed

lemma kind_steps_total:
  assumes obs: "observation e = Inr out" and seq: "getitem e ''seq'' = Inr q" and node: "getitem e ''node'' = Inr n"
    and kind: "getitem e ''kind'' = Inr (S k)" and "getitem prior ''role'' = Inr rb" and "getitem after ''role'' = Inr ra"
  shows "\<exists>ss. kind_steps e (S k) prior after = Inr ss"
proof -
  obtain c node where parts: "observe_context e = Inr c" "observe_input e (S k) node = Inr ()" "observe_value e (S k) = Inr ()"
    using obs kind by (auto simp: observation_eq_Inr observe_node_eq_Inr)
  obtain v h where v: "getitem e ''value'' = Inr v" "payload v = Inr h" using parts(3) by (auto simp: observe_value_eq_Inr)
  obtain pc ph where pc: "dict_get e ''proposal_context'' (S '''') = Inr pc" "payload pc = Inr ph"
    using proposal_context_payload [OF parts(1)] by blast
  have inp: "\<exists>i m. getitem e ''input'' = Inr i \<and> message i = Inr m" if "in_tuple (S k) [''receive'', ''drop'', ''duplicate'']"
    using parts(2) that by (auto simp: observe_input_eq_Inr)
  note total = add_steps_total(2) [OF node seq]
  show ?thesis
  proof (cases "in_tuple (S k) [''receive'', ''drop'', ''duplicate'']")
    case True
    then obtain i m where "getitem e ''input'' = Inr i" "message i = Inr m" using inp by blast
    then show ?thesis unfolding kind_steps_def assms(5,6) v pc by (simp add: v pc total)
  next
    case False
    then show ?thesis unfolding kind_steps_def assms(5,6) v pc by (simp add: v pc total)
  qed
qed

lemma event_steps_first:
  assumes "observation e = Inr out" and "getitem e ''seq'' = Inr q" and "getitem e ''kind'' = Inr (S k)"
    and "k \<in> {''init'', ''end''}" and "getitem e ''node'' = Inr (PInt 0)"
  shows "event_steps previous e = Inr [check_step e out]"
  using assms(4)
  by (elim insertE emptyE)
    (simp_all add: assms(1-3,5) event_steps_def kind_steps_def sends_def add_step_def check_step_def step_record_def item_def)

text \<open>The messages of an event's pending bag the one before it does not account for.\<close>

definition pending_messages :: "pyval \<Rightarrow> pyval list" where
  "pending_messages e = projr (mapE message (the_list (item e ''pending'')))"

definition new_messages :: "pyval \<Rightarrow> pyval \<Rightarrow> pyval list" where
  "new_messages p e = fresh (mset (map key (pending_messages p))) (pending_messages e)"

definition sends_allowed :: "pyval \<Rightarrow> pyval \<Rightarrow> bool" where
  "sends_allowed p e \<longleftrightarrow> (in_tuple (item e ''kind'') [''campaign'', ''propose'', ''receive'', ''advance'', ''beat''] \<longrightarrow>
     list_all (send_ok (item e ''kind'') (item e ''node'')) (filter is_request (new_messages p e)))"

lemma observed_pending:
  assumes "observation e = Inr out"
  obtains ms where "getitem e ''pending'' = Inr (PList ms)" and "mapE message ms = Inr (pending_messages e)"
    and "getitem out ''pending'' = Inr (PList (pending_messages e))"
proof -
  obtain sts ps ns where bag: "message_bag e ''pending'' ps"
    and out: "out = mkdict [(''states'', PList sts), (''pending'', PList ps), (''network'', PList ns)]"
    using assms unfolding observation_eq_Inr by blast
  then obtain ms where "getitem e ''pending'' = Inr (PList ms)" "mapE message ms = Inr ps" by (auto simp: message_bag_def)
  moreover from this have "pending_messages e = ps" by (simp add: pending_messages_def item_def)
  ultimately show thesis using that out by (simp add: dict_simps)
qed

lemma sends_verdict:
  assumes "observation p = Inr pout" and "observation e = Inr out" and "getitem e ''seq'' = Inr q"
    and "getitem e ''kind'' = Inr kind" and "getitem e ''node'' = Inr node"
  shows "returns_iff (sends_allowed p e) (sends e kind node (Some p) out)"
proof (cases "in_tuple kind [''campaign'', ''propose'', ''receive'', ''advance'', ''beat'']")
  case True
  obtain ms where p: "getitem p ''pending'' = Inr (PList ms)" "mapE message ms = Inr (pending_messages p)"
    using observed_pending [OF assms(1)] .
  obtain ms' where e: "mapE message ms' = Inr (pending_messages e)" "getitem out ''pending'' = Inr (PList (pending_messages e))"
    using observed_pending [OF assms(2)] .
  have "\<exists>m'. message m' = Inr m" if "m \<in> set (pending_messages e)" for m using mapE_set [OF e(1) that] by blast
  note loop = send_loop_verdict [OF assms(5,3) this, where old = "mset (map key (pending_messages p))" and steps = "[]"]
  have "returns_iff (sends_allowed p e \<and> True) (bindE (foldE (send_step e kind node) (mset (map key (pending_messages p)), [])
      (pending_messages e)) (\<lambda>st. Inr (snd st)))"
    by (rule returns_iff_bind) (use loop True assms(4,5) in \<open>simp_all add: sends_allowed_def new_messages_def item_def, simp add: returns_iff_def\<close>)
  then show ?thesis using True by (simp add: sends_def p e(2))
next
  case False
  then show ?thesis using assms(4) by (simp add: sends_def sends_allowed_def item_def returns_iff_def)
qed

lemma event_steps_verdict:
  assumes "observation p = Inr pout" and "observation e = Inr out" and "getitem e ''seq'' = Inr q"
  shows "returns_iff (sends_allowed p e) (event_steps (Some p) e)"
proof -
  obtain k n where k: "getitem e ''kind'' = Inr (S k)" and n: "getitem e ''node'' = Inr (PInt n)"
      "n \<in> (if k \<in> {''init'', ''end''} then {0} else peers)"
    using assms(2) by (auto simp: observation_eq_Inr observe_node_eq_Inr)
  note sent = sends_verdict [OF assms k n(1)]
  show ?thesis
  proof (cases "k \<in> {''init'', ''end''}")
    case True
    have "sends_allowed p e" using True k by (auto simp: sends_allowed_def item_def)
    with event_steps_first [OF assms(2,3) k True] n True show ?thesis by (simp add: returns_iff_def)
  next
    case False
    then have peer: "n \<in> peers" using n(2) by simp
    obtain s role where s: "node_of e n = Inr s" "getitem s ''role'' = Inr role" using observed_state [OF assms(2) peer] .
    obtain s' role' where s': "node_of p n = Inr s'" "getitem s' ''role'' = Inr role'" using observed_state [OF assms(1) peer] .
    obtain ss where ss: "kind_steps e (S k) s' s = Inr ss" using kind_steps_total [OF assms(2,3) n(1) k s'(2) s(2)] by blast
    have "truthy (PInt n)" using peer by (auto simp: peers_def)
    moreover have "returns_iff (sends_allowed p e \<and> True) (bindE (sends e (S k) (PInt n) (Some p) out) (\<lambda>sent.
        bindE (add_step e ''check'' [(''expected'', out)]) (\<lambda>check. Inr (ss @ sent @ [check]))))"
      using add_steps_total(1) [OF n(1) assms(3)] by (intro returns_iff_bind sent) (auto simp: returns_iff_def bindE_eq_Inr)
    ultimately show ?thesis unfolding event_steps_def assms(2) k n(1) bindE_simps by (simp add: s(1) s'(1) ss)
  qed
qed

lemma step_groups_verdict:
  assumes "\<And>e. e \<in> set (p # es) \<Longrightarrow> \<exists>out q. observation e = Inr out \<and> getitem e ''seq'' = Inr q"
  shows "returns_iff (\<forall>i < length es. sends_allowed ((p # es) ! i) (es ! i)) (step_groups (Some p) es)"
  using assms
proof (induction es arbitrary: p)
  case (Cons e es)
  obtain pout out q where obs: "observation p = Inr pout" "observation e = Inr out" "getitem e ''seq'' = Inr q" using Cons.prems by force
  have rest: "returns_iff (\<forall>i < length es. sends_allowed ((e # es) ! i) (es ! i)) (step_groups (Some e) es)"
    by (rule Cons.IH) (use Cons.prems in auto)
  have "returns_iff (sends_allowed p e \<and> ((\<forall>i < length es. sends_allowed ((e # es) ! i) (es ! i)) \<and> True)) (step_groups (Some p) (e # es))"
    unfolding step_groups.simps by (intro returns_iff_bind event_steps_verdict [OF obs] rest) (simp add: returns_iff_def)
  then show ?case by (simp only: length_Cons All_less_Suc2 nth_Cons_0 nth_Cons_Suc simp_thms)
qed (simp add: returns_iff_def)

section \<open>Properties\<close>

text \<open>A minimal accepted trace: node 1 campaigns and proposes.\<close>

definition example_node :: pyval where
  "example_node = mkdict [(''term'', PInt 0), (''vote'', PInt 0), (''commit'', PInt 0), (''role'', S ''follower''),
     (''log'', PList []), (''durable_term'', PInt 0), (''durable_vote'', PInt 0), (''durable_commit'', PInt 0),
     (''durable_log'', PList [])]"

definition example_event :: "string \<Rightarrow> int \<Rightarrow> int \<Rightarrow> pyval list \<Rightarrow> pyval" where
  "example_event kind seq node pending = mkdict [(''kind'', S kind), (''seq'', PInt seq), (''node'', PInt node), (''input'', PNone),
     (''value'', if kind = ''propose'' then S ''x'' else S ''''),
     (''states'', PList [example_node, example_node, example_node]), (''pending'', PList pending), (''network'', PList [])]"

definition example_vote :: pyval where
  "example_vote = mkdict [(''kind'', S ''request_vote''), (''from'', PInt 1), (''to'', PInt 2), (''term'', PInt 1), (''index'', PInt 0),
     (''log_term'', PInt 0), (''commit'', PInt 0), (''commit_term'', PInt 0), (''reject'', PBool False), (''reject_hint'', PInt 0),
     (''entries'', PList [])]"

definition example_trace :: "pyval list" where
  "example_trace = [example_event ''init'' 0 0 [], example_event ''campaign'' 1 1 [example_vote], example_event ''propose'' 2 1 [example_vote],
     example_event ''end'' 3 0 [example_vote]]"

definition example_vote_record :: pyval where
  "example_vote_record = message_record (Message_View ''request_vote'' 1 2 1 0 0 0 False [])"

definition example_observed_node :: pyval where
  "example_observed_node = dict_with example_node [(''role'', S ''Follower''), (''log'', PList []), (''durable_log'', PList [])]"

definition example_observation :: "pyval list \<Rightarrow> pyval" where
  "example_observation msgs = mkdict [
     (''states'', PList [example_observed_node, example_observed_node, example_observed_node]), (''pending'', PList msgs), (''network'', PList [])]"

lemma example_message: "message example_vote = Inr example_vote_record"
proof -
  have "message_shows example_vote (Message_View ''request_vote'' 1 2 1 0 0 0 False [])"
    by (auto simp: message_shows_def counter_def example_vote_def dict_simps peers_def MESSAGE_TYPES_def log_entries_def)
  then show ?thesis unfolding message_eq_Inr example_vote_record_def by blast
qed

lemma example_node_state: "node_state example_node = Inr example_observed_node"
proof -
  have "capitalize (lit ''follower'') = lit ''Follower''" by (simp add: lit_def upper_def lower_def)
  then show ?thesis
    by (simp add: node_state_def example_observed_node_def example_node_def dict_simps naturals_def log_entries_def insert_commute)
qed

lemma example_event_observed:
  assumes "(kind, node) \<in> {(''init'', 0), (''campaign'', 1), (''propose'', 1), (''end'', 0)}"
    and "mapE message pending = Inr ps" and "length pending \<le> 128"
  shows "observation (example_event kind seq node pending) = Inr (example_observation ps)"
  using assms(1)
  by (elim insertE emptyE)
    (simp_all add: observation_def observe_context_def observe_node_def observe_states_def observe_input_def
      observe_value_def observe_bag_def example_event_def example_observation_def dict_simps insert_commute in_set_def
      EVENTS_def valid_node_def bounded_bag_def example_node_state assms)

lemma example_trace_ok: "trace_ok False example_trace"
proof -
  have "load_event_ok False 4 i (example_trace ! i)" if "i < 4" for i
  proof -
    have obs: "\<exists>out. observation (example_trace ! i) = Inr out"
      using that example_event_observed example_message
      by (auto simp: example_trace_def less_Suc_eq numeral_eq_Suc)
    with that show ?thesis
      by (auto simp: load_event_ok_def example_trace_def example_event_def kind_is_def dict_simps less_Suc_eq numeral_eq_Suc)
  qed
  moreover have "length example_trace = 4" by (simp add: example_trace_def)
  moreover have "\<exists>e \<in> set example_trace. kind_is ''campaign'' e = Inr True"
    "\<exists>e \<in> set example_trace. kind_is ''propose'' e = Inr True"
    by (auto simp: example_trace_def example_event_def kind_is_def dict_simps)
  ultimately show ?thesis by (simp add: trace_ok_def)
qed

lemma example_rows_loaded: "load_rows (HEADER # example_trace @ [terminal_row 4]) = Inr example_trace"
proof -
  have "Py_Values.fields (terminal_row 4) [''kind'', ''events''] = Inr ()" by (simp add: terminal_row_def dict_simps)
  moreover have "length example_trace = 4" by (simp add: example_trace_def)
  ultimately show ?thesis
    unfolding load_rows_split using example_trace_ok headers_differ by (intro conjI refl exI [of _ False]) simp_all
qed

lemma wf_example_rows: "list_all wf_pyval (HEADER # example_trace @ [terminal_row 4])"
  by (simp add: wf_headers example_trace_def example_event_def example_node_def example_vote_def wf_mkdict wf_pstr_lit)

lemma load_events_observed:
  assumes "load_rows rows = Inr events" and "i < length events"
  shows "\<exists>out. observation (events ! i) = Inr out" and "getitem (events ! i) ''seq'' = Inr (PInt (int i))"
  using assms by (auto simp: load_rows_eq_Inr trace_ok_def load_event_ok_def)

text \<open>
  \<open>load\<close> accepts exactly the traces that consist of a supported header (up to the order of
  its keys), between 2 and 1000 numbered events that satisfy the schema, of which exactly the
  first is \<open>init\<close> and exactly the last is \<open>end\<close>, with a campaign and a proposal among them, all of
  the header's proposal-context profile, and a terminal row with their number.
\<close>

lemma load_rows_iff:
  assumes "list_all wf_pyval rows"
  shows "load_rows rows = Inr events \<longleftrightarrow> (\<exists>header terminal contextual.
     rows = header # events @ [terminal]
     \<and> canon header = canon (if contextual then CONTEXT_HEADER else HEADER)
     \<and> canon terminal = canon (terminal_row (length events)) \<and> trace_ok contextual events)"
    (is "_ \<longleftrightarrow> ?rhs")
proof -
  have term_fields: "Py_Values.fields terminal [''kind'', ''events''] = Inr ()"
    if "canon terminal = canon (terminal_row n)" for terminal n
    using that unfolding terminal_row_def by (rule canon_fields) auto
  have keys: "key header = key h \<longleftrightarrow> canon header = canon h"
    if "wf_pyval header" "wf_pyval h" for header h using key_eq_iff that .
  show ?thesis
  proof
    assume "load_rows rows = Inr events"
    then obtain header terminal contextual where rows: "rows = header # events @ [terminal]"
      "key header = key (if contextual then CONTEXT_HEADER else HEADER)"
      "key terminal = key (terminal_row (length events))" "trace_ok contextual events"
      unfolding load_rows_eq_Inr by blast
    have "wf_pyval header" "wf_pyval terminal" using assms by (simp_all add: rows(1))
    with rows keys wf_headers show ?rhs by (metis (full_types))
  next
    assume ?rhs
    then obtain header terminal contextual where rows: "rows = header # events @ [terminal]"
      "canon header = canon (if contextual then CONTEXT_HEADER else HEADER)"
      "canon terminal = canon (terminal_row (length events))" "trace_ok contextual events" by blast
    have wf: "wf_pyval header" "wf_pyval terminal" using assms by (simp_all add: rows(1))
    have "key header = key (if contextual then CONTEXT_HEADER else HEADER)"
      using keys [OF wf(1)] rows(2) wf_headers by (cases contextual) simp_all
    moreover from this have "contextual = (key header = key CONTEXT_HEADER)"
      using headers_differ by (cases contextual) simp_all
    moreover have "key terminal = key (terminal_row (length events))"
      using keys [OF wf(2) wf_headers(3)] rows(3) by blast
    ultimately show "load_rows rows = Inr events"
      unfolding rows(1) load_rows_split using term_fields [OF rows(3)] rows(4) by blast
  qed
qed

text \<open>
  Writing a trace back and reading it again is the identity: every trace \<open>load\<close> accepts is
  written by \<open>write_events\<close> as rows that \<open>load\<close> accepts with the same events.
\<close>

lemma load_rows_write:
  assumes "load_rows rows = Inr events"
  shows "\<exists>rows'. write_rows events = Inr rows' \<and> load_rows rows' = Inr events"
proof -
  obtain contextual where ok: "trace_ok contextual events" using assms by (auto simp: load_rows_eq_Inr)
  have "Py_Values.fields (terminal_row (length events)) [''kind'', ''events''] = Inr ()"
    by (simp add: terminal_row_def dict_simps)
  then have "load_rows ((if contextual then CONTEXT_HEADER else HEADER) # events @ [terminal_row (length events)]) = Inr events"
    unfolding load_rows_split using ok headers_differ by (cases contextual) auto
  with write_rows_numbered [OF ok] show ?thesis by blast
qed

text \<open>
  C12: the instructions of a trace are one group of steps per event, in order; every step carries
  its event's node and number and the bound 36; a group ends with the only \<open>check\<close> of it, which
  carries the event's validated observation, so no observed state goes unchecked.
\<close>

theorem instructions_structure:
  assumes "instructions events = Inr steps"
  shows "\<exists>groups. steps = concat groups \<and> length groups = length events \<and> (\<forall>i < length events.
    \<exists>out before. observation (events ! i) = Inr out
      \<and> groups ! i = before @ [check_step (events ! i) out]
      \<and> list_all (is_step (events ! i) (insert ''send'' model_ops)) before)"
proof -
  obtain groups where groups: "step_groups None events = Inr groups" and steps: "steps = concat groups"
    using assms by (auto simp: instructions_groups bindE_eq_Inr)
  note nth = step_groups_nth [OF groups]
  have "\<exists>out before. observation (events ! i) = Inr out \<and> groups ! i = before @ [check_step (events ! i) out]
      \<and> list_all (is_step (events ! i) (insert ''send'' model_ops)) before" if "i < length events" for i
  proof -
    have "event_steps (if i = 0 then None else Some (events ! (i - 1))) (events ! i) = Inr (groups ! i)"
      using nth that by blast
    then show ?thesis by (rule event_steps_eq_Inr) blast
  qed
  with steps nth show ?thesis by blast
qed

definition example_steps :: "pyval list" where
  "example_steps =
     (let e = (\<lambda>i. example_trace ! i) in
      [check_step (e 0) (example_observation []),
       step_record (e 1) ''timeout'' [], step_record (e 1) ''selfVote'' [],
       step_record (e 1) ''send'' [(''msg'', example_vote_record)], check_step (e 1) (example_observation [example_vote_record]),
       step_record (e 2) ''client'' [(''value'', command_value ''command'' (hex (lit ''x'')) [])],
       check_step (e 2) (example_observation [example_vote_record]),
       check_step (e 3) (example_observation [example_vote_record])])"

lemma example_event_items:
  "getitem (example_event kind seq node pending) ''kind'' = Inr (S kind)"
  "getitem (example_event kind seq node pending) ''seq'' = Inr (PInt seq)"
  "getitem (example_event kind seq node pending) ''node'' = Inr (PInt node)"
  "getitem (example_event kind seq node pending) ''pending'' = Inr (PList pending)"
  "getitem (example_event ''propose'' seq node pending) ''value'' = Inr (S ''x'')"
  "dict_get (example_event kind seq node pending) ''proposal_context'' v = Inr v"
  "node_of (example_event kind seq node pending) 1 = Inr example_node"
proof -
  show "dict_get (example_event kind seq node pending) ''proposal_context'' v = Inr v"
    by (simp add: example_event_def dict_get_def mkdict_def)
qed (simp_all add: example_event_def dict_simps node_of_def)

lemma example_send:
  "sends (example_event k q 1 ms) (S ''campaign'') (PInt 1) (Some (example_event k' q' n []))
     (example_observation [example_vote_record])
   = Inr [step_record (example_event k q 1 ms) ''send'' [(''msg'', example_vote_record)]]"
  by (simp add: sends_def example_event_items example_observation_def dict_simps send_step_def
      example_vote_record_def message_record_def add_step_def step_record_def item_def)

lemma example_instructions: "instructions example_trace = Inr example_steps"
proof -
  have obs: "observation (example_event ''init'' 0 0 []) = Inr (example_observation [])"
    "observation (example_event ''campaign'' 1 1 [example_vote]) = Inr (example_observation [example_vote_record])"
    "observation (example_event ''propose'' 2 1 [example_vote]) = Inr (example_observation [example_vote_record])"
    "observation (example_event ''end'' 3 0 [example_vote]) = Inr (example_observation [example_vote_record])"
    by (simp_all add: example_event_observed example_message)
  have old: "sends (example_event ''propose'' 2 1 [example_vote]) (S ''propose'') (PInt 1)
       (Some (example_event ''campaign'' 1 1 [example_vote])) (example_observation [example_vote_record]) = Inr []"
    by (simp add: sends_def example_event_items example_message example_observation_def dict_simps send_step_def)
  have "event_steps None (example_event ''init'' 0 0 []) = Inr [check_step (example_event ''init'' 0 0 []) (example_observation [])]"
    "event_steps p (example_event ''end'' 3 0 [example_vote])
       = Inr [check_step (example_event ''end'' 3 0 [example_vote]) (example_observation [example_vote_record])]" for p
    by (simp_all add: event_steps_first [OF obs(1) example_event_items(2,1)] event_steps_first [OF obs(4) example_event_items(2,1)]
        example_event_items)
  then show ?thesis
    by (simp add: instructions_groups example_trace_def example_steps_def event_steps_def obs kind_steps_def add_steps_def
        example_event_items example_send old add_step_def check_step_def step_record_def item_def command_value_def dict_simps)
qed

theorem instructions_structure_witness:
  "\<exists>groups. example_steps = concat groups \<and> length groups = length example_trace \<and> (\<forall>i < length example_trace.
    \<exists>out before. observation (example_trace ! i) = Inr out
      \<and> groups ! i = before @ [check_step (example_trace ! i) out]
      \<and> list_all (is_step (example_trace ! i) (insert ''send'' model_ops)) before)"
  by (rule instructions_structure [OF example_instructions])

text \<open>
  C17: a trace that \<open>load\<close> accepts is translated exactly when every request that is new after an
  event is one the event allows its node to send; otherwise \<open>instructions\<close> raises the \<open>ValueError\<close> of a
  refused send.  No other exception is possible: no subscript or attribute fails, no payload or
  message is refused a second time, and every event that needs its predecessor has one.
\<close>

theorem instructions_verdict:
  assumes "load_rows rows = Inr events"
  shows "if \<forall>i. Suc i < length events \<longrightarrow> sends_allowed (events ! i) (events ! Suc i)
    then \<exists>steps. instructions events = Inr steps else \<exists>e \<in> send_errors. instructions events = Inl e"
proof -
  obtain contextual where ok: "trace_ok contextual events" using assms by (auto simp: load_rows_eq_Inr)
  then obtain e es where events: "events = e # es" by (cases events) (auto simp: trace_ok_def)
  have "load_event_ok contextual (length events) 0 e" using ok by (auto simp: trace_ok_def events)
  then have "kind_is ''init'' e = Inr True" by (simp add: load_event_ok_def)
  then have init: "getitem e ''kind'' = Inr (S ''init'')" by (auto simp: kind_is_eq_Inr is_lit_def)
  have obs: "\<exists>out q. observation x = Inr out \<and> getitem x ''seq'' = Inr q" if "x \<in> set (e # es)" for x
    using that load_events_observed [OF assms] unfolding events [symmetric] in_set_conv_nth by blast
  obtain out q where out: "observation e = Inr out" "getitem e ''seq'' = Inr q" using obs [OF list.set_intros(1)] by blast
  then have "getitem e ''node'' = Inr (PInt 0)" using init by (auto simp: observation_eq_Inr observe_node_eq_Inr)
  then have "event_steps None e = Inr [check_step e out]" using event_steps_first [OF out init] by simp
  then have "returns_iff (True \<and> (\<forall>i < length es. sends_allowed ((e # es) ! i) (es ! i)) \<and> True) (step_groups None events)"
    unfolding events step_groups.simps by (intro returns_iff_bind step_groups_verdict obs) (auto simp: returns_iff_def)
  then have "returns_iff ((\<forall>i < length es. sends_allowed ((e # es) ! i) (es ! i)) \<and> True) (instructions events)"
    unfolding instructions_groups by (intro returns_iff_bind) (auto simp: returns_iff_def)
  then show ?thesis by (simp add: returns_iff_def events)
qed

theorem instructions_verdict_witness:
  "if \<forall>i. Suc i < length example_trace \<longrightarrow> sends_allowed (example_trace ! i) (example_trace ! Suc i)
    then \<exists>steps. instructions example_trace = Inr steps else \<exists>e \<in> send_errors. instructions example_trace = Inl e"
  by (rule instructions_verdict [OF example_rows_loaded])

text \<open>
  C4: the sends of an event are exactly its new requests: of the messages pending after the
  event, as many as were pending before are accounted for, by content, and every remaining
  request becomes one \<open>send\<close>, from the event's node and of the type the event allows.
\<close>

theorem sends_are_new_requests:
  assumes "sends e kind node (Some p) expected = Inr ss"
    and "in_tuple kind [''campaign'', ''propose'', ''receive'', ''advance'', ''beat'']"
  shows "\<exists>prior old pending new. getitem p ''pending'' = Inr prior \<and> mapE message (the_list prior) = Inr old
    \<and> getitem expected ''pending'' = Inr pending
    \<and> mset (map key new) = mset (map key (the_list pending)) - mset (map key old)
    \<and> ss = map (\<lambda>m. step_record e ''send'' [(''msg'', m)]) (filter is_request new)
    \<and> list_all (send_ok kind node) (filter is_request new)"
  using assms by (rule sends_eq) (use mset_fresh in auto)

theorem sends_are_new_requests_witness:
  "\<exists>prior old pending new. getitem (example_trace ! 0) ''pending'' = Inr prior \<and> mapE message (the_list prior) = Inr old
    \<and> getitem (example_observation [example_vote_record]) ''pending'' = Inr pending
    \<and> mset (map key new) = mset (map key (the_list pending)) - mset (map key old)
    \<and> [step_record (example_trace ! 1) ''send'' [(''msg'', example_vote_record)]]
      = map (\<lambda>m. step_record (example_trace ! 1) ''send'' [(''msg'', m)]) (filter is_request new)
    \<and> list_all (send_ok (S ''campaign'') (PInt 1)) (filter is_request new)"
proof (rule sends_are_new_requests)
  show "sends (example_trace ! 1) (S ''campaign'') (PInt 1) (Some (example_trace ! 0)) (example_observation [example_vote_record])
      = Inr [step_record (example_trace ! 1) ''send'' [(''msg'', example_vote_record)]]"
    by (simp add: sends_def example_trace_def example_event_def example_observation_def dict_simps send_step_def
        example_vote_record_def message_record_def add_step_def step_record_def item_def)
qed simp

end
