(* ===== verification/Trace_Runs.thy ===== *)
theory Trace_Runs
  imports Trace_Instructions
begin

text \<open>
  The drivers of trace_check.py: \<open>validate\<close>, which loads a trace, asks TLC about its instructions
  and classifies the run, and \<open>negatives\<close>, which derives mutated traces that must be rejected.
\<close>

section \<open>validate\<close>

definition steps_ndjson :: "pyval list \<Rightarrow> pstr" where
  "steps_ndjson steps = concat (map (\<lambda>s. dumps False s @ [10]) steps)"

text \<open>The verdict on a finished run over \<open>n\<close> instructions.\<close>

definition conclude :: "tlc_run \<Rightarrow> nat \<Rightarrow> unit res" where
  "conclude run n =
     (if completed (tlc_returncode run) (tlc_text run) n then Inr ()
      else if tlc_returncode run \<noteq> 0
           \<and> (contains (lit ''Error: Deadlock reached.'') (tlc_text run) \<or> contains (lit ''is violated'') (tlc_text run))
      then Inl (ConformanceError ''Conformance rejected'')
      else Inl (RuntimeError ''Incomplete or failed TLC run''))"

text \<open>
  \<open>loads\<close> is \<open>json.loads\<close> with the hook \<open>unique_object\<close>, \<open>classpath\<close> the result of
  \<open>check.classpath()\<close>, and \<open>tlc\<close> runs TLC with that class path on steps.ndjson and the
  configuration, \<open>None\<close> when it exceeds the time limit.
\<close>

definition validate ::
  "(nat list \<Rightarrow> pyval res) \<Rightarrow> pstr res \<Rightarrow> (pstr \<Rightarrow> pstr \<Rightarrow> pstr \<Rightarrow> tlc_run option) \<Rightarrow> nat list \<Rightarrow> unit res" where
  "validate loads classpath tlc data =
     bindE (load loads data) (\<lambda>events.
     bindE (instructions events) (\<lambda>steps.
     bindE classpath (\<lambda>cp.
     case tlc cp (steps_ndjson steps) config of
       None \<Rightarrow> Inl (RuntimeError ''TLC timeout, NOT a pass'')
     | Some run \<Rightarrow> conclude run (length steps))))"

section \<open>negatives\<close>

text \<open>\<open>next(i for i, x in enumerate(xs) if p(x))\<close>: the first index, or \<open>StopIteration\<close>.\<close>

fun first_index :: "('a \<Rightarrow> bool res) \<Rightarrow> 'a list \<Rightarrow> nat res" where
  "first_index p [] = Inl StopIteration"
| "first_index p (x # xs) =
     bindE (p x) (\<lambda>b. if b then Inr 0 else bindE (first_index p xs) (\<lambda>i. Inr (Suc i)))"

text \<open>
  In-place changes at an index and under a key.  The events come from \<open>load\<close>, so the indices the
  source computes from a node, \<open>e["node"]-1\<close> of an event that has one, are not negative.
\<close>

definition update_nth :: "nat \<Rightarrow> ('a \<Rightarrow> 'a res) \<Rightarrow> 'a list \<Rightarrow> 'a list res" where
  "update_nth i f xs = (if i < length xs then bindE (f (xs ! i)) (\<lambda>x. Inr (xs[i := x])) else Inl IndexError)"

definition update_list :: "nat \<Rightarrow> (pyval \<Rightarrow> pyval res) \<Rightarrow> pyval \<Rightarrow> pyval res" where
  "update_list i f obj = (case obj of
      PList xs \<Rightarrow> bindE (update_nth i f xs) (\<lambda>ys. Inr (PList ys))
    | PDict kvs \<Rightarrow> Inl (KeyError ''index'')
    | _ \<Rightarrow> Inl TypeError)"

definition update_item :: "string \<Rightarrow> (pyval \<Rightarrow> pyval res) \<Rightarrow> pyval \<Rightarrow> pyval res" where
  "update_item k f obj = bindE (getitem obj k) (\<lambda>v. bindE (f v) (\<lambda>v'. setitem k v' obj))"

text \<open>\<open>e["states"][e["node"]-1]\<close> as the place of a change.\<close>

definition update_own_state :: "(pyval \<Rightarrow> pyval res) \<Rightarrow> pyval \<Rightarrow> pyval res" where
  "update_own_state f e =
     bindE (getitem e ''node'') (\<lambda>node.
     update_item ''states'' (update_list (nat (the_int node - 1)) f) e)"

text \<open>The cases \<open>term\<close> and \<open>vote\<close>.\<close>

definition mutate_campaign :: "string \<Rightarrow> pyval list \<Rightarrow> pyval list res" where
  "mutate_campaign name events =
     bindE (first_index (kind_is ''campaign'') events) (\<lambda>i.
     update_nth i (update_own_state (setitem name (PInt (if name = ''term'' then 9 else 2)))) events)"

text \<open>The cases \<open>committed-payload\<close>, \<open>committed-identity\<close> and \<open>durable-payload\<close>.\<close>

definition corrupt_log :: "string \<Rightarrow> pyval \<Rightarrow> pyval res" where
  "corrupt_log name es = (case es of
      PList xs \<Rightarrow>
        if length xs < 2 \<or> name = ''committed-identity'' \<and> length xs < 3 then Inl IndexError
        else bindE (if name = ''committed-identity'' then getitem (xs ! 2) ''data'' else Inr (S ''corrupted'')) (\<lambda>data.
          bindE (setitem ''data'' data (xs ! 1)) (\<lambda>x. Inr (PList (xs[1 := x]))))
    | _ \<Rightarrow> Inl TypeError)"

definition mutate_final_log :: "string \<Rightarrow> pyval list \<Rightarrow> pyval list res" where
  "mutate_final_log name events =
     update_nth (length events - 1)
       (update_item ''states'' (update_list 0
         (update_item (if name = ''durable-payload'' then ''durable_log'' else ''log'') (corrupt_log name)))) events"

text \<open>
  The cases \<open>release-before-persist\<close> and \<open>ack-before-persist\<close>: a later \<open>release\<close> or \<open>advance\<close> is
  moved before the \<open>persist\<close> it belongs to.
\<close>

definition durable_length :: "pyval \<Rightarrow> pyval \<Rightarrow> nat res" where
  "durable_length e node =
     bindE (node_of e (the_int node)) (\<lambda>s. bindE (getitem s ''durable_log'') (\<lambda>l. Inr (length (the_list l))))"

definition persist_start :: "bool \<Rightarrow> pyval list \<Rightarrow> nat \<Rightarrow> bool res" where
  "persist_start release events i =
     (let e = events ! i in
     bindE (kind_is ''persist'' e) (\<lambda>persist.
     if \<not> persist then Inr False
     else if release then Inr True
     else
       bindE (getitem e ''node'') (\<lambda>node.
       bindE (node_of e (the_int node)) (\<lambda>s.
       bindE (getitem s ''role'') (\<lambda>role.
       if \<not> is_lit role ''leader'' then Inr False
       else
         bindE (durable_length e node) (\<lambda>now.
         bindE (durable_length (events ! (if i = 0 then length events - 1 else i - 1)) node) (\<lambda>before.
         Inr (before < now))))))))"

definition move_before :: "nat \<Rightarrow> nat \<Rightarrow> 'a list \<Rightarrow> 'a list" where
  "move_before start stop xs = take start xs @ [xs ! stop] @ drop start (take stop xs) @ drop (Suc stop) xs"

definition mutate_order :: "bool \<Rightarrow> pyval list \<Rightarrow> pyval list res" where
  "mutate_order release events =
     bindE (first_index (persist_start release events) [0..<length events]) (\<lambda>start.
     bindE (first_index (kind_is (if release then ''release'' else ''advance'')) (drop (start + 1) events)) (\<lambda>k.
     Inr (move_before start (start + 1 + k) events)))"

definition mutate_source :: "pyval list \<Rightarrow> pyval list res" where
  "mutate_source events =
     bindE (first_index (kind_is ''receive'') events) (\<lambda>i.
     update_nth i (update_item ''input'' (setitem ''from'' (PInt 3))) events)"

definition drop_proposal :: "pyval list \<Rightarrow> pyval list res" where
  "drop_proposal events =
     bindE (first_index (kind_is ''propose'') events) (\<lambda>i. Inr (take i events @ drop (Suc i) events))"

definition mutate :: "string \<Rightarrow> pyval list \<Rightarrow> pyval list res" where
  "mutate name events =
     (if name \<in> {''term'', ''vote''} then mutate_campaign name events
      else if name \<in> {''committed-payload'', ''committed-identity'', ''durable-payload''} then mutate_final_log name events
      else if name \<in> {''release-before-persist'', ''ack-before-persist''} then mutate_order (name = ''release-before-persist'') events
      else if name = ''message-causality'' then mutate_source events
      else drop_proposal events)"

definition mutation_names :: "string list" where
  "mutation_names = [''term'', ''vote'', ''committed-payload'', ''committed-identity'', ''durable-payload'',
     ''release-before-persist'', ''ack-before-persist'', ''missing-operation'', ''message-causality'']"

definition mutations :: "pyval list \<Rightarrow> (string \<times> pyval list) list res" where
  "mutations events = mapE (\<lambda>name. bindE (mutate name events) (\<lambda>changed. Inr (name, changed))) mutation_names"

text \<open>The malformed files: the bytes of the file \<open>data\<close> cut, extended or with an unknown event.\<close>

definition unsupported :: "pyval list \<Rightarrow> pyval list res" where
  "unsupported events =
     bindE (first_index (kind_is ''campaign'') events) (\<lambda>i. update_nth i (setitem ''kind'' (S ''transfer'')) events)"

definition structural_cases :: "nat list \<Rightarrow> pstr \<Rightarrow> (string \<times> nat list) list" where
  "structural_cases data changed =
     [(''empty'', []), (''truncated-line'', take (length data - 5) data),
      (''missing-terminal'', join [10] (butlast (splitlines data)) @ [10]),
      (''unsupported'', changed), (''suffix'', data @ lit ''{}'' @ [10])]"

text \<open>A mutation passes when \<open>validate\<close> raises \<open>ConformanceError\<close>; any other exception propagates.\<close>

definition expect_conformance :: "unit res \<Rightarrow> unit res" where
  "expect_conformance r = (case r of
      Inl (ConformanceError _) \<Rightarrow> Inr ()
    | Inl e \<Rightarrow> Inl e
    | Inr _ \<Rightarrow> Inl (RuntimeError ''Mutation unexpectedly accepted''))"

definition expect_malformed :: "pyval list res \<Rightarrow> unit res" where
  "expect_malformed r = (case r of
      Inl (KeyError _) \<Rightarrow> Inr ()
    | Inl e \<Rightarrow> if is_value_error e then Inr () else Inl e
    | Inr _ \<Rightarrow> Inl (RuntimeError ''Malformed trace unexpectedly accepted''))"

definition negatives ::
  "(nat list \<Rightarrow> pyval res) \<Rightarrow> pstr res \<Rightarrow> (pstr \<Rightarrow> pstr \<Rightarrow> pstr \<Rightarrow> tlc_run option) \<Rightarrow> nat list \<Rightarrow> unit res" where
  "negatives loads classpath tlc data =
     bindE (load loads data) (\<lambda>events.
     bindE (mutations events) (\<lambda>cases.
     bindE (mapE (\<lambda>(_, changed). bindE (write_events changed) (\<lambda>t.
       expect_conformance (validate loads classpath tlc t))) cases) (\<lambda>_.
     bindE (bindE (unsupported events) write_events) (\<lambda>t.
     bindE (mapE (\<lambda>(_, bytes). expect_malformed (load loads bytes)) (structural_cases data t)) (\<lambda>_.
     Inr ())))))"

end
