(* ===== verification/Register_History.thy ===== *)
theory Register_History
  imports Raftz_Prelude
begin

text \<open>
  Register histories and what it means to linearize one.  Three things are related here:
  the textbook definition of a linearization (a sequential order of the operations that is
  legal for a register and respects real time), an interface for procedures that select one
  operation at a time, and the TLA+ model RaftzRegisterHistory.tla, whose reachable states
  TLC explores.  history_check.py replays orders against the same rules; its model is in
  History_Check and implements the interface below.
\<close>

section \<open>Histories\<close>

datatype op_kind = OpRead | OpWrite

text \<open>One client operation; \<open>op_returned\<close> is -1 while no response was observed.\<close>

record operation =
  op_id :: pstr
  op_kind :: op_kind
  op_value :: pstr
  op_result :: pstr
  op_invoked :: int
  op_returned :: int

definition op_completed :: "operation \<Rightarrow> bool" where
  "op_completed op \<longleftrightarrow> 0 \<le> op_returned op"

text \<open>Real-time order: the response of one operation came before the invocation of another.\<close>

definition precedes :: "operation \<Rightarrow> operation \<Rightarrow> bool" where
  "precedes a b \<longleftrightarrow> op_completed a \<and> op_returned a < op_invoked b"

text \<open>Operations that may take effect: the completed ones and every write.\<close>

definition candidate :: "operation \<Rightarrow> bool" where
  "candidate op \<longleftrightarrow> op_completed op \<or> op_kind op = OpWrite"

definition wf_history :: "operation list \<Rightarrow> bool" where
  "wf_history ops \<longleftrightarrow> distinct (map op_id ops) \<and>
     list_all (\<lambda>op. op_completed op \<longrightarrow> op_invoked op \<le> op_returned op) ops"

section \<open>Linearizations\<close>

text \<open>The register after an operation, and runs in which every read returns the current value.\<close>

definition register_after :: "pstr \<Rightarrow> operation \<Rightarrow> pstr" where
  "register_after v op = (if op_kind op = OpWrite then op_value op else v)"

fun legal :: "pstr \<Rightarrow> operation list \<Rightarrow> bool" where
  "legal v [] = True"
| "legal v (op # xs) = ((op_kind op = OpRead \<longrightarrow> op_result op = v) \<and> legal (register_after v op) xs)"

definition respects_real_time :: "operation list \<Rightarrow> bool" where
  "respects_real_time xs \<longleftrightarrow> sorted_wrt (\<lambda>a b. \<not> precedes b a) xs"

definition linearization :: "operation list \<Rightarrow> operation list \<Rightarrow> bool" where
  "linearization ops xs \<longleftrightarrow> distinct xs \<and> set xs \<subseteq> set ops \<and> list_all candidate xs
     \<and> {op \<in> set ops. op_completed op} \<subseteq> set xs \<and> respects_real_time xs \<and> legal [] xs"

definition linearizable :: "operation list \<Rightarrow> bool" where
  "linearizable ops \<longleftrightarrow> (\<exists>xs. linearization ops xs)"

section \<open>Selecting one operation at a time\<close>

text \<open>The condition under which an operation may be selected next, given those already selected.\<close>

definition selectable :: "operation list \<Rightarrow> operation set \<Rightarrow> pstr \<Rightarrow> operation \<Rightarrow> bool" where
  "selectable ops chosen v op \<longleftrightarrow> op \<notin> chosen \<and> candidate op
     \<and> {p \<in> set ops. precedes p op} \<subseteq> chosen \<and> (op_kind op = OpWrite \<or> op_result op = v)"

text \<open>\<open>selection ops chosen v xs\<close>: the operations of \<open>xs\<close> can be selected in this order.\<close>

fun selection :: "operation list \<Rightarrow> operation set \<Rightarrow> pstr \<Rightarrow> operation list \<Rightarrow> bool" where
  "selection ops chosen v [] = True"
| "selection ops chosen v (op # xs) =
     (op \<in> set ops \<and> selectable ops chosen v op
      \<and> selection ops (insert op chosen) (register_after v op) xs)"

lemma selection_legal: "selection ops chosen v xs \<Longrightarrow> legal v xs"
  by (induction xs arbitrary: chosen v) (auto simp: selectable_def)

lemma selection_set:
  "selection ops chosen v xs \<Longrightarrow>
     set xs \<subseteq> set ops \<and> list_all candidate xs \<and> distinct xs \<and> set xs \<inter> chosen = {}"
  by (induction xs arbitrary: chosen v) (auto simp: selectable_def)

text \<open>Every predecessor of a selected operation was selected before it.\<close>

lemma selection_predecessors:
  "selection ops chosen v (xs @ b # ys) \<Longrightarrow> a \<in> set ops \<Longrightarrow> precedes a b \<Longrightarrow> a \<in> chosen \<union> set xs"
  by (induction xs arbitrary: chosen v) (auto simp: selectable_def)

lemma selection_real_time: "selection ops chosen v xs \<Longrightarrow> respects_real_time xs"
proof (induction xs arbitrary: chosen v)
  case (Cons a xs)
  have rest: "selection ops (insert a chosen) (register_after v a) xs"
    and sel: "selectable ops chosen v a" using Cons.prems by auto
  have "\<not> precedes b a" if "b \<in> set xs" for b
  proof
    assume "precedes b a"
    moreover have "b \<in> set ops" using selection_set [OF rest] that by blast
    ultimately have "b \<in> chosen" using sel by (auto simp: selectable_def)
    then show False using selection_set [OF rest] that by blast
  qed
  then show ?case using Cons.IH [OF rest] by (simp add: respects_real_time_def)
qed (simp add: respects_real_time_def)

lemma selection_from_order:
  assumes "distinct (cs @ xs)" and "set (cs @ xs) \<subseteq> set ops" and "list_all candidate (cs @ xs)"
    and "{op \<in> set ops. op_completed op} \<subseteq> set (cs @ xs)" and "respects_real_time (cs @ xs)"
    and "wf_history ops" and "legal v xs"
  shows "selection ops (set cs) v xs"
  using assms
proof (induction xs arbitrary: cs v)
  case (Cons a xs)
  have a: "a \<in> set ops" "candidate a" "a \<notin> set cs" using Cons.prems by auto
  have "p \<in> set cs" if p: "p \<in> set ops" "precedes p a" for p
  proof -
    have "op_completed p" using p(2) by (simp add: precedes_def)
    then have "p \<in> set (cs @ a # xs)" using Cons.prems(4) p(1) by blast
    moreover have "p \<notin> set xs"
      using Cons.prems(5) p(2) by (auto simp: respects_real_time_def sorted_wrt_append)
    moreover have "p \<noteq> a"
      using p(2) a(1) Cons.prems(6) by (auto simp: precedes_def wf_history_def list_all_iff)
    ultimately show ?thesis by simp
  qed
  then have "selectable ops (set cs) v a"
    using a Cons.prems(7) by (cases "op_kind a") (auto simp: selectable_def)
  moreover have "selection ops (set (cs @ [a])) (register_after v a) xs"
    by (rule Cons.IH) (use Cons.prems in auto)
  ultimately show ?case using a(1) by simp
qed simp

text \<open>Selecting operations greedily under the local rule is the same as having a linearization.\<close>

theorem linearization_iff_selection:
  assumes "wf_history ops"
  shows "linearization ops xs \<longleftrightarrow>
    selection ops {} [] xs \<and> {op \<in> set ops. op_completed op} \<subseteq> set xs"
proof
  assume "linearization ops xs"
  then show "selection ops {} [] xs \<and> {op \<in> set ops. op_completed op} \<subseteq> set xs"
    using selection_from_order [of "[]" xs ops "[]"] assms by (simp add: linearization_def)
next
  assume "selection ops {} [] xs \<and> {op \<in> set ops. op_completed op} \<subseteq> set xs"
  then show "linearization ops xs"
    using selection_set selection_legal selection_real_time by (fastforce simp: linearization_def)
qed

section \<open>Selectors\<close>

text \<open>
  Two programs select operations one at a time: the TLA+ model, by index, and the replay of
  history_check.py, by operation id.  The interface they share: a state from which the
  selected operations and the register can be read off, and a step that is possible exactly
  when the operation it names is selectable.
\<close>

fun path :: "('s \<Rightarrow> 'i \<Rightarrow> 's \<Rightarrow> bool) \<Rightarrow> 's \<Rightarrow> 'i list \<Rightarrow> 's \<Rightarrow> bool" where
  "path step s [] s' \<longleftrightarrow> s' = s"
| "path step s (i # is) s' \<longleftrightarrow> (\<exists>t. step s i t \<and> path step t is s')"

lemma path_snoc: "path step s (is @ [i]) s' \<longleftrightarrow> (\<exists>t. path step s is t \<and> step t i s')"
  by (induction "is" arbitrary: s) auto

locale selector =
  fixes step :: "operation list \<Rightarrow> 's \<Rightarrow> 'i \<Rightarrow> 's \<Rightarrow> bool"
    and start :: 's
    and chosen :: "operation list \<Rightarrow> 's \<Rightarrow> operation set"
    and reg :: "'s \<Rightarrow> pstr"
    and op_of :: "operation list \<Rightarrow> 'i \<Rightarrow> operation"
    and inv :: "operation list \<Rightarrow> 's \<Rightarrow> bool"
  assumes start_inv: "inv ops start"
    and start_chosen: "chosen ops start = {}"
    and start_reg: "reg start = []"
    and step_sound: "wf_history ops \<Longrightarrow> inv ops s \<Longrightarrow> step ops s i s' \<Longrightarrow>
      op_of ops i \<in> set ops \<and> selectable ops (chosen ops s) (reg s) (op_of ops i) \<and> inv ops s'
      \<and> chosen ops s' = insert (op_of ops i) (chosen ops s) \<and> reg s' = register_after (reg s) (op_of ops i)"
    and step_complete: "wf_history ops \<Longrightarrow> inv ops s \<Longrightarrow> op \<in> set ops \<Longrightarrow>
      selectable ops (chosen ops s) (reg s) op \<Longrightarrow> \<exists>i s'. op_of ops i = op \<and> step ops s i s'"
begin

lemma path_selection:
  assumes "wf_history ops" and "inv ops s" and "path (step ops) s is s'"
  shows "selection ops (chosen ops s) (reg s) (map (op_of ops) is)
    \<and> inv ops s' \<and> chosen ops s' = chosen ops s \<union> op_of ops ` set is"
  using assms(2,3)
proof (induction "is" arbitrary: s)
  case (Cons i "is")
  then obtain t where t: "step ops s i t" and rest: "path (step ops) t is s'" by auto
  note sound = step_sound [OF assms(1) Cons.prems(1) t]
  with Cons.IH [OF _ rest] show ?case by simp
qed simp

lemma selection_path:
  assumes "wf_history ops" and "inv ops s" and "selection ops (chosen ops s) (reg s) xs"
  shows "\<exists>is s'. map (op_of ops) is = xs \<and> path (step ops) s is s'"
  using assms(2,3)
proof (induction xs arbitrary: s)
  case Nil
  have "map (op_of ops) [] = [] \<and> path (step ops) s [] s" by simp
  then show ?case by blast
next
  case (Cons op xs)
  then obtain i t where i: "op_of ops i = op" and t: "step ops s i t"
    using step_complete [OF assms(1)] by (metis selection.simps(2))
  note sound = step_sound [OF assms(1) Cons.prems(1) t]
  with Cons.prems(2) i have "selection ops (chosen ops t) (reg t) xs" by simp
  with Cons.IH sound obtain "is" s' where "map (op_of ops) is = xs" "path (step ops) t is s'"
    by blast
  with i t have "map (op_of ops) (i # is) = op # xs \<and> path (step ops) s (i # is) s'" by auto
  then show ?case by (intro exI)
qed

lemma goal_iff_linearization:
  assumes "wf_history ops" and "path (step ops) start is s"
  shows "{op \<in> set ops. op_completed op} \<subseteq> chosen ops s \<longleftrightarrow> linearization ops (map (op_of ops) is)"
  using path_selection [OF assms(1) start_inv assms(2)] linearization_iff_selection [OF assms(1)]
  by (simp add: start_chosen start_reg)

lemma linearization_path:
  assumes "wf_history ops" and "linearization ops xs"
  shows "\<exists>is s. map (op_of ops) is = xs \<and> path (step ops) start is s"
  using assms selection_path [OF assms(1) start_inv] linearization_iff_selection [OF assms(1)]
  by (simp add: start_chosen start_reg)

lemma goal_reachable_iff_linearizable:
  assumes "wf_history ops"
  shows "(\<exists>is s. path (step ops) start is s \<and> {op \<in> set ops. op_completed op} \<subseteq> chosen ops s)
    \<longleftrightarrow> linearizable ops"
  using goal_iff_linearization [OF assms] linearization_path [OF assms]
  by (metis linearizable_def)

end

section \<open>The TLA+ model\<close>

text \<open>
  RaftzRegisterHistory.tla.  Operations are named by their 1-based index; a state is the set
  \<open>done\<close> of the indices linearized so far and the register value.
\<close>

record tla_state =
  tla_done :: "nat set"
  tla_value :: pstr

definition Ops :: "operation list \<Rightarrow> nat \<Rightarrow> operation" where
  "Ops ops i = ops ! (i - 1)"

definition Ids :: "operation list \<Rightarrow> nat set" where
  "Ids ops = {1..length ops}"

definition Completed :: "operation list \<Rightarrow> nat set" where
  "Completed ops = {i \<in> Ids ops. op_returned (Ops ops i) \<ge> 0}"

definition Candidates :: "operation list \<Rightarrow> nat set" where
  "Candidates ops = Completed ops \<union> {i \<in> Ids ops. op_kind (Ops ops i) = OpWrite}"

definition Predecessors :: "operation list \<Rightarrow> nat \<Rightarrow> nat set" where
  "Predecessors ops i = {j \<in> Completed ops. op_returned (Ops ops j) < op_invoked (Ops ops i)}"

definition Init :: tla_state where
  "Init = \<lparr>tla_done = {}, tla_value = []\<rparr>"

inductive Linearize :: "operation list \<Rightarrow> tla_state \<Rightarrow> nat \<Rightarrow> tla_state \<Rightarrow> bool" for ops where
  "i \<in> Candidates ops - tla_done s \<Longrightarrow> Predecessors ops i \<subseteq> tla_done s
   \<Longrightarrow> op_kind (Ops ops i) = OpWrite \<or> op_result (Ops ops i) = tla_value s
   \<Longrightarrow> Linearize ops s i \<lparr>tla_done = insert i (tla_done s),
         tla_value = (if op_kind (Ops ops i) = OpWrite then op_value (Ops ops i) else tla_value s)\<rparr>"

inductive_cases LinearizeE: "Linearize ops s i s'"

inductive reachable :: "operation list \<Rightarrow> tla_state \<Rightarrow> bool" for ops where
  reachable_Init: "reachable ops Init"
| reachable_Next: "reachable ops s \<Longrightarrow> Linearize ops s i s' \<Longrightarrow> reachable ops s'"

definition HistoryTypeInv :: "operation list \<Rightarrow> tla_state \<Rightarrow> bool" where
  "HistoryTypeInv ops s \<longleftrightarrow> tla_done s \<subseteq> Candidates ops
     \<and> tla_value s \<in> insert [] (op_value ` Ops ops ` {i \<in> Ids ops. op_kind (Ops ops i) = OpWrite})"

definition NoLinearization :: "operation list \<Rightarrow> tla_state \<Rightarrow> bool" where
  "NoLinearization ops s \<longleftrightarrow> \<not> Completed ops \<subseteq> tla_done s"

lemma Ops_nth: "k < length ops \<Longrightarrow> Ops ops (Suc k) = ops ! k"
  by (simp add: Ops_def)

lemma Ids_Suc: "i \<in> Ids ops \<longleftrightarrow> (\<exists>k < length ops. i = Suc k)"
  by (cases i) (auto simp: Ids_def)

lemma Ops_image_Ids: "Ops ops ` Ids ops = set ops"
  by (force simp: Ids_Suc Ops_nth set_conv_nth image_iff)

lemma Ops_in_set: "i \<in> Ids ops \<Longrightarrow> Ops ops i \<in> set ops"
  using Ops_image_Ids by blast

lemma wf_history_distinct: "wf_history ops \<Longrightarrow> distinct ops"
  by (simp add: wf_history_def distinct_map)

lemma inj_Ops: "wf_history ops \<Longrightarrow> inj_on (Ops ops) (Ids ops)"
  by (auto simp: inj_on_def Ids_Suc Ops_nth nth_eq_iff_index_eq dest!: wf_history_distinct)

lemma inj_on_image_subset_iff:
  assumes "inj_on f C" and "A \<subseteq> C" and "B \<subseteq> C"
  shows "f ` A \<subseteq> f ` B \<longleftrightarrow> A \<subseteq> B"
  using assms by (auto simp: inj_on_def subset_iff image_iff) metis

lemma Ids_subsets: "Completed ops \<subseteq> Ids ops" "Candidates ops \<subseteq> Ids ops" "Predecessors ops i \<subseteq> Ids ops"
  by (auto simp: Completed_def Candidates_def Predecessors_def)

lemma Completed_image: "Ops ops ` Completed ops = {op \<in> set ops. op_completed op}"
  by (auto simp: Completed_def op_completed_def Ops_in_set Ops_image_Ids [symmetric])

lemma Predecessors_image: "Ops ops ` Predecessors ops i = {p \<in> set ops. precedes p (Ops ops i)}"
  by (auto simp: Predecessors_def Completed_def precedes_def op_completed_def Ops_in_set
      Ops_image_Ids [symmetric])

lemma Candidates_iff: "i \<in> Candidates ops \<longleftrightarrow> i \<in> Ids ops \<and> candidate (Ops ops i)"
  by (auto simp: Candidates_def Completed_def candidate_def op_completed_def)

text \<open>On indices of a well-formed history the model's guards are the selection rule.\<close>

lemma Linearize_guard:
  assumes "wf_history ops" and "tla_done s \<subseteq> Ids ops" and "i \<in> Ids ops"
  shows "selectable ops (Ops ops ` tla_done s) (tla_value s) (Ops ops i) \<longleftrightarrow>
    i \<in> Candidates ops - tla_done s \<and> Predecessors ops i \<subseteq> tla_done s
    \<and> (op_kind (Ops ops i) = OpWrite \<or> op_result (Ops ops i) = tla_value s)"
proof -
  note inj = inj_Ops [OF assms(1)]
  have "Ops ops i \<in> Ops ops ` tla_done s \<longleftrightarrow> i \<in> tla_done s"
    using inj assms(3,2) by (rule inj_on_image_mem_iff)
  moreover have "{p \<in> set ops. precedes p (Ops ops i)} \<subseteq> Ops ops ` tla_done s \<longleftrightarrow>
      Predecessors ops i \<subseteq> tla_done s"
    using inj_on_image_subset_iff [OF inj Ids_subsets(3) assms(2)] by (simp add: Predecessors_image)
  ultimately show ?thesis using assms(3) by (auto simp: selectable_def Candidates_iff)
qed

interpretation tla: selector Linearize Init "\<lambda>ops s. Ops ops ` tla_done s" tla_value Ops
  "\<lambda>ops s. tla_done s \<subseteq> Ids ops"
proof unfold_locales
  fix ops s i s'
  assume wf: "wf_history ops" and inv: "tla_done s \<subseteq> Ids ops" and "Linearize ops s i s'"
  then have i: "i \<in> Ids ops" using Ids_subsets(2) [of ops] by (auto elim!: LinearizeE)
  show "Ops ops i \<in> set ops \<and> selectable ops (Ops ops ` tla_done s) (tla_value s) (Ops ops i)
      \<and> tla_done s' \<subseteq> Ids ops \<and> Ops ops ` tla_done s' = insert (Ops ops i) (Ops ops ` tla_done s)
      \<and> tla_value s' = register_after (tla_value s) (Ops ops i)"
    using \<open>Linearize ops s i s'\<close> Linearize_guard [OF wf inv i] i inv
    by (auto elim!: LinearizeE simp: Ops_in_set register_after_def)
next
  fix ops op and s :: tla_state
  assume wf: "wf_history ops" and inv: "tla_done s \<subseteq> Ids ops" and "op \<in> set ops"
    and sel: "selectable ops (Ops ops ` tla_done s) (tla_value s) op"
  then obtain i where i: "i \<in> Ids ops" "op = Ops ops i" using Ops_image_Ids [of ops] by blast
  with sel Linearize_guard [OF wf inv i(1)] show "\<exists>i s'. Ops ops i = op \<and> Linearize ops s i s'"
    by (metis Linearize.intros)
qed (simp_all add: Init_def)

lemma reachable_iff_path: "reachable ops s \<longleftrightarrow> (\<exists>is. path (Linearize ops) Init is s)"
proof
  assume "reachable ops s"
  then show "\<exists>is. path (Linearize ops) Init is s"
  proof induction
    case reachable_Init
    have "path (Linearize ops) Init [] Init" by simp
    then show ?case by blast
  next
    case (reachable_Next s i s')
    then show ?case by (metis path_snoc)
  qed
next
  assume "\<exists>is. path (Linearize ops) Init is s"
  then obtain "is" where "path (Linearize ops) Init is s" by blast
  then show "reachable ops s"
    by (induction "is" arbitrary: s rule: rev_induct) (auto simp: path_snoc intro: reachable.intros)
qed

lemma reachable_done: "reachable ops s \<Longrightarrow> tla_done s \<subseteq> Candidates ops"
  by (induction rule: reachable.induct) (auto simp: Init_def elim!: LinearizeE)

lemma goal_image:
  assumes "wf_history ops" and "tla_done s \<subseteq> Ids ops"
  shows "{op \<in> set ops. op_completed op} \<subseteq> Ops ops ` tla_done s \<longleftrightarrow> \<not> NoLinearization ops s"
  using inj_on_image_subset_iff [OF inj_Ops [OF assms(1)] Ids_subsets(1) assms(2)]
  by (simp add: NoLinearization_def Completed_image)

text \<open>Every step selects one more index, so a path is no longer than the history.\<close>

lemma path_done:
  "path (Linearize ops) s is s' \<Longrightarrow>
     distinct is \<and> set is \<inter> tla_done s = {} \<and> tla_done s' = tla_done s \<union> set is"
  by (induction "is" arbitrary: s) (fastforce elim!: LinearizeE)+

lemma path_indices:
  assumes "path (Linearize ops) Init is s"
  shows "distinct is \<and> tla_done s = set is \<and> set is \<subseteq> Ids ops"
proof -
  have "reachable ops s" using assms reachable_iff_path by blast
  from order_trans [OF reachable_done [OF this] Ids_subsets(2)] have "tla_done s \<subseteq> Ids ops" .
  then show ?thesis using path_done [OF assms] by (simp add: Init_def)
qed

lemma path_bound:
  assumes "path (Linearize ops) Init is s"
  shows "length is \<le> length ops"
proof -
  have "card (set is) \<le> card (Ids ops)"
    using path_indices [OF assms] by (intro card_mono) (simp_all add: Ids_def)
  then show ?thesis using path_indices [OF assms] by (simp add: Ids_def distinct_card)
qed

lemma goal_reachable_iff:
  assumes "wf_history ops"
  shows "(\<exists>s. reachable ops s \<and> \<not> NoLinearization ops s) \<longleftrightarrow> linearizable ops"
proof -
  have "(\<exists>s. reachable ops s \<and> \<not> NoLinearization ops s) \<longleftrightarrow>
      (\<exists>is s. path (Linearize ops) Init is s \<and> {op \<in> set ops. op_completed op} \<subseteq> Ops ops ` tla_done s)"
    using goal_image [OF assms] reachable_done Ids_subsets(2) reachable_iff_path by (meson order_trans)
  then show ?thesis using tla.goal_reachable_iff_linearizable [OF assms] by blast
qed

section \<open>Histories that cannot be linearized\<close>

lemma legal_read: "legal v (xs @ r # ys) \<Longrightarrow> op_kind r = OpRead \<Longrightarrow> op_result r = foldl register_after v xs"
  by (induction xs arbitrary: v) auto

lemma foldl_register_reads: "list_all (\<lambda>op. op_kind op = OpRead) xs \<Longrightarrow> foldl register_after v xs = v"
  by (induction xs arbitrary: v) (auto simp: register_after_def)

lemma foldl_register_writes:
  assumes "\<And>w. w \<in> set xs \<Longrightarrow> op_kind w = OpWrite \<Longrightarrow> op_value w \<noteq> []"
    and "v \<noteq> [] \<or> (\<exists>w \<in> set xs. op_kind w = OpWrite)"
  shows "foldl register_after v xs \<noteq> []"
  using assms by (induction xs arbitrary: v) (auto simp: register_after_def)

lemma linearization_split:
  assumes "linearization ops xs" and "r \<in> set ops" and "op_completed r"
  obtains ys zs where "xs = ys @ r # zs" and "legal [] (ys @ r # zs)"
    and "\<And>a. a \<in> set ys \<Longrightarrow> \<not> precedes r a" and "\<And>a. a \<in> set zs \<Longrightarrow> \<not> precedes a r"
proof -
  have "r \<in> set xs" using assms by (auto simp: linearization_def)
  then obtain ys zs where xs: "xs = ys @ r # zs" by (meson split_list)
  with assms(1) show thesis
    by (intro that [OF xs]) (auto simp: linearization_def respects_real_time_def sorted_wrt_append)
qed

text \<open>A read that returned before every write was invoked can only return the initial value.\<close>

lemma future_value_not_linearizable:
  assumes "r \<in> set ops" and "op_completed r" and "op_kind r = OpRead" and "op_result r \<noteq> []"
    and "\<And>w. w \<in> set ops \<Longrightarrow> op_kind w = OpWrite \<Longrightarrow> precedes r w"
  shows "\<not> linearizable ops"
proof
  assume "linearizable ops"
  then obtain xs where lin: "linearization ops xs" by (auto simp: linearizable_def)
  obtain ys zs where split: "xs = ys @ r # zs" "legal [] (ys @ r # zs)" "\<And>a. a \<in> set ys \<Longrightarrow> \<not> precedes r a"
    using linearization_split [OF lin assms(1,2)] by metis
  have "set ys \<subseteq> set ops" using lin split(1) by (auto simp: linearization_def)
  with split(3) assms(5) have "op_kind a = OpRead" if "a \<in> set ys" for a
    using that by (cases "op_kind a") auto
  then have "foldl register_after [] ys = []" by (intro foldl_register_reads) (simp add: list_all_iff)
  with legal_read [OF split(2) assms(3)] assms(4) show False by simp
qed

text \<open>A read that follows a completed write cannot return the initial value when no write restores it.\<close>

lemma stale_value_not_linearizable:
  assumes "r \<in> set ops" and "op_completed r" and "op_kind r = OpRead" and "op_result r = []"
    and "w \<in> set ops" and "op_kind w = OpWrite" and "precedes w r"
    and "\<And>w. w \<in> set ops \<Longrightarrow> op_kind w = OpWrite \<Longrightarrow> op_value w \<noteq> []"
  shows "\<not> linearizable ops"
proof
  assume "linearizable ops"
  then obtain xs where lin: "linearization ops xs" by (auto simp: linearizable_def)
  obtain ys zs where split: "xs = ys @ r # zs" "legal [] (ys @ r # zs)" "\<And>a. a \<in> set zs \<Longrightarrow> \<not> precedes a r"
    using linearization_split [OF lin assms(1,2)] by metis
  have "w \<in> set xs" using lin assms(5,7) by (auto simp: linearization_def precedes_def)
  moreover have "w \<noteq> r" using assms(3,6) by auto
  ultimately have "w \<in> set ys" using split assms(7) by auto
  moreover have "set ys \<subseteq> set ops" using lin split(1) by (auto simp: linearization_def)
  ultimately have "foldl register_after [] ys \<noteq> []"
    using assms(6,8) by (intro foldl_register_writes) auto
  with legal_read [OF split(2) assms(3)] assms(4) show False by simp
qed

section \<open>Properties\<close>

text \<open>Two overlapping writes and the reads between them, as operations.\<close>

definition example_history :: "operation list" where
  "example_history =
     [\<lparr>op_id = lit ''a'', op_kind = OpWrite, op_value = lit ''A'', op_result = [], op_invoked = 0, op_returned = 5\<rparr>,
      \<lparr>op_id = lit ''r'', op_kind = OpRead, op_value = [], op_result = lit ''A'', op_invoked = 6, op_returned = 7\<rparr>]"

lemmas linearization_eval = linearization_def candidate_def op_completed_def respects_real_time_def
  precedes_def register_after_def

lemma example_history_wf: "wf_history example_history"
  by (simp add: wf_history_def example_history_def op_completed_def)

lemma example_history_linearizable: "linearizable example_history"
  unfolding linearizable_def
  by (rule exI [of _ example_history]) (auto simp: example_history_def linearization_eval)

definition example_state :: tla_state where
  "example_state = \<lparr>tla_done = {1}, tla_value = lit ''A''\<rparr>"

lemma example_step: "Linearize example_history Init (Suc 0) example_state"
proof -
  have op: "Ops example_history (Suc 0) = hd example_history" by (simp add: Ops_def example_history_def)
  have "Linearize example_history Init (Suc 0) \<lparr>tla_done = insert (Suc 0) (tla_done Init),
      tla_value = (if op_kind (Ops example_history (Suc 0)) = OpWrite then op_value (Ops example_history (Suc 0))
        else tla_value Init)\<rparr>"
  proof (rule Linearize.intros)
    show "Suc 0 \<in> Candidates example_history - tla_done Init"
      by (simp add: Candidates_def Completed_def Ids_def Init_def op) (simp add: example_history_def)
    show "Predecessors example_history (Suc 0) \<subseteq> tla_done Init"
      by (auto simp: Predecessors_def Completed_def op) (simp add: example_history_def)
  qed (simp add: Ops_def example_history_def)
  then show ?thesis by (simp only: op) (simp add: example_history_def example_state_def Init_def)
qed

text \<open>
  C13: the TLA+ model is adequate: on a well-formed history, TLC finds every reachable state to
  satisfy \<open>NoLinearization\<close> exactly when the history has no linearization, that is no order of
  its completed operations and some of its pending writes that is legal for a register and
  respects real time.
\<close>

theorem model_exhausted_iff:
  assumes "wf_history ops"
  shows "(\<forall>s. reachable ops s \<longrightarrow> NoLinearization ops s) \<longleftrightarrow> \<not> linearizable ops"
  using goal_reachable_iff [OF assms] by blast

theorem model_exhausted_iff_witness:
  "\<exists>s. reachable example_history s \<and> \<not> NoLinearization example_history s"
  using model_exhausted_iff [OF example_history_wf] example_history_linearizable by blast

text \<open>
  C22: \<open>HistoryTypeInv\<close>, which the configuration asks TLC to check, holds in every reachable state,
  so a run can only stop on \<open>NoLinearization\<close>.
\<close>

theorem HistoryTypeInv_reachable: "reachable ops s \<Longrightarrow> HistoryTypeInv ops s"
proof (induction rule: reachable.induct)
  case (reachable_Next s i s')
  then show ?case by (auto simp: HistoryTypeInv_def Candidates_def Completed_def elim!: LinearizeE)
qed (simp add: HistoryTypeInv_def Init_def)

theorem HistoryTypeInv_reachable_witness: "HistoryTypeInv example_history example_state"
  by (rule HistoryTypeInv_reachable [OF reachable_Next [OF reachable_Init example_step]])

text \<open>
  C23: every run of the model takes at most one step per operation, so TLC's search is finite and
  a counterexample has at most \<open>len(operations) + 1\<close> states.
\<close>

theorem model_run_bound: "path (Linearize ops) Init is s \<Longrightarrow> distinct is \<and> length is \<le> length ops"
  using path_done path_bound by blast

theorem model_run_bound_witness: "distinct [1 :: nat] \<and> length [1 :: nat] \<le> length example_history"
  by (rule model_run_bound [of example_history "[1]" example_state]) (simp add: example_step)

end
