(* ===== verification/History_Check.thy ===== *)
theory History_Check
  imports Trace_Check Register_History
begin

text \<open>
  history_check.py without its extraction: the schema of a register history, the judgement of
  a TLC log, the replay of a linearization order and the verification of the witness TLC
  dumps.  The replay implements the selector interface of Register_History, hence accepts
  exactly the linearizations of the history.
\<close>

section \<open>validate_history\<close>

text \<open>\<open>isinstance(v, str) and len(v.encode("utf-8")) <= 8192\<close>.\<close>

definition register_text :: "pyval \<Rightarrow> unit res" where
  "register_text v = (case v of
      PStr s \<Rightarrow> bindE (utf8_encode s) (\<lambda>bs. require (length bs \<le> 8192) ''Unsupported register value'')
    | _ \<Rightarrow> Inl (ValueError ''Unsupported register value''))"

text \<open>The body of the loop; the state is the set \<open>ids\<close> of the ids seen.\<close>

definition validate_operation :: "pstr set \<Rightarrow> pyval \<Rightarrow> pstr set res" where
  "validate_operation ids op =
     bindE (Py_Values.fields op [''id'', ''kind'', ''value'', ''result'', ''invoked'', ''returned'']) (\<lambda>_.
     bindE (getitem op ''id'') (\<lambda>i.
     bindE (require (is_str i \<and> 0 < length (the_str i) \<and> length (the_str i) \<le> 9000 \<and> the_str i \<notin> ids)
              ''Invalid/duplicate operation ID'') (\<lambda>_.
     bindE (getitem op ''kind'') (\<lambda>kind.
     bindE (require (in_tuple kind [''read'', ''write'']) ''Unknown operation'') (\<lambda>_.
     bindE (getitem op ''value'') (\<lambda>value.
     bindE (register_text value) (\<lambda>_.
     bindE (getitem op ''result'') (\<lambda>result.
     bindE (register_text result) (\<lambda>_.
     bindE (getitem op ''invoked'') (\<lambda>invoked.
     bindE (natural_upto 1000 invoked) (\<lambda>_.
     bindE (getitem op ''returned'') (\<lambda>returned.
     bindE (require (case returned of PInt r \<Rightarrow> - 1 \<le> r \<and> r \<le> 1000 | _ \<Rightarrow> False) ''Invalid return time'') (\<lambda>_.
     bindE (require (the_int returned = - 1 \<or> the_int invoked \<le> the_int returned)
              ''Response precedes invocation'') (\<lambda>_.
     bindE (require (\<not> is_lit kind ''read'' \<or> value = PStr []) ''Read has a write argument'') (\<lambda>_.
     bindE (require (\<not> is_lit kind ''write'' \<or> result = PStr []) ''Write has an unexpected result'') (\<lambda>_.
     bindE (require (the_int returned \<noteq> - 1 \<or> result = PStr []) ''Pending operation has a result'') (\<lambda>_.
     Inr (insert (the_str i) ids))))))))))))))))))"

definition validate_history :: "pyval \<Rightarrow> unit res" where
  "validate_history operations =
     bindE (require (case operations of PList ops \<Rightarrow> 0 < length ops \<and> length ops \<le> 16 | _ \<Rightarrow> False)
              ''Unsupported history size'') (\<lambda>_.
     bindE (foldE validate_operation {} (the_list operations)) (\<lambda>_.
     bindE (mapE (\<lambda>op. getitem op ''returned'') (the_list operations)) (\<lambda>returned.
     require (list_ex (\<lambda>r. 0 \<le> the_int r) returned) ''No completed operations'')))"

text \<open>
  The typed view of a validated operation, through which the later functions read its
  fields: after \<open>validate_history\<close> each \<open>op[...]\<close> is present and of the type read here.
\<close>

definition operation_of :: "pyval \<Rightarrow> operation" where
  "operation_of op = \<lparr>op_id = the_str (item op ''id''),
     op_kind = (if is_lit (item op ''kind'') ''write'' then OpWrite else OpRead),
     op_value = the_str (item op ''value''), op_result = the_str (item op ''result''),
     op_invoked = the_int (item op ''invoked''), op_returned = the_int (item op ''returned'')\<rparr>"

definition history_of :: "pyval \<Rightarrow> operation list" where
  "history_of operations = map operation_of (the_list operations)"

section \<open>verdict\<close>

text \<open>\<open>uword\<close> is the Unicode part of \<open>\\w\<close>, see Tlc_Output.\<close>

definition verdict :: "(nat \<Rightarrow> bool) \<Rightarrow> int \<Rightarrow> pstr \<Rightarrow> nat \<Rightarrow> bool res" where
  "verdict uword returncode t n =
     (if returncode = 12 \<and> violations uword t = [lit ''NoLinearization'']
         \<and> contains (marker ''RAFTZ_HISTORY_COMPLETE'' n) t
         \<and> contains behavior_text t \<and> has_state_two t
      then Inr True
      else if returncode = 0 \<and> violations uword t = [] \<and> contains no_error_text t
         \<and> \<not> contains (lit ''RAFTZ_HISTORY_COMPLETE'') t
         \<and> summaries t \<noteq> [] \<and> 1 \<le> undec (fst (snd (last (summaries t))))
         \<and> snd (snd (last (summaries t))) = lit ''0''
      then Inr False
      else Inl (RuntimeError
        ''TLC did not produce an exact linearization witness or finish excluding all linearizations''))"

section \<open>replay\<close>

text \<open>\<open>by_id\<close>: a later operation with the same id would win.\<close>

definition by_id :: "operation list \<Rightarrow> pstr \<Rightarrow> operation option" where
  "by_id ops = map_of (rev (map (\<lambda>op. (op_id op, op)) ops))"

text \<open>The body of the replay loop, on the set \<open>done\<close> of ids and the list \<open>values\<close>.\<close>

definition replay_step ::
  "operation list \<Rightarrow> pstr set \<times> pstr list \<Rightarrow> pstr \<Rightarrow> (pstr set \<times> pstr list) res" where
  "replay_step ops st identity = (case st of (selected, values) \<Rightarrow>
     bindE (require (by_id ops identity \<noteq> None \<and> identity \<notin> selected) ''Unknown or repeated witness operation'') (\<lambda>_.
     let op = the (by_id ops identity) in
     bindE (require (0 \<le> op_returned op \<or> op_kind op = OpWrite) ''Pending read in witness'') (\<lambda>_.
     bindE (require (list_all (\<lambda>other. op_id other \<in> selected)
              (filter (\<lambda>other. 0 \<le> op_returned other \<and> op_returned other < op_invoked op) ops))
              ''Witness violates real-time precedence'') (\<lambda>_.
     bindE (if op_kind op = OpRead
            then require (op_result op = last values) ''Witness read does not match register value''
            else Inr ()) (\<lambda>_.
     Inr (insert identity selected,
          values @ [if op_kind op = OpWrite then op_value op else last values]))))))"

definition replay :: "pyval \<Rightarrow> pyval \<Rightarrow> pyval res" where
  "replay operations order =
     bindE (validate_history operations) (\<lambda>_.
     let ops = history_of operations in
     bindE (require (case order of PList ids \<Rightarrow> length ids \<le> length ops \<and> list_all is_str ids | _ \<Rightarrow> False)
              ''Invalid linearization order'') (\<lambda>_.
     bindE (foldE (replay_step ops) ({}, [[]]) (map the_str (the_list order))) (\<lambda>(selected, values).
     bindE (require (list_all (\<lambda>op. op_id op \<in> selected) (filter (\<lambda>op. 0 \<le> op_returned op) ops))
              ''Witness omits a completed operation'') (\<lambda>_.
     Inr (mkdict [(''version'', PInt 1), (''order'', order), (''values'', PList (map PStr values)),
       (''omitted'', PList (map (PStr \<circ> op_id) (filter (\<lambda>op. op_id op \<notin> selected) ops)))])))))"

section \<open>verify_witness\<close>

text \<open>The transition \<open>edge\<close> from the previous state, for a step that selected \<open>index\<close>.\<close>

definition verify_edge :: "pyval \<Rightarrow> pyval \<Rightarrow> int \<Rightarrow> pyval \<Rightarrow> unit res" where
  "verify_edge prior state index edge =
     bindE (require (case edge of PList [a, _, b] \<Rightarrow> key a = key prior \<and> key b = key state | _ \<Rightarrow> False)
              ''Disconnected witness transition'') (\<lambda>_.
     let act = the_list edge ! 1 in
     bindE (Py_Values.fields act [''name'', ''location'', ''context'', ''parameters'']) (\<lambda>_.
     bindE (getitem act ''context'') (\<lambda>ctx.
     bindE (Py_Values.fields ctx [''i'']) (\<lambda>_.
     bindE (getitem act ''name'') (\<lambda>name.
     bindE (getitem act ''parameters'') (\<lambda>params.
     bindE (getitem ctx ''i'') (\<lambda>i.
     require (is_lit name ''Linearize'' \<and> params = PList [S ''i''] \<and> i = PInt index)
       ''Witness action disagrees with selected operation'')))))))"

text \<open>One element of \<open>states\<close>: its number, the list of its \<open>done\<close> set and its \<open>value\<close>.\<close>

definition witness_vars :: "operation list \<Rightarrow> int \<Rightarrow> pyval \<Rightarrow> (int list \<times> pyval) res" where
  "witness_vars ops position state =
     bindE (require (case state of PList [n, _] \<Rightarrow> n = PInt position | _ \<Rightarrow> False)
              ''Invalid witness state numbering'') (\<lambda>_.
     let vars = the_list state ! 1 in
     bindE (Py_Values.fields vars [''done'', ''value'']) (\<lambda>_.
     bindE (getitem vars ''done'') (\<lambda>sel.
     bindE (require (case sel of
                PList is \<Rightarrow> length is \<le> length ops
                  \<and> list_all (\<lambda>v. case v of PInt i \<Rightarrow> 1 \<le> i \<and> i \<le> int (length ops) | _ \<Rightarrow> False) is
              | _ \<Rightarrow> False) ''Invalid witness operation indices'') (\<lambda>_.
     let indices = map the_int (the_list sel) in
     bindE (require (card (set indices) = length indices) ''Duplicate witness set member'') (\<lambda>_.
     bindE (getitem vars ''value'') (\<lambda>value.
     Inr (indices, value)))))))"

text \<open>
  The loop over the states; its state is \<open>previous\<close>, \<open>order\<close> and \<open>values\<close>.  The popped element of
  \<open>done - previous\<close> is its only one.
\<close>

definition verify_state ::
  "operation list \<Rightarrow> pyval list \<Rightarrow> pyval list \<Rightarrow> int set \<times> pstr list \<times> pyval list
   \<Rightarrow> int \<times> pyval \<Rightarrow> (int set \<times> pstr list \<times> pyval list) res" where
  "verify_state ops states actions st ps = (case st of (previous, order, values) \<Rightarrow> case ps of (position, state) \<Rightarrow>
     bindE (witness_vars ops position state) (\<lambda>(indices, value).
     let chosen = set indices in
     if position = 1 then
       bindE (require (chosen = {} \<and> value = PStr []) ''Invalid witness initial state'') (\<lambda>_.
       Inr (chosen, order, values @ [value]))
     else
       bindE (require (previous \<subset> chosen \<and> card chosen = card previous + 1)
                ''Witness transition must add exactly one operation'') (\<lambda>_.
       let index = hd (filter (\<lambda>i. i \<notin> previous) indices) in
       bindE (verify_edge (states ! nat (position - 2)) state index (actions ! nat (position - 2))) (\<lambda>_.
       Inr (chosen, order @ [op_id (ops ! nat (index - 1))], values @ [value])))))"

text \<open>The part of \<open>verify_witness\<close> after the file has been parsed.\<close>

definition verify_raw :: "pyval \<Rightarrow> pyval \<Rightarrow> pyval res" where
  "verify_raw operations raw =
     (let ops = history_of operations in
     bindE (Py_Values.fields raw [''counterexample'', ''vars'']) (\<lambda>_.
     bindE (getitem raw ''vars'') (\<lambda>vars.
     bindE (require (vars = PList [S ''done'', S ''value'']) ''Unexpected witness variables'') (\<lambda>_.
     bindE (getitem raw ''counterexample'') (\<lambda>trace.
     bindE (Py_Values.fields trace [''state'', ''action'']) (\<lambda>_.
     bindE (getitem trace ''state'') (\<lambda>states.
     bindE (getitem trace ''action'') (\<lambda>actions.
     bindE (require (case states of PList ss \<Rightarrow> 2 \<le> length ss \<and> length ss \<le> length ops + 1 | _ \<Rightarrow> False)
              ''Invalid witness state count'') (\<lambda>_.
     bindE (require (case actions of PList as \<Rightarrow> length as = length (the_list states) - 1 | _ \<Rightarrow> False)
              ''Missing witness transitions'') (\<lambda>_.
     bindE (foldE (verify_state ops (the_list states) (the_list actions)) ({}, [], [])
              (enum_from 1 (the_list states))) (\<lambda>(_, order, values).
     bindE (replay operations (PList (map PStr order))) (\<lambda>witness.
     bindE (getitem witness ''values'') (\<lambda>expected.
     bindE (require (PList values = expected) ''TLC witness values disagree with independent replay'') (\<lambda>_.
     Inr witness))))))))))))))"

definition verify_witness :: "(nat list \<Rightarrow> pyval res) \<Rightarrow> pyval \<Rightarrow> nat list \<Rightarrow> pyval res" where
  "verify_witness loads operations data =
     bindE (validate_history operations) (\<lambda>_.
     bindE (require (0 < length data \<and> length data \<le> 4000000) ''Empty or oversized witness'') (\<lambda>_.
     bindE (loads data) (\<lambda>raw. verify_raw operations raw)))"

section \<open>What validate_history accepts\<close>


lemma getitem_item: "Py_Values.fields d names = Inr u \<Longrightarrow> k \<in> set names \<Longrightarrow> getitem d k = Inr (item d k)"
  using fields_getitem [of d names u k] by (auto simp: item_def)

lemma register_text_eq_Inr [run_simps]:
  "register_text v = Inr u \<longleftrightarrow> (\<exists>s bs. v = PStr s \<and> utf8_encode s = Inr bs \<and> length bs \<le> 8192)"
  by (auto simp: register_text_def run_simps split: pyval.splits)

definition is_int :: "pyval \<Rightarrow> bool" where
  "is_int v = (case v of PInt _ \<Rightarrow> True | _ \<Rightarrow> False)"

definition typed_operation :: "pyval \<Rightarrow> bool" where
  "typed_operation d \<longleftrightarrow>
     Py_Values.fields d [''id'', ''kind'', ''value'', ''result'', ''invoked'', ''returned''] = Inr ()
     \<and> is_str (item d ''id'') \<and> in_tuple (item d ''kind'') [''read'', ''write'']
     \<and> is_str (item d ''value'') \<and> is_str (item d ''result'')
     \<and> is_int (item d ''invoked'') \<and> is_int (item d ''returned'')"

definition register_value :: "pstr \<Rightarrow> bool" where
  "register_value s \<longleftrightarrow> (case utf8_encode s of Inr bs \<Rightarrow> length bs \<le> 8192 | Inl _ \<Rightarrow> False)"

definition operation_ok :: "operation \<Rightarrow> bool" where
  "operation_ok op \<longleftrightarrow> op_id op \<noteq> [] \<and> length (op_id op) \<le> 9000
     \<and> register_value (op_value op) \<and> register_value (op_result op)
     \<and> 0 \<le> op_invoked op \<and> op_invoked op \<le> 1000
     \<and> (op_returned op = - 1 \<or> op_invoked op \<le> op_returned op \<and> op_returned op \<le> 1000)
     \<and> (op_kind op = OpRead \<longrightarrow> op_value op = []) \<and> (op_kind op = OpWrite \<longrightarrow> op_result op = [])
     \<and> (op_returned op = - 1 \<longrightarrow> op_result op = [])"

lemma register_text_PStr: "register_text (PStr s) = Inr u \<longleftrightarrow> register_value s"
  by (auto simp: register_text_def register_value_def run_simps split: sum.splits)

lemma validate_operation_eq_Inr:
  "validate_operation ids d = Inr ids' \<longleftrightarrow>
     typed_operation d \<and> operation_ok (operation_of d) \<and> op_id (operation_of d) \<notin> ids
     \<and> ids' = insert (op_id (operation_of d)) ids"
proof (cases "Py_Values.fields d [''id'', ''kind'', ''value'', ''result'', ''invoked'', ''returned''] = Inr ()")
  case True
  note get = getitem_item [OF True]
  have "is_str v \<longleftrightarrow> (\<exists>s. v = PStr s)" "is_int v \<longleftrightarrow> (\<exists>i. v = PInt i)" for v
    by (auto simp: is_str_def is_int_def split: pyval.splits)
  then show ?thesis
    by (auto simp: validate_operation_def True get typed_operation_def operation_ok_def
        operation_of_def run_simps register_value_def is_lit_def split: pyval.splits sum.splits)
next
  case False
  then show ?thesis by (auto simp: validate_operation_def typed_operation_def bindE_eq_Inr)
qed

lemma validate_loop:
  "foldE validate_operation ids ds = Inr ids' \<longleftrightarrow>
     list_all (\<lambda>d. typed_operation d \<and> operation_ok (operation_of d)) ds
     \<and> distinct (map (op_id \<circ> operation_of) ds)
     \<and> ids \<inter> (op_id \<circ> operation_of) ` set ds = {} \<and> ids' = ids \<union> (op_id \<circ> operation_of) ` set ds"
  by (induction ds arbitrary: ids) (auto simp: bindE_eq_Inr validate_operation_eq_Inr)

lemma typed_operation_returned:
  "typed_operation d \<Longrightarrow> getitem d ''returned'' = Inr (PInt (op_returned (operation_of d)))"
  by (auto simp: typed_operation_def operation_of_def is_int_def getitem_item split: pyval.splits)

lemma validate_history_eq_Inr:
  "validate_history operations = Inr u \<longleftrightarrow>
     (\<exists>ds. operations = PList ds \<and> 0 < length ds \<and> length ds \<le> 16 \<and> list_all typed_operation ds)
     \<and> list_all operation_ok (history_of operations) \<and> distinct (map op_id (history_of operations))
     \<and> list_ex op_completed (history_of operations)"
  (is "?lhs \<longleftrightarrow> ?rhs")
proof -
  have "mapE (\<lambda>op. getitem op ''returned'') ds = Inr (map (\<lambda>d. PInt (op_returned (operation_of d))) ds)"
    if "list_all typed_operation ds" for ds
    using that by (intro mapE_Inr_map) (simp add: list_all_iff typed_operation_returned)
  then show ?thesis
    by (cases operations)
      (auto simp: validate_history_def history_of_def validate_loop run_simps list_all_iff list_ex_iff
        op_completed_def, blast)
qed

lemma validate_history_wf: "validate_history operations = Inr u \<Longrightarrow> wf_history (history_of operations)"
  by (auto simp: validate_history_eq_Inr wf_history_def operation_ok_def list_all_iff op_completed_def)

section \<open>What replay accepts\<close>

lemma by_id_eq_Some:
  assumes "distinct (map op_id ops)"
  shows "by_id ops i = Some op \<longleftrightarrow> op \<in> set ops \<and> op_id op = i"
proof -
  have "distinct (map fst (rev (map (\<lambda>op. (op_id op, op)) ops)))"
    using assms by (simp add: rev_map [symmetric] comp_def)
  then show ?thesis by (auto simp: by_id_def map_of_eq_Some_iff)
qed

text \<open>Replaying is folding the step over the order, a path of the step's relation.\<close>

lemma path_foldE: "path (\<lambda>s i s'. f s i = Inr s') s is s' \<longleftrightarrow> foldE f s is = Inr s'"
  by (induction "is" arbitrary: s) (auto simp: bindE_eq_Inr)

lemma op_of_id:
  assumes "distinct (map op_id ops)" and "op \<in> set ops"
  shows "by_id ops (op_id op) = Some op"
  using assms by (simp add: by_id_eq_Some)

lemma replay_step_eq_Inr:
  assumes "distinct (map op_id ops)"
  shows "replay_step ops (selected, values) i = Inr st \<longleftrightarrow>
    (\<exists>op \<in> set ops. op_id op = i \<and> selectable ops {op \<in> set ops. op_id op \<in> selected} (last values) op
      \<and> st = (insert i selected, values @ [register_after (last values) op]))"
    (is "_ \<longleftrightarrow> ?rhs")
proof (cases "by_id ops i")
  case None
  then have "\<not> ?rhs" using op_of_id [OF assms] by force
  with None show ?thesis by (simp add: replay_step_def run_simps)
next
  case (Some op)
  then have op: "op \<in> set ops" "op_id op = i" using by_id_eq_Some [OF assms] by simp_all
  have unique: "op' = op" if "op' \<in> set ops" "op_id op' = i" for op'
    using op_of_id [OF assms that(1)] that(2) Some by simp
  have "replay_step ops (selected, values) i = Inr st \<longleftrightarrow>
      selectable ops {op \<in> set ops. op_id op \<in> selected} (last values) op
      \<and> st = (insert i selected, values @ [register_after (last values) op])"
    using op by (cases "op_kind op")
      (auto simp: replay_step_def Some run_simps selectable_def candidate_def op_completed_def
        precedes_def register_after_def list_all_iff)
  then show ?thesis using op unique by blast
qed

interpretation replaying: selector
  "\<lambda>ops s i s'. replay_step ops s i = Inr s'" "({}, [[]])"
  "\<lambda>ops s. {op \<in> set ops. op_id op \<in> fst s}" "\<lambda>s. last (snd s)" "\<lambda>ops i. the (by_id ops i)" "\<lambda>_ _. True"
proof unfold_locales
  fix ops i and s s' :: "pstr set \<times> pstr list"
  assume "wf_history ops" and step: "replay_step ops s i = Inr s'"
  then have dist: "distinct (map op_id ops)" by (simp add: wf_history_def)
  obtain selected vs where s: "s = (selected, vs)" by (cases s)
  obtain op where op: "op \<in> set ops" "op_id op = i"
    and sel: "selectable ops {op \<in> set ops. op_id op \<in> selected} (last vs) op"
    and s': "s' = (insert i selected, vs @ [register_after (last vs) op])"
    using step unfolding s replay_step_eq_Inr [OF dist] by blast
  have "{x \<in> set ops. op_id x = i \<or> op_id x \<in> selected} = insert op {x \<in> set ops. op_id x \<in> selected}"
    using op dist by (auto simp: distinct_map inj_on_def)
  then show "the (by_id ops i) \<in> set ops
      \<and> selectable ops {op \<in> set ops. op_id op \<in> fst s} (last (snd s)) (the (by_id ops i)) \<and> True
      \<and> {op \<in> set ops. op_id op \<in> fst s'} = insert (the (by_id ops i)) {op \<in> set ops. op_id op \<in> fst s}
      \<and> last (snd s') = register_after (last (snd s)) (the (by_id ops i))"
    using op sel op_of_id [OF dist op(1)] by (simp add: s s')
next
  fix ops op and s :: "pstr set \<times> pstr list"
  assume "wf_history ops" and op: "op \<in> set ops"
    and sel: "selectable ops {op \<in> set ops. op_id op \<in> fst s} (last (snd s)) op"
  then have dist: "distinct (map op_id ops)" by (simp add: wf_history_def)
  obtain selected vs where s: "s = (selected, vs)" by (cases s)
  have "replay_step ops s (op_id op) = Inr (insert (op_id op) selected, vs @ [register_after (last vs) op])"
    using sel op unfolding s replay_step_eq_Inr [OF dist] by auto
  then show "\<exists>i s'. the (by_id ops i) = op \<and> replay_step ops s i = Inr s'"
    using op_of_id [OF dist op] by force
qed simp_all

fun register_values :: "pstr \<Rightarrow> operation list \<Rightarrow> pstr list" where
  "register_values v [] = [v]"
| "register_values v (op # xs) = v # register_values (register_after v op) xs"

definition witness_dict :: "operation list \<Rightarrow> operation list \<Rightarrow> pyval" where
  "witness_dict ops xs = mkdict [(''version'', PInt 1), (''order'', PList (map (PStr \<circ> op_id) xs)),
     (''values'', PList (map PStr (register_values [] xs))),
     (''omitted'', PList (map (PStr \<circ> op_id) (filter (\<lambda>op. op \<notin> set xs) ops)))]"

lemma replay_loop_state:
  assumes "distinct (map op_id ops)"
  shows "foldE (replay_step ops) (selected, vs @ [v]) ids = Inr st \<Longrightarrow>
    st = (selected \<union> set ids, vs @ register_values v (map (the \<circ> by_id ops) ids))
    \<and> map op_id (map (the \<circ> by_id ops) ids) = ids \<and> set (map (the \<circ> by_id ops) ids) \<subseteq> set ops"
proof (induction ids arbitrary: selected vs v)
  case (Cons i ids)
  then obtain op where op: "op \<in> set ops" "op_id op = i"
    and rest: "foldE (replay_step ops) (insert i selected, (vs @ [v]) @ [register_after v op]) ids = Inr st"
    by (auto simp: bindE_eq_Inr replay_step_eq_Inr [OF assms])
  have "the (by_id ops i) = op" using op_of_id [OF assms op(1)] op(2) by simp
  with Cons.IH [OF rest] op show ?case by simp
qed simp

lemma replay_ids:
  assumes "distinct (map op_id ops)" and "set xs \<subseteq> set ops"
  shows "map (the \<circ> by_id ops) (map op_id xs) = xs"
  using assms by (auto simp: op_of_id subset_iff intro!: map_idI)

lemma replay_loop:
  assumes wf: "wf_history ops" and sub: "set xs \<subseteq> set ops"
  shows "foldE (replay_step ops) ({}, [[]]) (map op_id xs) = Inr st
      \<and> list_all (\<lambda>op. op_id op \<in> fst st) (filter (\<lambda>op. 0 \<le> op_returned op) ops)
    \<longleftrightarrow> linearization ops xs \<and> st = (op_id ` set xs, register_values [] xs)"
proof -
  have dist: "distinct (map op_id ops)" using wf by (simp add: wf_history_def)
  note ids = replay_ids [OF dist sub]
  have goal: "list_all (\<lambda>op. op_id op \<in> fst s) (filter (\<lambda>op. 0 \<le> op_returned op) ops) \<longleftrightarrow>
      {op \<in> set ops. op_completed op} \<subseteq> {op \<in> set ops. op_id op \<in> fst s}" for s :: "pstr set \<times> pstr list"
    by (auto simp: list_all_iff op_completed_def)
  have run: "foldE (replay_step ops) ({}, [[]]) (map op_id xs) = Inr s \<Longrightarrow>
      s = (op_id ` set xs, register_values [] xs)" for s
    using replay_loop_state [OF dist, of "{}" "[]" "[]" "map op_id xs" s] ids by simp
  have lin: "foldE (replay_step ops) ({}, [[]]) (map op_id xs) = Inr s \<Longrightarrow>
      list_all (\<lambda>op. op_id op \<in> fst s) (filter (\<lambda>op. 0 \<le> op_returned op) ops) \<longleftrightarrow> linearization ops xs" for s
    using replaying.goal_iff_linearization [OF wf, of "map op_id xs" s] ids
    by (simp add: path_foldE goal comp_def)
  have "\<exists>s. foldE (replay_step ops) ({}, [[]]) (map op_id xs) = Inr s" if xs: "linearization ops xs"
  proof -
    obtain "is" s where map: "map (\<lambda>i. the (by_id ops i)) is = xs"
      and path: "foldE (replay_step ops) ({}, [[]]) is = Inr s"
      using replaying.linearization_path [OF wf xs] by (auto simp: path_foldE)
    have "is = map op_id xs"
      using replay_loop_state [OF dist, of "{}" "[]" "[]" "is" s] path map by (simp add: comp_def)
    with path show ?thesis by blast
  qed
  with run lin show ?thesis by blast
qed

lemma map_the_str: "(\<forall>v \<in> set xs. \<exists>s. v = PStr s) \<Longrightarrow> map PStr (map the_str xs) = xs"
  by (induction xs) auto

lemma replay_run:
  assumes "validate_history operations = Inr ()"
  shows "replay operations order = Inr w \<longleftrightarrow>
    (\<exists>ids st. order = PList (map PStr ids) \<and> length ids \<le> length (history_of operations)
      \<and> foldE (replay_step (history_of operations)) ({}, [[]]) ids = Inr st
      \<and> list_all (\<lambda>op. op_id op \<in> fst st) (filter (\<lambda>op. 0 \<le> op_returned op) (history_of operations))
      \<and> w = mkdict [(''version'', PInt 1), (''order'', order), (''values'', PList (map PStr (snd st))),
         (''omitted'', PList (map (PStr \<circ> op_id)
           (filter (\<lambda>op. op_id op \<notin> fst st) (history_of operations))))])"
proof (cases "\<exists>ids. order = PList (map PStr ids)")
  case True
  then obtain ids where order: "order = PList (map PStr ids)" by blast
  have "inj PStr" by (rule injI) simp
  then have "map PStr ids = map PStr ids' \<longleftrightarrow> ids' = ids" for ids' by (auto simp: inj_map_eq_map)
  moreover have "map the_str (map PStr ids) = ids" by (simp add: comp_def)
  ultimately show ?thesis
    by (auto simp: replay_def assms order Let_def bindE_eq_Inr require_eq_Inr list_all_iff split_beta)
next
  case False
  then have "\<not> (case order of PList ids \<Rightarrow> length ids \<le> n \<and> list_all is_str ids | _ \<Rightarrow> False)" for n
    by (cases order) (simp_all add: list_all_iff is_str_iff, metis map_the_str)
  with False show ?thesis by (auto simp: replay_def Let_def bindE_eq_Inr require_eq_Inr)
qed

lemma replay_eq_Inr:
  assumes "validate_history operations = Inr ()"
  shows "replay operations order = Inr w \<longleftrightarrow>
    (\<exists>xs. order = PList (map (PStr \<circ> op_id) xs) \<and> linearization (history_of operations) xs
       \<and> w = witness_dict (history_of operations) xs)"
    (is "_ \<longleftrightarrow> ?rhs")
proof
  let ?ops = "history_of operations"
  have wf: "wf_history ?ops" and dist: "distinct (map op_id ?ops)"
    using validate_history_wf [OF assms] by (simp_all add: wf_history_def)
  {
    assume "replay operations order = Inr w"
    then obtain ids st where order: "order = PList (map PStr ids)"
      and run: "foldE (replay_step ?ops) ({}, [[]]) ids = Inr st"
      and full: "list_all (\<lambda>op. op_id op \<in> fst st) (filter (\<lambda>op. 0 \<le> op_returned op) ?ops)"
      and w: "w = mkdict [(''version'', PInt 1), (''order'', order), (''values'', PList (map PStr (snd st))),
         (''omitted'', PList (map (PStr \<circ> op_id) (filter (\<lambda>op. op_id op \<notin> fst st) ?ops)))]"
      unfolding replay_run [OF assms] by blast
    define xs where "xs = map (the \<circ> by_id ?ops) ids"
    have ids: "ids = map op_id xs" and sub: "set xs \<subseteq> set ?ops"
      using replay_loop_state [OF dist, of "{}" "[]" "[]" ids st] run by (simp_all add: xs_def)
    have "linearization ?ops xs \<and> st = (op_id ` set xs, register_values [] xs)"
      using replay_loop [OF wf sub, of st] run full ids by simp
    moreover have "filter (\<lambda>op. op_id op \<notin> op_id ` set xs) ?ops = filter (\<lambda>op. op \<notin> set xs) ?ops"
      using dist sub by (auto intro!: filter_cong simp: distinct_map inj_on_def)
    ultimately show ?rhs using order w ids by (auto simp: witness_dict_def)
  }
  assume ?rhs
  then obtain xs where order: "order = PList (map (PStr \<circ> op_id) xs)" and lin: "linearization ?ops xs"
    and w: "w = witness_dict ?ops xs" by blast
  have sub: "set xs \<subseteq> set ?ops" and "distinct xs" using lin by (auto simp: linearization_def)
  then have "length xs \<le> length ?ops" by (metis card_length card_mono distinct_card finite_set order_trans)
  moreover have "filter (\<lambda>op. op_id op \<notin> op_id ` set xs) ?ops = filter (\<lambda>op. op \<notin> set xs) ?ops"
    using dist sub by (auto intro!: filter_cong simp: distinct_map inj_on_def)
  moreover note replay_loop [OF wf sub, of "(op_id ` set xs, register_values [] xs)"]
  ultimately show "replay operations order = Inr w"
    unfolding replay_run [OF assms] using lin
    by (intro exI [of _ "map op_id xs"] exI [of _ "(op_id ` set xs, register_values [] xs)"])
      (simp add: order w witness_dict_def)
qed
section \<open>What verify_witness accepts\<close>


text \<open>
  A state of TLC's dump: the \<open>p\<close>-th, with the indices \<open>sel\<close> (in any order) and the value \<open>v\<close>.
\<close>

definition shows_vars :: "pyval \<Rightarrow> int \<Rightarrow> nat list \<Rightarrow> pyval \<Rightarrow> bool" where
  "shows_vars state p sel v \<longleftrightarrow> (\<exists>vars. state = PList [PInt p, vars]
     \<and> Py_Values.fields vars [''done'', ''value''] = Inr ()
     \<and> getitem vars ''done'' = Inr (PList (map (PInt \<circ> int) sel))
     \<and> getitem vars ''value'' = Inr v)"

definition shows_state :: "pyval \<Rightarrow> int \<Rightarrow> nat set \<Rightarrow> pyval \<Rightarrow> bool" where
  "shows_state state p A v \<longleftrightarrow> (\<exists>sel. distinct sel \<and> set sel = A \<and> shows_vars state p sel v)"

text \<open>
  A transition of the dump, \<open>Linearize(i)\<close> between two states: a triple of copies of the states (up to
  the order of their keys) around an action with the four fields, this name, the parameter list
  \<open>["i"]\<close> and the context \<open>{"i": i}\<close>; its location is arbitrary.
\<close>

definition shows_linearize :: "pyval \<Rightarrow> nat \<Rightarrow> bool" where
  "shows_linearize act i \<longleftrightarrow> (\<exists>kvs ctx. act = PDict kvs
     \<and> fst ` set kvs = {lit ''name'', lit ''location'', lit ''context'', lit ''parameters''}
     \<and> map_of kvs (lit ''name'') = Some (S ''Linearize'')
     \<and> map_of kvs (lit ''parameters'') = Some (PList [S ''i''])
     \<and> map_of kvs (lit ''context'') = Some (PDict ctx)
     \<and> fst ` set ctx = {lit ''i''} \<and> map_of ctx (lit ''i'') = Some (PInt (int i)))"

definition shows_action :: "pyval \<Rightarrow> nat \<Rightarrow> pyval \<Rightarrow> pyval \<Rightarrow> bool" where
  "shows_action prior i state edge \<longleftrightarrow> (\<exists>a act b. edge = PList [a, act, b]
     \<and> key a = key prior \<and> key b = key state \<and> shows_linearize act i)"

lemma verify_edge_iff: "verify_edge prior state (int i) edge = Inr () \<longleftrightarrow> shows_action prior i state edge"
proof (cases "\<exists>a act b. edge = PList [a, act, b]")
  case True
  then obtain a act b where edge: "edge = PList [a, act, b]" by blast
  have "fst ` set kvs = lit ` set [''name'', ''location'', ''context'', ''parameters'']
      \<longleftrightarrow> fst ` set kvs = {lit ''name'', lit ''location'', lit ''context'', lit ''parameters''}" for kvs :: "(pstr \<times> pyval) list"
    by simp
  then show ?thesis
    unfolding verify_edge_def shows_action_def shows_linearize_def edge Let_def bindE_eq_Inr require_eq_Inr fields_eq_Inr getitem_eq_Inr
    by (auto simp: is_lit_def)
next
  case False
  then show ?thesis
    by (auto simp: verify_edge_def shows_action_def bindE_eq_Inr require_eq_Inr split: pyval.splits list.splits)
qed

lemma index_list:
  "list_all (\<lambda>v. case v of PInt i \<Rightarrow> 1 \<le> i \<and> i \<le> int (length ops) | _ \<Rightarrow> False) vs \<longleftrightarrow>
     (\<exists>sel. vs = map (PInt \<circ> int) sel \<and> set sel \<subseteq> Ids ops)"
proof (induction vs)
  case (Cons v vs)
  have "(case v of PInt i \<Rightarrow> 1 \<le> i \<and> i \<le> int (length ops) | _ \<Rightarrow> False) \<longleftrightarrow> (\<exists>i \<in> Ids ops. v = PInt (int i))"
    by (cases v) (simp_all add: Ids_def index_range)
  moreover have "(\<exists>sel. v # vs = map (PInt \<circ> int) sel \<and> set sel \<subseteq> Ids ops) \<longleftrightarrow>
      (\<exists>i \<in> Ids ops. v = PInt (int i)) \<and> (\<exists>sel. vs = map (PInt \<circ> int) sel \<and> set sel \<subseteq> Ids ops)"
    by (auto simp: Cons_eq_map_conv) (metis insert_subset list.simps(15) map_eq_Cons_conv)
  ultimately show ?case using Cons.IH by (simp only: list.pred_inject)
qed simp

lemma new_index:
  assumes "distinct sel" and "int ` A \<subset> int ` set sel" and "card (int ` set sel) = card (int ` A) + 1"
    and "finite A"
  shows "\<exists>i. i \<notin> A \<and> set sel = insert i A \<and> filter (\<lambda>i. i \<notin> int ` A) (map int sel) = [int i]"
proof -
  have sub: "A \<subseteq> set sel" using assms(2) by (auto simp: inj_image_subset_iff inj_def psubset_eq)
  have "card (set sel) = card A + 1"
    using assms(3) by (simp add: card_image inj_on_def)
  then have "card (set sel - A) = 1" using sub assms(4) by (simp add: card_Diff_subset)
  then obtain i where i: "set sel - A = {i}" by (rule card_1_singletonE)
  have "filter (\<lambda>i. i \<notin> A) sel = [i]"
  proof -
    have "set (filter (\<lambda>i. i \<notin> A) sel) = {i}" using i by auto
    with assms(1) show ?thesis by (intro distinct_singleton) simp_all
  qed
  moreover have "filter (\<lambda>i. i \<notin> int ` A) (map int sel) = map int (filter (\<lambda>i. i \<notin> A) sel)"
    by (simp add: filter_map comp_def inj_image_mem_iff)
  ultimately show ?thesis using i sub by (intro exI [of _ i]) auto
qed

lemma finite_Ids: "A \<subseteq> Ids ops \<Longrightarrow> finite A"
  by (auto simp: Ids_def intro: finite_subset)

lemma card_int_image: "card (int ` set sel) = length sel \<longleftrightarrow> distinct sel"
  using card_distinct [of sel] distinct_card [of sel] by (auto simp: card_image inj_on_def)

lemma length_indices: "distinct sel \<Longrightarrow> set sel \<subseteq> Ids ops \<Longrightarrow> length sel \<le> length ops"
  using card_mono [of "Ids ops" "set sel"] by (simp add: Ids_def distinct_card)

lemma witness_vars_eq_Inr:
  "witness_vars ops p state = Inr (indices, v) \<longleftrightarrow>
     (\<exists>sel. indices = map int sel \<and> distinct sel \<and> set sel \<subseteq> Ids ops \<and> shows_vars state p sel v)"
proof (cases "\<exists>vars. state = PList [PInt p, vars]")
  case True
  then obtain vars where state: "state = PList [PInt p, vars]" by blast
  have sel: "(case x of PList is \<Rightarrow> length is \<le> length ops
        \<and> list_all (\<lambda>v. case v of PInt i \<Rightarrow> 1 \<le> i \<and> i \<le> int (length ops) | _ \<Rightarrow> False) is | _ \<Rightarrow> False)
    \<longleftrightarrow> (\<exists>sel. x = PList (map (PInt \<circ> int) sel) \<and> length sel \<le> length ops \<and> set sel \<subseteq> Ids ops)" for x
    by (cases x) (auto simp: index_list)
  have "inj (PInt \<circ> int)" by (rule injI) simp
  note inj = inj_map_eq_map [OF this]
  have view: "the_int \<circ> (PInt \<circ> int) = int" "the_int ` (\<lambda>x. PInt (int x)) ` X = int ` X" for X
    by (simp_all add: fun_eq_iff image_comp comp_def)
  show ?thesis
    unfolding witness_vars_def state sel shows_vars_def Let_def
    by (simp add: bindE_eq_Inr require_eq_Inr)
       (auto simp: card_int_image inj view length_indices)
next
  case False
  then show ?thesis
    by (auto simp: witness_vars_def shows_vars_def bindE_eq_Inr require_eq_Inr
        split: pyval.splits list.splits)
qed

lemma verify_state_first:
  "verify_state ops states actions (previous, order, vals) (1, state) = Inr st \<longleftrightarrow>
     shows_state state 1 {} (PStr []) \<and> st = ({}, order, vals @ [PStr []])"
  by (auto simp: verify_state_def witness_vars_eq_Inr shows_state_def bindE_eq_Inr require_eq_Inr)

lemma verify_state_step:
  assumes "1 < p"
  shows "verify_state ops states actions (previous, order, vals) (p, state) = Inr st \<longleftrightarrow>
    (\<exists>indices v. witness_vars ops p state = Inr (indices, v)
       \<and> previous \<subset> set indices \<and> card (set indices) = card previous + 1
       \<and> verify_edge (states ! nat (p - 2)) state (hd (filter (\<lambda>i. i \<notin> previous) indices))
           (actions ! nat (p - 2)) = Inr ()
       \<and> st = (set indices,
           order @ [op_id (ops ! nat (hd (filter (\<lambda>i. i \<notin> previous) indices) - 1))], vals @ [v]))"
  using assms unfolding verify_state_def Let_def
  by (simp add: bindE_eq_Inr require_eq_Inr split_beta) metis

lemma verify_state_next:
  assumes "A \<subseteq> Ids ops" and "1 < p"
  shows "verify_state ops states actions (int ` A, order, vals) (p, state) = Inr st \<longleftrightarrow>
    (\<exists>i v. i \<in> Ids ops - A \<and> shows_state state p (insert i A) v
       \<and> shows_action (states ! nat (p - 2)) i state (actions ! nat (p - 2))
       \<and> st = (int ` insert i A, order @ [op_id (Ops ops i)], vals @ [v]))"
    (is "?lhs \<longleftrightarrow> ?rhs")
  proof
  assume ?lhs
  then obtain indices v where vars: "witness_vars ops p state = Inr (indices, v)"
    and new: "int ` A \<subset> set indices" "card (set indices) = card (int ` A) + 1"
    and edge: "verify_edge (states ! nat (p - 2)) state (hd (filter (\<lambda>i. i \<notin> int ` A) indices))
      (actions ! nat (p - 2)) = Inr ()"
    and st: "st = (set indices,
      order @ [op_id (ops ! nat (hd (filter (\<lambda>i. i \<notin> int ` A) indices) - 1))], vals @ [v])"
    unfolding verify_state_step [OF assms(2)] by blast
  obtain sel where ind: "indices = map int sel" and sel: "distinct sel" "set sel \<subseteq> Ids ops" "shows_vars state p sel v"
    using vars by (auto simp: witness_vars_eq_Inr)
  obtain i where i: "i \<notin> A" "set sel = insert i A" "filter (\<lambda>i. i \<notin> int ` A) (map int sel) = [int i]"
    using new_index [OF sel(1) _ _ finite_Ids [OF assms(1)]] new unfolding ind set_map by blast
  have "i \<in> Ids ops" using i(2) sel(2) by blast
  moreover have "nat (int i - 1) = i - 1" by simp
  moreover have "shows_state state p (insert i A) v" using sel i(2) by (auto simp: shows_state_def)
  ultimately show ?rhs using edge st i unfolding ind set_map
    by (intro exI [of _ i] exI [of _ v]) (simp add: verify_edge_iff Ops_def)
next
  assume ?rhs
  then obtain i v where i: "i \<in> Ids ops - A" and show_i: "shows_state state p (insert i A) v"
    and act: "shows_action (states ! nat (p - 2)) i state (actions ! nat (p - 2))"
    and st: "st = (int ` insert i A, order @ [op_id (Ops ops i)], vals @ [v])" by blast
  obtain sel where sel: "distinct sel" "set sel = insert i A" "shows_vars state p sel v" using show_i by (auto simp: shows_state_def)
  have fin: "finite A" using finite_Ids [OF assms(1)] .
  have "int i \<notin> int ` A" using i by auto
  then have "int ` A \<subset> int ` set sel" unfolding sel(2) by blast
  moreover have "card (int ` set sel) = card (int ` A) + 1"
    using \<open>int i \<notin> int ` A\<close> fin by (simp add: sel(2))
  moreover have "filter (\<lambda>j. j \<notin> int ` A) (map int sel) = [int i]"
  proof -
    obtain j where j: "j \<notin> A" "set sel = insert j A" "filter (\<lambda>j. j \<notin> int ` A) (map int sel) = [int j]"
      using new_index [OF sel(1) calculation fin] by blast
    then have "j = i" using i sel(2) by blast
    with j(3) show ?thesis by simp
  qed
  moreover have "witness_vars ops p state = Inr (map int sel, v)"
    using sel i assms(1) by (auto simp: witness_vars_eq_Inr)
  moreover have "nat (int i - 1) = i - 1" by simp
  ultimately show ?lhs unfolding verify_state_step [OF assms(2)] using act st sel(2)
    by (intro exI [of _ "map int sel"] exI [of _ v]) (simp add: verify_edge_iff Ops_def)
qed

text \<open>
  The rest of a dump, with the indices \<open>is\<close> linearized so far: each state adds one index to the
  previous one and comes with the matching transition.
\<close>

fun shows_run ::
  "operation list \<Rightarrow> pyval list \<Rightarrow> pyval list \<Rightarrow> nat list \<Rightarrow> pyval list \<Rightarrow> nat list \<Rightarrow> pyval list \<Rightarrow> bool" where
  "shows_run ops states actions is [] [] [] = True"
| "shows_run ops states actions is (state # rest) (j # js) (v # vs) =
     (j \<in> Ids ops - set is \<and> shows_state state (int (length is) + 2) (insert j (set is)) v
      \<and> shows_action (states ! length is) j state (actions ! length is)
      \<and> shows_run ops states actions (is @ [j]) rest js vs)"
| "shows_run _ _ _ _ _ _ _ = False"

lemma shows_run_Cons:
  "shows_run ops states actions is (state # rest) js vs \<longleftrightarrow>
     (\<exists>j js' v vs'. js = j # js' \<and> vs = v # vs'
      \<and> j \<in> Ids ops - set is \<and> shows_state state (int (length is) + 2) (insert j (set is)) v
      \<and> shows_action (states ! length is) j state (actions ! length is)
      \<and> shows_run ops states actions (is @ [j]) rest js' vs')"
  by (cases js; cases vs) auto

lemma shows_run_Nil: "shows_run ops states actions is [] js vs \<longleftrightarrow> js = [] \<and> vs = []"
  by (cases js; cases vs) auto

lemma verify_loop:
  assumes "set is \<subseteq> Ids ops"
  shows "foldE (verify_state ops states actions) (int ` set is, order, vals)
      (enum_from (int (length is) + 2) rest) = Inr st \<longleftrightarrow>
    (\<exists>js vs. shows_run ops states actions is rest js vs
      \<and> st = (int ` set (is @ js), order @ map (op_id \<circ> Ops ops) js, vals @ vs))"
  using assms
proof (induction rest arbitrary: "is" order vals)
  case Nil
  then show ?case by (auto simp: shows_run_Nil)
next
  case (Cons state rest)
  have pos: "1 < int (length is) + 2" "nat (int (length is) + 2 - 2) = length is" by auto
  have tail: "foldE (verify_state ops states actions) (int ` insert i (set is), order @ [op_id (Ops ops i)], vals @ [v])
      (enum_from (int (length is) + 2 + 1) rest) = Inr st \<longleftrightarrow>
    (\<exists>js vs. shows_run ops states actions (is @ [i]) rest js vs
      \<and> st = (int ` set (is @ i # js), order @ map (op_id \<circ> Ops ops) (i # js), vals @ v # vs))"
    if "i \<in> Ids ops" for i v
    using Cons.IH [of "is @ [i]" "order @ [op_id (Ops ops i)]" "vals @ [v]"] Cons.prems that by (simp add: ac_simps comp_def)
  show ?case (is "?run = Inr st \<longleftrightarrow> ?rhs")
  proof
    assume "?run = Inr st"
    then obtain st' where step: "verify_state ops states actions (int ` set is, order, vals) (int (length is) + 2, state) = Inr st'"
      and rest: "foldE (verify_state ops states actions) st' (enum_from (int (length is) + 2 + 1) rest) = Inr st"
      by (auto simp: bindE_eq_Inr)
    then obtain i v where i: "i \<in> Ids ops - set is" "shows_state state (int (length is) + 2) (insert i (set is)) v"
       "shows_action (states ! length is) i state (actions ! length is)"
       and st': "st' = (int ` insert i (set is), order @ [op_id (Ops ops i)], vals @ [v])"
      unfolding verify_state_next [OF Cons.prems pos(1)] pos(2) by blast
    with rest tail [of i v] obtain js vs where "shows_run ops states actions (is @ [i]) rest js vs"
      "st = (int ` set (is @ i # js), order @ map (op_id \<circ> Ops ops) (i # js), vals @ v # vs)" by blast
    with i show ?rhs by (intro exI [of _ "i # js"] exI [of _ "v # vs"]) simp
  next
    assume ?rhs
    then obtain i js v vs where i: "i \<in> Ids ops - set is" "shows_state state (int (length is) + 2) (insert i (set is)) v"
       "shows_action (states ! length is) i state (actions ! length is)"
       and run: "shows_run ops states actions (is @ [i]) rest js vs"
       and st: "st = (int ` set (is @ i # js), order @ map (op_id \<circ> Ops ops) (i # js), vals @ v # vs)"
      by (auto simp: shows_run_Cons)
    have "verify_state ops states actions (int ` set is, order, vals) (int (length is) + 2, state)
        = Inr (int ` insert i (set is), order @ [op_id (Ops ops i)], vals @ [v])"
      unfolding verify_state_next [OF Cons.prems pos(1)] pos(2) using i by blast
    moreover have "foldE (verify_state ops states actions) (int ` insert i (set is), order @ [op_id (Ops ops i)], vals @ [v])
      (enum_from (int (length is) + 2 + 1) rest) = Inr st"
      using tail [of i v] i(1) run st by blast
    ultimately show "?run = Inr st" by simp
  qed
qed

lemma shows_run_indices:
  "shows_run ops states actions is rest js vs \<Longrightarrow> distinct is \<Longrightarrow>
     length js = length rest \<and> set js \<subseteq> Ids ops \<and> distinct (is @ js)"
  by (induction rest arbitrary: "is" js vs) (fastforce simp: shows_run_Nil shows_run_Cons)+

text \<open>A whole dump of the run that linearizes \<open>is\<close>.\<close>

definition shows_dump :: "operation list \<Rightarrow> nat list \<Rightarrow> pyval \<Rightarrow> bool" where
  "shows_dump ops is raw \<longleftrightarrow> (\<exists>trace first rest actions.
     Py_Values.fields raw [''counterexample'', ''vars''] = Inr ()
     \<and> getitem raw ''vars'' = Inr (PList [S ''done'', S ''value''])
     \<and> getitem raw ''counterexample'' = Inr trace \<and> Py_Values.fields trace [''state'', ''action''] = Inr ()
     \<and> getitem trace ''state'' = Inr (PList (first # rest)) \<and> getitem trace ''action'' = Inr (PList actions)
     \<and> rest \<noteq> [] \<and> length actions = length rest \<and> shows_state first 1 {} (PStr [])
     \<and> shows_run ops (first # rest) actions [] rest is
         (map PStr (tl (register_values [] (map (Ops ops) is)))))"

lemma map_register_values: "map PStr (register_values v xs) = PStr v # map PStr (tl (register_values v xs))"
  by (cases xs) simp_all

lemma verify_states:
  "foldE (verify_state ops (first # rest) actions) ({}, [], []) (enum_from 1 (first # rest)) = Inr st \<longleftrightarrow>
     shows_state first 1 {} (PStr []) \<and> (\<exists>js vs. shows_run ops (first # rest) actions [] rest js vs
       \<and> st = (int ` set js, map (op_id \<circ> Ops ops) js, PStr [] # vs))"
  using verify_loop [of "[]" ops "first # rest" actions "[]" "[PStr []]" rest st]
  by (auto simp: bindE_eq_Inr verify_state_first)

lemma replay_indices:
  assumes "validate_history operations = Inr ()" and "set js \<subseteq> Ids (history_of operations)"
  shows "replay operations (PList (map PStr (map (op_id \<circ> Ops (history_of operations)) js))) = Inr w \<longleftrightarrow>
    linearization (history_of operations) (map (Ops (history_of operations)) js)
    \<and> w = witness_dict (history_of operations) (map (Ops (history_of operations)) js)"
proof -
  let ?ops = "history_of operations"
  have dist: "distinct (map op_id ?ops)" using validate_history_wf [OF assms(1)] by (simp add: wf_history_def)
  have sub: "set (map (Ops ?ops) js) \<subseteq> set ?ops" using assms(2) Ops_in_set by auto
  have unique: "xs = map (Ops ?ops) js"
    if "map PStr (map (op_id \<circ> Ops ?ops) js) = map (PStr \<circ> op_id) xs" "linearization ?ops xs" for xs
  proof -
    have "set xs \<subseteq> set ?ops" using that(2) by (simp add: linearization_def)
    moreover have "map op_id xs = map op_id (map (Ops ?ops) js)"
      using that(1) inj_map_eq_map [of PStr] by (simp add: inj_def map_map [symmetric] del: map_map)
    ultimately show ?thesis using replay_ids [OF dist] sub by metis
  qed
  have "map PStr (map (op_id \<circ> Ops ?ops) js) = map (PStr \<circ> op_id) (map (Ops ?ops) js)" by simp
  with unique show ?thesis unfolding replay_eq_Inr [OF assms(1)] pyval.inject by blast
qed

lemma verify_raw_sound:
  assumes "validate_history operations = Inr ()" and "verify_raw operations raw = Inr w"
  shows "\<exists>is. shows_dump (history_of operations) is raw \<and> set is \<subseteq> Ids (history_of operations)
      \<and> linearization (history_of operations) (map (Ops (history_of operations)) is)
      \<and> w = witness_dict (history_of operations) (map (Ops (history_of operations)) is)"
proof -
  let ?ops = "history_of operations"
  obtain trace states actions order vals prev where
    shape: "Py_Values.fields raw [''counterexample'', ''vars''] = Inr ()"
      "getitem raw ''vars'' = Inr (PList [S ''done'', S ''value''])"
      "getitem raw ''counterexample'' = Inr trace" "Py_Values.fields trace [''state'', ''action''] = Inr ()"
      "getitem trace ''state'' = Inr (PList states)" "getitem trace ''action'' = Inr (PList actions)"
    and len: "2 \<le> length states" "length actions = length states - 1"
    and loop: "foldE (verify_state ?ops states actions) ({}, [], []) (enum_from 1 states) = Inr (prev, order, vals)"
    and rep: "replay operations (PList (map PStr order)) = Inr w"
    and vals: "getitem w ''values'' = Inr (PList vals)"
    using assms(2) unfolding verify_raw_def Let_def
    by (simp add: bindE_eq_Inr require_eq_Inr list_guard split_beta del: enum_from.simps) auto
  obtain first rest where states: "states = first # rest" "rest \<noteq> []"
    using len(1) by (cases states; cases "tl states") auto
  obtain js vs where run: "shows_state first 1 {} (PStr [])" "shows_run ?ops states actions [] rest js vs"
    and st: "order = map (op_id \<circ> Ops ?ops) js" "vals = PStr [] # vs"
    using loop unfolding states(1) verify_states by auto
  have js: "set js \<subseteq> Ids ?ops" using shows_run_indices [OF run(2)] by simp
  have lin: "linearization ?ops (map (Ops ?ops) js)" "w = witness_dict ?ops (map (Ops ?ops) js)"
    using rep replay_indices [OF assms(1) js, of w] by (simp_all add: st(1))
  have "vs = map PStr (tl (register_values [] (map (Ops ?ops) js)))"
    using vals st(2) by (simp add: lin(2) witness_dict_def dict_simps map_register_values)
  then have "shows_dump ?ops js raw"
    using shape run states len unfolding shows_dump_def by auto
  with js lin show ?thesis by blast
qed

lemma verify_raw_complete:
  assumes "validate_history operations = Inr ()" and "shows_dump (history_of operations) is raw"
    and "linearization (history_of operations) (map (Ops (history_of operations)) is)"
  shows "verify_raw operations raw = Inr (witness_dict (history_of operations) (map (Ops (history_of operations)) is))"
proof -
  let ?ops = "history_of operations"
  let ?w = "witness_dict ?ops (map (Ops ?ops) is)"
  obtain trace first rest actions where
    shape: "Py_Values.fields raw [''counterexample'', ''vars''] = Inr ()"
      "getitem raw ''vars'' = Inr (PList [S ''done'', S ''value''])"
      "getitem raw ''counterexample'' = Inr trace" "Py_Values.fields trace [''state'', ''action''] = Inr ()"
      "getitem trace ''state'' = Inr (PList (first # rest))" "getitem trace ''action'' = Inr (PList actions)"
      "rest \<noteq> []" "length actions = length rest" "shows_state first 1 {} (PStr [])"
    and run: "shows_run ?ops (first # rest) actions [] rest is
      (map PStr (tl (register_values [] (map (Ops ?ops) is))))"
    using assms(2) unfolding shows_dump_def by blast
  have js: "set is \<subseteq> Ids ?ops" using shows_run_indices [OF run] by simp
  have "length rest \<le> length ?ops" "1 \<le> length rest"
    using shows_run_indices [OF run] length_indices [of "is" ?ops] shape(7) by (auto simp: Suc_le_eq)
  moreover have "foldE (verify_state ?ops (first # rest) actions) ({}, [], []) (enum_from 1 (first # rest))
      = Inr (int ` set is, map (op_id \<circ> Ops ?ops) is, map PStr (register_values [] (map (Ops ?ops) is)))"
    unfolding verify_states map_register_values using shape(9) run by blast
  moreover have "replay operations (PList (map PStr (map (op_id \<circ> Ops ?ops) is))) = Inr ?w"
    using replay_indices [OF assms(1) js, of ?w] assms(3) by simp
  moreover have "getitem ?w ''values'' = Inr (PList (map PStr (register_values [] (map (Ops ?ops) is))))"
    by (simp add: witness_dict_def dict_simps)
  ultimately show ?thesis
    using shape by (simp add: verify_raw_def Let_def del: enum_from.simps map_map)
qed

end
