(* ===== verification/History_Extract.thy ===== *)
theory History_Extract
  imports History_Check "HOL-Library.AList"
begin

text \<open>
  \<open>extract\<close> of history_check.py: the register history a read trace contains.  The lemmas show
  that the history it returns satisfies the schema of \<open>validate_history\<close> apart from its size,
  has one operation per invocation event in trace order, and never revises a completion.
\<close>

section \<open>extract\<close>

text \<open>
  An operation under extraction: the dict of the source with its six keys.  The times are
  the raw \<open>seq\<close> of events.
\<close>

record tracked =
  tr_id :: pstr
  tr_kind :: op_kind
  tr_value :: pstr
  tr_result :: pstr
  tr_invoked :: pyval
  tr_returned :: pyval

type_synonym identity = "op_kind \<times> pyval"

text \<open>The dicts \<open>operations\<close> and \<open>owners\<close>, in insertion order.\<close>

type_synonym extraction = "(identity \<times> tracked) list \<times> (identity \<times> pyval) list"

definition kind_name :: "op_kind \<Rightarrow> string" where
  "kind_name k = (case k of OpRead \<Rightarrow> ''read'' | OpWrite \<Rightarrow> ''write'')"

text \<open>\<open>v >= 0\<close> on any value.\<close>

fun ge_zero :: "pyval \<Rightarrow> bool res" where
  "ge_zero (PBool b) = Inr True"
| "ge_zero (PInt i) = Inr (0 \<le> i)"
| "ge_zero (PFloat r) = Inr (r = lit ''-0.0'' \<or> take 1 r \<noteq> lit ''-'' \<and> r \<noteq> lit ''NaN'')"
| "ge_zero _ = Inl TypeError"

text \<open>Iterating over a value: a list, the keys of a dict, the characters of a string.\<close>

definition iterate :: "pyval \<Rightarrow> pyval list res" where
  "iterate v = (case v of
      PList xs \<Rightarrow> Inr xs
    | PDict kvs \<Rightarrow> Inr (map (\<lambda>kv. PStr (fst kv)) kvs)
    | PStr s \<Rightarrow> Inr (map (\<lambda>c. PStr [c]) s)
    | _ \<Rightarrow> Inl TypeError)"

text \<open>An invocation: \<open>event["kind"] in ("read", "propose")\<close>.\<close>

definition invoke_operation :: "op_kind \<Rightarrow> extraction \<Rightarrow> pyval \<Rightarrow> extraction res" where
  "invoke_operation kind st event = (case st of (operations, owners) \<Rightarrow>
     bindE (getitem event (if kind = OpWrite then ''proposal_context'' else ''value'')) (\<lambda>identity.
     bindE (guardE (hashable identity) TypeError) (\<lambda>_.
     bindE (require (map_of operations (kind, identity) = None) ''Repeated history identity'') (\<lambda>_.
     bindE (payload identity) (\<lambda>name.
     bindE (if kind = OpWrite then bindE (getitem event ''value'') payload else Inr []) (\<lambda>value.
     bindE (getitem event ''seq'') (\<lambda>seq.
     bindE (getitem event ''node'') (\<lambda>node.
     Inr (AList.update (kind, identity)
            \<lparr>tr_id = lit (kind_name kind) @ lit '':'' @ name, tr_kind = kind, tr_value = value,
              tr_result = [], tr_invoked = seq, tr_returned = PInt (- 1)\<rparr> operations,
          AList.update (kind, identity) node owners)))))))))"

definition extract_invocation :: "extraction \<Rightarrow> pyval \<Rightarrow> extraction res" where
  "extract_invocation st event =
     bindE (getitem event ''kind'') (\<lambda>ek.
     if in_tuple ek [''read'', ''propose'']
     then invoke_operation (if is_lit ek ''propose'' then OpWrite else OpRead) st event
     else Inr st)"

text \<open>The list \<open>returns\<close> of one node's state.\<close>

definition read_return :: "pyval \<Rightarrow> (identity \<times> pyval) res" where
  "read_return r = bindE (getitem r ''context'') (\<lambda>c. bindE (getitem r ''value'') (\<lambda>v. Inr ((OpRead, c), v)))"

definition write_return :: "(identity \<times> pyval) list \<Rightarrow> pyval \<Rightarrow> (identity \<times> pyval) list res" where
  "write_return returns w =
     bindE (getitem w ''completed'') (\<lambda>c.
     bindE (require (eq_int c 0 \<or> eq_int c 1) ''Duplicate write completion'') (\<lambda>_.
     if truthy c then bindE (getitem w ''context'') (\<lambda>cx. Inr (returns @ [((OpWrite, cx), PStr [])]))
     else Inr returns))"

definition state_returns :: "pyval \<Rightarrow> (identity \<times> pyval) list res" where
  "state_returns state =
     bindE (getitem state ''completed'') (\<lambda>cs. bindE (iterate cs) (\<lambda>cs.
     bindE (mapE read_return cs) (\<lambda>returns.
     bindE (getitem state ''writes'') (\<lambda>ws. bindE (iterate ws) (\<lambda>ws.
     foldE write_return returns ws)))))"

text \<open>An operation \<open>op\<close> that an event shows as returned with \<open>result\<close>.\<close>

definition complete_operation ::
  "pyval \<Rightarrow> identity \<Rightarrow> tracked \<Rightarrow> pstr \<Rightarrow> (identity \<times> tracked) list \<Rightarrow> (identity \<times> tracked) list res" where
  "complete_operation event k op result operations =
     (if eq_int (tr_returned op) (- 1) then
        bindE (getitem event ''kind'') (\<lambda>ek.
        bindE (require (is_lit ek (if fst k = OpWrite then ''apply'' else ''complete_reads''))
                 ''Completion outside callback operation'') (\<lambda>_.
        bindE (getitem event ''seq'') (\<lambda>seq.
        Inr (AList.update k (op\<lparr>tr_returned := seq, tr_result := result\<rparr>) operations))))
      else
        bindE (require (tr_result op = result) ''Completed result changed'') (\<lambda>_. Inr operations))"

text \<open>One \<open>key, value\<close> of \<open>returns\<close>; the state carries \<open>operations\<close> and the set \<open>seen\<close>.\<close>

definition extract_return ::
  "pyval \<Rightarrow> int \<Rightarrow> (identity \<times> pyval) list \<Rightarrow> (identity \<times> tracked) list \<times> identity list
   \<Rightarrow> identity \<times> pyval \<Rightarrow> ((identity \<times> tracked) list \<times> identity list) res" where
  "extract_return event node owners st kv = (case st of (operations, seen) \<Rightarrow> case kv of (k, value) \<Rightarrow>
     bindE (guardE (hashable (snd k)) TypeError) (\<lambda>_.
     bindE (require (k \<notin> set seen) ''Duplicate read completion'') (\<lambda>_.
     bindE (require (case map_of operations k of None \<Rightarrow> False
                     | Some _ \<Rightarrow> (case map_of owners k of None \<Rightarrow> False | Some owner \<Rightarrow> eq_int owner node))
              ''Unknown completion or wrong owner'') (\<lambda>_.
     let op = the (map_of operations k) in
     bindE (payload value) (\<lambda>result.
     bindE (complete_operation event k op result operations) (\<lambda>operations.
     Inr (operations, k # seen)))))))"

text \<open>\<open>all(key in seen for key, op in operations.items() if owners[key] == node and op["returned"] >= 0)\<close>.\<close>

fun all_returned_seen ::
  "int \<Rightarrow> (identity \<times> pyval) list \<Rightarrow> identity list \<Rightarrow> (identity \<times> tracked) list \<Rightarrow> bool res" where
  "all_returned_seen node owners seen [] = Inr True"
| "all_returned_seen node owners seen ((k, op) # rest) =
     (if (case map_of owners k of None \<Rightarrow> False | Some owner \<Rightarrow> eq_int owner node) then
        bindE (ge_zero (tr_returned op)) (\<lambda>returned.
        if returned \<and> k \<notin> set seen then Inr False else all_returned_seen node owners seen rest)
      else all_returned_seen node owners seen rest)"

definition extract_state :: "pyval \<Rightarrow> extraction \<Rightarrow> int \<times> pyval \<Rightarrow> extraction res" where
  "extract_state event st ns = (case st of (operations, owners) \<Rightarrow> case ns of (node, state) \<Rightarrow>
     bindE (state_returns state) (\<lambda>returns.
     bindE (foldE (extract_return event node owners) (operations, []) returns) (\<lambda>(operations, seen).
     bindE (all_returned_seen node owners seen operations) (\<lambda>ok.
     bindE (require ok ''Completed operation disappeared'') (\<lambda>_.
     Inr (operations, owners))))))"

definition extract_event :: "extraction \<Rightarrow> pyval \<Rightarrow> extraction res" where
  "extract_event st event =
     bindE (extract_invocation st event) (\<lambda>st.
     bindE (getitem event ''reads'') (\<lambda>reads. bindE (iterate reads) (\<lambda>reads.
     foldE (extract_state event) st (enum_from 1 reads))))"

definition tracked_dict :: "tracked \<Rightarrow> pyval" where
  "tracked_dict op = mkdict [(''id'', PStr (tr_id op)), (''kind'', S (kind_name (tr_kind op))),
     (''value'', PStr (tr_value op)), (''result'', PStr (tr_result op)),
     (''invoked'', tr_invoked op), (''returned'', tr_returned op)]"

definition extract_history :: "pyval list \<Rightarrow> pyval list res" where
  "extract_history events =
     bindE (foldE extract_event ([], []) events) (\<lambda>st.
     Inr (map (tracked_dict \<circ> snd) (fst st)))"

section \<open>What an extraction maintains\<close>

text \<open>An operation under extraction after \<open>n\<close> events, under its key.\<close>

definition tracked_ok :: "nat \<Rightarrow> identity \<times> tracked \<Rightarrow> bool" where
  "tracked_ok n kt = (case kt of (k, op) \<Rightarrow>
     (\<exists>name. payload (snd k) = Inr name \<and> tr_id op = lit (kind_name (fst k)) @ lit '':'' @ name)
     \<and> tr_kind op = fst k
     \<and> (fst k = OpRead \<longrightarrow> tr_value op = []) \<and> (tr_value op = [] \<or> (\<exists>v. payload v = Inr (tr_value op)))
     \<and> (fst k = OpWrite \<longrightarrow> tr_result op = []) \<and> (\<exists>v. payload v = Inr (tr_result op))
     \<and> (\<exists>a r. tr_invoked op = PInt a \<and> tr_returned op = PInt r \<and> 0 \<le> a \<and> a < int n
          \<and> (r = - 1 \<and> tr_result op = [] \<or> a \<le> r \<and> r < int n)))"

definition extraction_ok :: "nat \<Rightarrow> (identity \<times> tracked) list \<Rightarrow> bool" where
  "extraction_ok n operations \<longleftrightarrow> distinct (map fst operations) \<and> list_all (tracked_ok n) operations"

lemma tracked_ok_mono: "tracked_ok m kt \<Longrightarrow> m \<le> n \<Longrightarrow> tracked_ok n kt"
  by (fastforce simp: tracked_ok_def split: prod.splits)

lemma extraction_ok_mono: "extraction_ok m operations \<Longrightarrow> m \<le> n \<Longrightarrow> extraction_ok n operations"
  by (auto simp: extraction_ok_def list_all_iff intro: tracked_ok_mono)

lemma extraction_ok_update:
  assumes "extraction_ok n operations" and "tracked_ok n (k, op)"
  shows "extraction_ok n (AList.update k op operations)"
proof -
  have "set (AList.update k op operations) \<subseteq> insert (k, op) (set operations)"
    by (induction operations) auto
  with assms show ?thesis by (auto simp: extraction_ok_def list_all_iff distinct_update)
qed

text \<open>What an event adds to the operations, and what one \<open>key, value\<close> of \<open>returns\<close> changes.\<close>

definition invoked_operation :: "op_kind \<Rightarrow> pstr \<Rightarrow> pstr \<Rightarrow> pyval \<Rightarrow> tracked" where
  "invoked_operation kind name val seq =
     \<lparr>tr_id = lit (kind_name kind) @ lit '':'' @ name, tr_kind = kind, tr_value = val,
       tr_result = [], tr_invoked = seq, tr_returned = PInt (- 1)\<rparr>"

definition is_invocation :: "pyval \<Rightarrow> bool" where
  "is_invocation event \<longleftrightarrow> in_tuple (item event ''kind'') [''read'', ''propose'']"

lemma extract_invocation_cases:
  assumes "extract_invocation (operations, owners) event = Inr (operations', owners')"
  obtains (other) "\<not> is_invocation event" and "operations' = operations" and "owners' = owners"
    | (invoked) kind identity name val seq node where "is_invocation event"
      and "map_of operations (kind, identity) = None" and "payload identity = Inr name"
      and "if kind = OpWrite then is_lit (item event ''kind'') ''propose'' \<and> bindE (getitem event ''value'') payload = Inr val
        else val = []"
      and "getitem event ''seq'' = Inr seq" and "getitem event ''node'' = Inr node"
      and "operations' = AList.update (kind, identity) (invoked_operation kind name val seq) operations"
      and "owners' = AList.update (kind, identity) node owners"
proof -
  obtain ek where ek: "getitem event ''kind'' = Inr ek"
    using assms by (auto simp: extract_invocation_def bindE_eq_Inr)
  define kind where "kind = (if is_lit ek ''propose'' then OpWrite else OpRead)"
  show thesis
  proof (cases "in_tuple ek [''read'', ''propose'']")
    case False
    with assms ek show thesis
      by (intro other) (auto simp: extract_invocation_def is_invocation_def item_def)
  next
    case True
    with assms ek have "invoke_operation kind (operations, owners) event = Inr (operations', owners')"
      by (simp add: extract_invocation_def kind_def)
    then obtain identity name val seq node where
      "map_of operations (kind, identity) = None" "payload identity = Inr name"
      and val: "(if kind = OpWrite then bindE (getitem event ''value'') payload else Inr []) = Inr val"
      and "getitem event ''seq'' = Inr seq" "getitem event ''node'' = Inr node"
      "operations' = AList.update (kind, identity) (invoked_operation kind name val seq) operations"
      "owners' = AList.update (kind, identity) node owners"
      unfolding invoke_operation_def invoked_operation_def
      by (auto simp: bindE_eq_Inr [where y = "(operations', owners')"] require_eq_Inr)
    moreover have "if kind = OpWrite then is_lit (item event ''kind'') ''propose'' \<and> bindE (getitem event ''value'') payload = Inr val
        else val = []"
      using val ek by (auto simp: item_def kind_def split: if_splits)
    moreover have "is_invocation event" using True ek by (simp add: is_invocation_def item_def)
    ultimately show thesis by (intro invoked)
  qed
qed

lemma extract_invocation_ok:
  assumes "extract_invocation (operations, owners) event = Inr (operations', owners')"
    and "extraction_ok n operations" and "getitem event ''seq'' = Inr (PInt (int n))"
  shows "extraction_ok (Suc n) operations'"
  using assms(1)
proof (cases rule: extract_invocation_cases)
  case other
  with assms(2) show ?thesis by (auto intro: extraction_ok_mono)
next
  case (invoked kind identity name val seq node)
  have "tracked_ok (Suc n) ((kind, identity), invoked_operation kind name val seq)"
    using invoked(3-5) assms(3) payload_empty
    by (auto simp: tracked_ok_def invoked_operation_def bindE_eq_Inr split: if_splits)
  then show ?thesis unfolding invoked(7) using assms(2)
    by (intro extraction_ok_update) (auto intro: extraction_ok_mono)
qed

text \<open>The values a write's completion carries are empty.\<close>

definition return_ok :: "identity \<times> pyval \<Rightarrow> bool" where
  "return_ok kv \<longleftrightarrow> (fst (fst kv) = OpWrite \<longrightarrow> snd kv = PStr [])"

interpretation write_returns: checked_loop write_return "\<lambda>_ returns. list_all return_ok returns"
  by unfold_locales (auto simp: write_return_def bindE_eq_Inr return_ok_def split: if_splits)

lemma read_return_ok: "read_return r = Inr kv \<Longrightarrow> return_ok kv"
  by (auto simp: read_return_def bindE_eq_Inr return_ok_def)

lemma state_returns_ok: "state_returns state = Inr returns \<Longrightarrow> list_all return_ok returns"
proof -
  assume "state_returns state = Inr returns"
  then obtain cs ws reads where "mapE read_return cs = Inr reads" and "foldE write_return reads ws = Inr returns"
    by (auto simp: state_returns_def bindE_eq_Inr)
  moreover from this(1) have "list_all return_ok reads"
    by (auto simp: list_all_iff elim: mapE_set dest: read_return_ok)
  ultimately show ?thesis using write_returns.loop_inv_from_start by blast
qed

text \<open>What one \<open>key, value\<close> of \<open>returns\<close> does to the operations.\<close>

lemma extract_return_cases:
  assumes "extract_return event node owners (operations, seen) (k, value) = Inr (operations', seen')"
  obtains (kept) op where "map_of operations k = Some op" and "\<not> eq_int (tr_returned op) (- 1)"
      and "payload value = Inr (tr_result op)" and "operations' = operations" and "seen' = k # seen"
    | (completed) op result seq where "map_of operations k = Some op" and "eq_int (tr_returned op) (- 1)"
      and "payload value = Inr result" and "getitem event ''seq'' = Inr seq"
      and "operations' = AList.update k (op\<lparr>tr_returned := seq, tr_result := result\<rparr>) operations"
      and "seen' = k # seen"
proof -
  obtain op result where op: "map_of operations k = Some op" and result: "payload value = Inr result"
    and run: "complete_operation event k op result operations = Inr operations'" and "seen' = k # seen"
    using assms unfolding extract_return_def Let_def
    by (cases "map_of operations k") (auto simp: bindE_eq_Inr require_eq_Inr)
  show thesis
  proof (cases "eq_int (tr_returned op) (- 1)")
    case True
    with run obtain seq where "getitem event ''seq'' = Inr seq"
      "operations' = AList.update k (op\<lparr>tr_returned := seq, tr_result := result\<rparr>) operations"
      by (auto simp: complete_operation_def bindE_eq_Inr)
    with op result True \<open>seen' = k # seen\<close> show thesis by (intro completed)
  next
    case False
    with run have "tr_result op = result" "operations' = operations"
      by (auto simp: complete_operation_def bindE_eq_Inr require_eq_Inr)
    with op result False \<open>seen' = k # seen\<close> show thesis by (intro kept) auto
  qed
qed

lemma extract_return_ok:
  assumes "extract_return event node owners (operations, seen) (k, value) = Inr (operations', seen')"
    and "return_ok (k, value)" and "extraction_ok (Suc n) operations" and "getitem event ''seq'' = Inr (PInt (int n))"
  shows "extraction_ok (Suc n) operations'"
  using assms(1)
proof (cases rule: extract_return_cases)
  case kept
  with assms(3) show ?thesis by simp
next
  case (completed op result seq)
  have op: "tracked_ok (Suc n) (k, op)"
    using assms(3) map_of_SomeD [OF completed(1)] by (auto simp: extraction_ok_def list_all_iff)
  have "result = []" if "fst k = OpWrite"
    using assms(2) completed(3) that by (simp add: return_ok_def payload_empty)
  with op completed(3,4) assms(4) have "tracked_ok (Suc n) (k, op\<lparr>tr_returned := seq, tr_result := result\<rparr>)"
    by (fastforce simp: tracked_ok_def)
  with assms(3) show ?thesis unfolding completed(5) by (rule extraction_ok_update)
qed

interpretation return_loop: checked_loop "extract_return event node owners"
  "\<lambda>returns st. getitem event ''seq'' = Inr (PInt (int n)) \<longrightarrow> list_all return_ok returns
     \<longrightarrow> extraction_ok (Suc n) (fst st)" for event node owners n
  by unfold_locales (fastforce intro: extract_return_ok)

lemma extract_state_ok:
  assumes "extract_state event (operations, owners) (node, state) = Inr (operations', owners')"
    and "extraction_ok (Suc n) operations" and "getitem event ''seq'' = Inr (PInt (int n))"
  shows "extraction_ok (Suc n) operations'"
proof -
  obtain returns seen where "state_returns state = Inr returns"
    and "foldE (extract_return event node owners) (operations, []) returns = Inr (operations', seen)"
    using assms(1) by (auto simp: extract_state_def bindE_eq_Inr)
  with assms(2,3) return_loop.loop_inv_from_start [of event n "(operations, [])"] state_returns_ok
  show ?thesis by fastforce
qed

interpretation state_loop: checked_loop "extract_state event"
  "\<lambda>_ st. getitem event ''seq'' = Inr (PInt (int n)) \<longrightarrow> extraction_ok (Suc n) (fst st)" for event n
  by unfold_locales (auto intro: extract_state_ok)

lemma extract_event_ok:
  assumes "extract_event st event = Inr st'"
    and "extraction_ok n (fst st)" and "getitem event ''seq'' = Inr (PInt (int n))"
  shows "extraction_ok (Suc n) (fst st')"
proof -
  obtain st1 reads where inv: "extract_invocation st event = Inr st1"
    and loop: "foldE (extract_state event) st1 (enum_from 1 reads) = Inr st'"
    using assms(1) by (auto simp: extract_event_def bindE_eq_Inr)
  have "extraction_ok (Suc n) (fst st1)"
    using extract_invocation_ok [OF _ assms(2,3)] inv by (metis prod.collapse)
  with loop assms(3) state_loop.loop_inv_from_start show ?thesis by blast
qed

definition numbered :: "pyval list \<Rightarrow> bool" where
  "numbered events \<longleftrightarrow> (\<forall>k < length events. getitem (events ! k) ''seq'' = Inr (PInt (int k)))"

lemma numbered_snoc:
  "numbered (events @ [e]) \<longleftrightarrow> numbered events \<and> getitem e ''seq'' = Inr (PInt (int (length events)))"
  by (auto simp: numbered_def nth_append less_Suc_eq)

interpretation event_loop: checked_loop extract_event
  "\<lambda>events st. numbered events \<longrightarrow> extraction_ok (length events) (fst st)"
  by unfold_locales (auto simp: numbered_snoc intro: extract_event_ok)

lemma extraction_ok_start: "extraction_ok n []"
  by (simp add: extraction_ok_def)

section \<open>The extracted history\<close>

lemma payload_register_value: "payload v = Inr h \<Longrightarrow> register_value h"
proof -
  assume h: "payload v = Inr h"
  have "utf8_encode h = Inr h" using payload_ascii [OF h] by (intro utf8_encode_ascii) auto
  then show ?thesis using payload_bound [OF h] by (simp add: register_value_def)
qed

lemma operation_of_tracked:
  assumes "tracked_ok n (k, op)" and "n \<le> 1001"
  shows "typed_operation (tracked_dict op) \<and> operation_ok (operation_of (tracked_dict op))"
proof -
  obtain a r where times: "tr_invoked op = PInt a" "tr_returned op = PInt r" "0 \<le> a" "a < int n"
      "r = - 1 \<and> tr_result op = [] \<or> a \<le> r \<and> r < int n"
    using assms(1) by (auto simp: tracked_ok_def)
  obtain name where name: "payload (snd k) = Inr name" "tr_id op = lit (kind_name (fst k)) @ lit '':'' @ name"
    using assms(1) by (auto simp: tracked_ok_def)
  have "register_value []" by (simp add: register_value_def utf8_encode_def)
  then have vals: "register_value (tr_value op)" "register_value (tr_result op)"
    using assms(1) by (auto simp: tracked_ok_def dest: payload_register_value)
  have "length (kind_name (fst k)) \<le> 5" by (cases "fst k") (simp_all add: kind_name_def)
  then have "length (tr_id op) \<le> 9000" "tr_id op \<noteq> []" using name payload_bound [OF name(1)] by auto
  then show ?thesis
    using assms times vals
    by (cases "fst k")
      (auto simp: typed_operation_def operation_ok_def operation_of_def tracked_dict_def item_def is_int_def
        kind_name_def dict_simps tracked_ok_def)
qed

lemma tracked_ids:
  assumes "extraction_ok n operations"
  shows "distinct (map (tr_id \<circ> snd) operations)"
proof -
  have "k = k'" if "(k, op) \<in> set operations" "(k', op') \<in> set operations" "tr_id op = tr_id op'" for k op k' op'
  proof -
    have ok: "tracked_ok n (k, op)" "tracked_ok n (k', op')"
      using assms that by (auto simp: extraction_ok_def list_all_iff)
    obtain name name' where names: "payload (snd k) = Inr name" "tr_id op = lit (kind_name (fst k)) @ lit '':'' @ name"
      "payload (snd k') = Inr name'" "tr_id op' = lit (kind_name (fst k')) @ lit '':'' @ name'"
      using ok by (auto simp: tracked_ok_def)
    then have "fst k = fst k' \<and> name = name'"
      using that(3) by (cases "fst k"; cases "fst k'") (auto simp: kind_name_def lit_def)
    with names payload_codec.enc_inj show ?thesis by (metis prod.expand)
  qed
  moreover have "distinct (map fst operations)" using assms by (simp add: extraction_ok_def)
  ultimately show ?thesis by (auto simp: distinct_map inj_on_def)
     (metis distinct_map inj_on_def fst_conv prod.inject)
qed

lemma extract_history_ok:
  assumes "numbered events" and "extract_history events = Inr hs"
  obtains operations owners where "foldE extract_event ([], []) events = Inr (operations, owners)"
    and "hs = map (tracked_dict \<circ> snd) operations" and "extraction_ok (length events) operations"
proof -
  obtain operations owners where run: "foldE extract_event ([], []) events = Inr (operations, owners)"
    and "hs = map (tracked_dict \<circ> snd) operations"
    using assms(2) by (auto simp: extract_history_def bindE_eq_Inr)
  moreover have "extraction_ok (length events) operations"
    using event_loop.loop_inv_from_start [OF _ run] assms(1) by (simp add: extraction_ok_start)
  ultimately show thesis by (rule that)
qed

lemma op_id_tracked: "op_id (operation_of (tracked_dict op)) = tr_id op"
  by (simp add: operation_of_def tracked_dict_def item_def dict_simps)


section \<open>Operations are one per invocation and completions are final\<close>

text \<open>
  How the operations grow: an operation keeps its key, id, argument and invocation, a completed
  one stays unchanged, and new ones are appended.
\<close>

definition refines_op :: "identity \<times> tracked \<Rightarrow> identity \<times> tracked \<Rightarrow> bool" where
  "refines_op kt kt' \<longleftrightarrow> fst kt' = fst kt \<and> tr_id (snd kt') = tr_id (snd kt)
     \<and> tr_value (snd kt') = tr_value (snd kt) \<and> tr_invoked (snd kt') = tr_invoked (snd kt)
     \<and> (eq_int (tr_returned (snd kt)) (- 1) \<or> snd kt' = snd kt)"

definition grows :: "(identity \<times> tracked) list \<Rightarrow> (identity \<times> tracked) list \<Rightarrow> bool" where
  "grows a b \<longleftrightarrow> length a \<le> length b \<and> list_all2 refines_op a (take (length a) b)"

lemma refines_op_refl [simp]: "refines_op kt kt"
  by (simp add: refines_op_def)

lemma refines_op_trans: "refines_op a b \<Longrightarrow> refines_op b c \<Longrightarrow> refines_op a c"
  by (auto simp: refines_op_def)

lemma grows_refl: "grows a a"
  by (simp add: grows_def list.rel_refl)

lemma grows_iff: "grows a b \<longleftrightarrow> length a \<le> length b \<and> (\<forall>i < length a. refines_op (a ! i) (b ! i))"
  by (auto simp: grows_def list_all2_conv_all_nth)

lemma grows_trans: "grows a b \<Longrightarrow> grows b c \<Longrightarrow> grows a c"
  by (auto simp: grows_iff intro: refines_op_trans)

lemma grows_append: "grows a (a @ b)"
  by (simp add: grows_iff nth_append)

lemma update_existing:
  "map_of al k = Some v \<Longrightarrow> refines_op (k, v) (k, v') \<Longrightarrow> list_all2 refines_op al (AList.update k v' al)"
  by (induction al) (auto simp: list.rel_refl)

lemma update_new: "map_of al k = None \<Longrightarrow> AList.update k v al = al @ [(k, v)]"
  by (induction al) auto

lemma extract_return_grows:
  assumes "extract_return event node owners (operations, seen) (k, value) = Inr (operations', seen')"
  shows "grows operations operations' \<and> length operations' = length operations"
  using assms
proof (cases rule: extract_return_cases)
  case kept
  then show ?thesis by (simp add: grows_refl)
next
  case (completed op result seq)
  have "list_all2 refines_op operations operations'"
    unfolding completed(5) using completed(2) by (intro update_existing [OF completed(1)]) (simp add: refines_op_def)
  then show ?thesis by (simp add: grows_iff list_all2_conv_all_nth)
qed

interpretation return_growth: checked_loop "extract_return event node owners"
  "\<lambda>_ st. grows operations (fst st) \<and> length (fst st) = length operations" for event node owners operations
  by unfold_locales (auto dest!: extract_return_grows intro: grows_trans)

lemma extract_state_grows:
  assumes "extract_state event st ns = Inr st'"
  shows "grows (fst st) (fst st') \<and> length (fst st') = length (fst st)"
proof -
  obtain returns seen where "foldE (extract_return event (fst ns) (snd st)) (fst st, []) returns = Inr (fst st', seen)"
    using assms by (cases st; cases ns) (auto simp: extract_state_def bindE_eq_Inr)
  from return_growth.loop_inv_from_start [OF _ this, of "fst st"] show ?thesis by (simp add: grows_refl)
qed

interpretation state_growth: checked_loop "extract_state event"
  "\<lambda>_ st. grows operations (fst st) \<and> length (fst st) = length operations" for event operations
  by unfold_locales (auto dest!: extract_state_grows intro: grows_trans)

lemma extract_event_grows:
  assumes "extract_event st event = Inr st'" and "getitem event ''seq'' = Inr seq"
  shows "grows (fst st) (fst st')
    \<and> map (tr_invoked \<circ> snd) (fst st') = map (tr_invoked \<circ> snd) (fst st) @ (if is_invocation event then [seq] else [])"
proof -
  obtain st1 reads where inv: "extract_invocation st event = Inr st1"
    and loop: "foldE (extract_state event) st1 (enum_from 1 reads) = Inr st'"
    using assms(1) by (auto simp: extract_event_def bindE_eq_Inr)
  have inv': "extract_invocation (fst st, snd st) event = Inr (fst st1, snd st1)" using inv by simp
  have rest: "grows (fst st1) (fst st') \<and> length (fst st') = length (fst st1)"
    using state_growth.loop_inv_from_start [OF _ loop, of "fst st1"] by (simp add: grows_refl)
  then have "map (tr_invoked \<circ> snd) (fst st') = map (tr_invoked \<circ> snd) (fst st1)"
    by (auto simp: grows_iff refines_op_def intro!: nth_equalityI)
  moreover have "grows (fst st) (fst st1) \<and> map (tr_invoked \<circ> snd) (fst st1)
      = map (tr_invoked \<circ> snd) (fst st) @ (if is_invocation event then [seq] else [])"
    using inv'
  proof (cases rule: extract_invocation_cases)
    case other
    then show ?thesis by (simp add: grows_refl)
  next
    case (invoked kind identity name val seq' node)
    then show ?thesis using assms(2)
      by (simp add: update_new grows_append invoked_operation_def)
  qed
  ultimately show ?thesis using rest grows_trans by auto
qed

definition invocation_times :: "pyval list \<Rightarrow> pyval list" where
  "invocation_times events = map (\<lambda>e. item e ''seq'') (filter is_invocation events)"

interpretation event_growth: checked_loop extract_event
  "\<lambda>events st. numbered events \<longrightarrow> map (tr_invoked \<circ> snd) (fst st) = invocation_times events"
  by unfold_locales (auto simp: numbered_snoc invocation_times_def item_def dest!: extract_event_grows)

interpretation event_finality: checked_loop extract_event
  "\<lambda>events st. list_all (\<lambda>e. \<exists>seq. getitem e ''seq'' = Inr seq) events \<longrightarrow> grows operations (fst st)" for operations
  by unfold_locales (auto dest!: extract_event_grows intro: grows_trans)

text \<open>The value of a write is that of its \<open>propose\<close> event, so it is empty only if one of them is.\<close>

definition proposes_value :: "pyval \<Rightarrow> bool" where
  "proposes_value event \<longleftrightarrow> \<not> is_lit (item event ''kind'') ''propose'' \<or> getitem event ''value'' \<noteq> Inr (PStr [])"

definition write_values_ok :: "(identity \<times> tracked) list \<Rightarrow> bool" where
  "write_values_ok operations \<longleftrightarrow> list_all (\<lambda>(k, op). fst k = OpWrite \<longrightarrow> tr_value op \<noteq> []) operations"

lemma write_values_grow:
  assumes "grows a b" and "length b = length a" and "write_values_ok a"
  shows "write_values_ok b"
  using assms by (fastforce simp: write_values_ok_def list_all_length grows_iff refines_op_def split_beta)

lemma extract_event_values:
  assumes "extract_event st event = Inr st'" and "proposes_value event" and "write_values_ok (fst st)"
  shows "write_values_ok (fst st')"
proof -
  obtain st1 reads where inv: "extract_invocation st event = Inr st1"
    and loop: "foldE (extract_state event) st1 (enum_from 1 reads) = Inr st'"
    using assms(1) by (auto simp: extract_event_def bindE_eq_Inr)
  have inv': "extract_invocation (fst st, snd st) event = Inr (fst st1, snd st1)" using inv by simp
  then have "write_values_ok (fst st1)"
  proof (cases rule: extract_invocation_cases)
    case other
    then show ?thesis using assms(3) by simp
  next
    case (invoked kind identity name val seq node)
    have "val \<noteq> []" if "kind = OpWrite"
    proof -
      have "is_lit (item event ''kind'') ''propose''" and val: "bindE (getitem event ''value'') payload = Inr val"
        using invoked(4) that by simp_all
      then show ?thesis using assms(2) payload_Nil_iff by (auto simp: proposes_value_def bindE_eq_Inr)
    qed
    then show ?thesis using invoked(2,7) assms(3) by (simp add: update_new write_values_ok_def invoked_operation_def)
  qed
  with state_growth.loop_inv_from_start [OF _ loop, of "fst st1"] write_values_grow show ?thesis by (auto simp: grows_refl)
qed

interpretation event_values: checked_loop extract_event
  "\<lambda>events st. list_all proposes_value events \<longrightarrow> write_values_ok (fst st)"
  by unfold_locales (auto intro: extract_event_values)

lemma extract_history_writes:
  assumes "numbered events" and "length events \<le> 1000" and "list_all proposes_value events" and "extract_history events = Inr hs"
  shows "list_all typed_operation hs" and "distinct (map op_id (map operation_of hs))"
    and "op \<in> set (map operation_of hs) \<Longrightarrow> op_kind op = OpWrite \<Longrightarrow> op_value op \<noteq> []"
proof -
  obtain operations owners where run: "foldE extract_event ([], []) events = Inr (operations, owners)"
    and hs: "hs = map (tracked_dict \<circ> snd) operations" and ok: "extraction_ok (length events) operations"
    using extract_history_ok [OF assms(1,4)] .
  have tracked: "tracked_ok (length events) kt" if "kt \<in> set operations" for kt
    using ok that by (auto simp: extraction_ok_def list_all_iff)
  show "list_all typed_operation hs"
    using tracked assms(2) operation_of_tracked by (fastforce simp: hs list_all_iff)
  show "distinct (map op_id (map operation_of hs))"
    using tracked_ids [OF ok] by (simp add: hs op_id_tracked comp_def)
  have "write_values_ok operations"
    using event_values.loop_inv_from_start [OF _ run] assms(3) by (simp add: write_values_ok_def)
  moreover have "op_kind (operation_of (tracked_dict tr)) = tr_kind tr" "op_value (operation_of (tracked_dict tr)) = tr_value tr" for tr
    by (cases "tr_kind tr"; simp add: operation_of_def tracked_dict_def item_def dict_simps kind_name_def)+
  ultimately show "op \<in> set (map operation_of hs) \<Longrightarrow> op_kind op = OpWrite \<Longrightarrow> op_value op \<noteq> []"
    using tracked by (fastforce simp: hs write_values_ok_def list_all_iff tracked_ok_def)
qed

section \<open>Properties\<close>

lemma numbered_append:
  "numbered (events @ later) \<Longrightarrow>
     numbered events \<and> list_all (\<lambda>e. \<exists>seq. getitem e ''seq'' = Inr seq) later"
  by (induction later rule: rev_induct) (simp_all add: append_assoc [symmetric] numbered_snoc del: append_assoc)

text \<open>A read at node 1 that completes in the next event, as a trace of two events.\<close>

definition read_example :: "pyval list" where
  "read_example =
     [mkdict [(''kind'', S ''read''), (''seq'', PInt 0), (''node'', PInt 1), (''value'', S ''c''),
        (''reads'', PList [mkdict [(''completed'', PList []), (''writes'', PList [])]])],
      mkdict [(''kind'', S ''complete_reads''), (''seq'', PInt 1), (''node'', PInt 1), (''value'', S ''''),
        (''reads'', PList [mkdict [(''completed'', PList [mkdict [(''context'', S ''c''), (''value'', S ''v'')]]),
           (''writes'', PList [])]])]]"

lemma read_example_numbered: "numbered read_example" "numbered (take 1 read_example)"
  by (auto simp: numbered_def read_example_def dict_simps less_Suc_eq numeral_2_eq_2)

lemmas extract_eval = extract_history_def extract_event_def extract_invocation_def invoke_operation_def
  extract_state_def state_returns_def read_return_def write_return_def extract_return_def complete_operation_def
  iterate_def kind_name_def tracked_dict_def dict_simps

definition read_example_op :: "pstr \<Rightarrow> int \<Rightarrow> pyval" where
  "read_example_op result returned = mkdict [(''id'', PStr (lit ''read'' @ lit '':'' @ hex (lit ''c''))), (''kind'', S ''read''), (''value'', PStr []),
     (''result'', PStr result), (''invoked'', PInt 0), (''returned'', PInt returned)]"

lemma read_example_extracted:
  "extract_history read_example = Inr [read_example_op (hex (lit ''v'')) 1]"
  "extract_history (take 1 read_example) = Inr [read_example_op [] (- 1)]"
  by (simp_all add: read_example_def read_example_op_def extract_eval)



text \<open>
  C19: the history has exactly one operation per \<open>read\<close> or \<open>propose\<close> event, in trace order, each
  invoked at the sequence number of its event.
\<close>

theorem extract_invocations:
  assumes "numbered events" and "extract_history events = Inr hs"
  shows "map (\<lambda>d. item d ''invoked'') hs = invocation_times events"
proof -
  obtain operations owners where run: "foldE extract_event ([], []) events = Inr (operations, owners)"
    and hs: "hs = map (tracked_dict \<circ> snd) operations"
    using extract_history_ok [OF assms] .
  have "item (tracked_dict op) ''invoked'' = tr_invoked op" for op
    by (simp add: item_def tracked_dict_def dict_simps)
  then show ?thesis
    using event_growth.loop_inv_from_start [OF _ run] assms(1) by (simp add: hs invocation_times_def comp_def)
qed

theorem extract_invocations_witness:
  "map (\<lambda>d. item d ''invoked'') [read_example_op (hex (lit ''v'')) 1] = invocation_times read_example"
  by (rule extract_invocations [OF read_example_numbered(1) read_example_extracted(1)])

text \<open>
  C14: extracting a longer trace extends the history of its prefix: no operation disappears, ids
  and positions stay, and an operation that was completed keeps its response time and result.
\<close>

theorem extract_monotone:
  assumes "numbered (events @ later)" and "extract_history events = Inr hs"
    and "extract_history (events @ later) = Inr hs'"
  shows "length hs \<le> length hs' \<and> (\<forall>i < length hs.
    op_id (operation_of (hs' ! i)) = op_id (operation_of (hs ! i))
    \<and> (op_completed (operation_of (hs ! i)) \<longrightarrow> hs' ! i = hs ! i))"
proof -
  obtain operations owners where run: "foldE extract_event ([], []) events = Inr (operations, owners)"
    and hs: "hs = map (tracked_dict \<circ> snd) operations" and ok: "extraction_ok (length events) operations"
    using extract_history_ok [OF _ assms(2)] numbered_append [OF assms(1)] by blast
  obtain st' where later: "foldE extract_event (operations, owners) later = Inr st'"
    and hs': "hs' = map (tracked_dict \<circ> snd) (fst st')"
    using assms(3) run by (auto simp: extract_history_def foldE_append bindE_eq_Inr)
  from event_finality.loop_inv_from_start [OF _ later, of operations] numbered_append [OF assms(1)]
  have grows: "grows operations (fst st')" by (simp add: grows_refl)
  have "op_completed (operation_of (hs ! i)) \<longrightarrow> \<not> eq_int (tr_returned (snd (operations ! i))) (- 1)"
    if "i < length hs" for i
  proof -
    have "tracked_ok (length events) (operations ! i)"
      using ok that by (simp add: extraction_ok_def list_all_length hs)
    then obtain r where "tr_returned (snd (operations ! i)) = PInt r" by (auto simp: tracked_ok_def split: prod.splits)
    then show ?thesis
      using that by (simp add: hs op_completed_def operation_of_def tracked_dict_def item_def dict_simps)
  qed
  with grows show ?thesis
    by (auto simp: hs hs' grows_iff refines_op_def op_id_tracked)
qed

theorem extract_monotone_witness:
  "op_id (operation_of (read_example_op (hex (lit ''v'')) 1)) = op_id (operation_of (read_example_op [] (- 1)))"
proof -
  have num: "numbered (take 1 read_example @ drop 1 read_example)" by (simp add: read_example_numbered)
  have full: "extract_history (take 1 read_example @ drop 1 read_example) = Inr [read_example_op (hex (lit ''v'')) 1]"
    by (simp only: append_take_drop_id read_example_extracted)
  from extract_monotone [OF num read_example_extracted(2) full] show ?thesis by simp
qed

end
