(* ===== verification/History_Runs.thy ===== *)
theory History_Runs
  imports History_Extract
begin

text \<open>
  The drivers of history_check.py: \<open>check\<close>, which asks TLC and re-verifies a positive answer,
  the semantic mutations of \<open>negatives\<close> and the fixed cases of \<open>regressions\<close>.
\<close>

section \<open>check\<close>

definition history_ndjson :: "pyval \<Rightarrow> pstr" where
  "history_ndjson operations = concat (map (\<lambda>op. dumps False op @ [10]) (the_list operations))"

definition history_cfg :: pstr where
  "history_cfg = lit ''SPECIFICATION Spec'' @ [10] @ lit ''INVARIANTS HistoryTypeInv NoLinearization'' @ [10]
     @ lit ''CHECK_DEADLOCK FALSE'' @ [10]"

text \<open>
  \<open>check\<close>: \<open>classpath\<close> is the result of \<open>check.classpath()\<close>; \<open>tlc\<close> runs TLC with that class path on
  history.ndjson and the configuration, \<open>None\<close> when it exceeds the time limit; \<open>loads\<close> is
  \<open>json.loads\<close> with the hook \<open>unique_object\<close>.  The result is the verdict.
\<close>

definition check_history ::
  "(nat \<Rightarrow> bool) \<Rightarrow> (nat list \<Rightarrow> pyval res) \<Rightarrow> pstr res \<Rightarrow> (pstr \<Rightarrow> pstr \<Rightarrow> pstr \<Rightarrow> tlc_run option)
   \<Rightarrow> pyval \<Rightarrow> bool res" where
  "check_history uword loads classpath tlc operations =
     bindE (validate_history operations) (\<lambda>_.
     bindE classpath (\<lambda>cp.
     case tlc cp (history_ndjson operations) history_cfg of
       None \<Rightarrow> Inl (RuntimeError ''History TLC timeout, NOT a verdict'')
     | Some run \<Rightarrow>
         bindE (verdict uword (tlc_returncode run) (tlc_text run)
                  (length (filter op_completed (history_of operations)))) (\<lambda>linearizable.
         if linearizable then
           (case tlc_witness run of
              None \<Rightarrow> Inl OSError
            | Some data \<Rightarrow> bindE (verify_witness loads operations data) (\<lambda>_. Inr True))
         else
           bindE (require (tlc_witness run = None) ''Unexpected witness artifact for an exhausted history'') (\<lambda>_.
           Inr False))))"

section \<open>regressions\<close>

definition regression_op :: "string \<Rightarrow> string \<Rightarrow> int \<Rightarrow> int \<Rightarrow> string \<Rightarrow> string \<Rightarrow> pyval" where
  "regression_op name kind invoked returned value result =
     mkdict [(''id'', S name), (''kind'', S kind), (''invoked'', PInt invoked), (''returned'', PInt returned),
       (''value'', S value), (''result'', S result)]"

definition regression_cases :: "(string \<times> bool \<times> pyval list) list" where
  "regression_cases =
     [(''initial-read'', True, [regression_op ''r'' ''read'' 0 1 '''' '''']),
      (''overlapping-orders'', True, [regression_op ''a'' ''write'' 0 5 ''A'' '''',
         regression_op ''b'' ''write'' 1 5 ''B'' '''', regression_op ''ra'' ''read'' 2 3 '''' ''A'',
         regression_op ''rb'' ''read'' 6 7 '''' ''B'']),
      (''pending-write'', True, [regression_op ''w'' ''write'' 0 (- 1) ''A'' '''', regression_op ''r'' ''read'' 1 2 '''' ''A'']),
      (''future-pending-write'', False, [regression_op ''r'' ''read'' 0 1 '''' ''A'', regression_op ''w'' ''write'' 2 (- 1) ''A'' '''']),
      (''unwritten-value'', False, [regression_op ''r'' ''read'' 0 1 '''' ''ghost'']),
      (''stale-read'', False, [regression_op ''w'' ''write'' 0 1 ''A'' '''', regression_op ''r'' ''read'' 2 3 '''' '''']),
      (''repeated-values'', True, [regression_op ''a'' ''write'' 0 1 ''A'' '''', regression_op ''b'' ''write'' 2 3 ''A'' '''',
         regression_op ''r'' ''read'' 4 5 '''' ''A'']),
      (''pending-read'', True, [regression_op ''w'' ''write'' 0 1 ''A'' '''', regression_op ''r'' ''read'' 2 (- 1) '''' ''''])]"

text \<open>
  The loop of \<open>regressions\<close> over the cases; \<open>checker\<close> is \<open>check\<close> with its environment, and
  \<open>witnesses\<close> is \<open>witness_negatives\<close> on the run of the given operations.
\<close>

definition run_regressions :: "(pyval \<Rightarrow> bool res) \<Rightarrow> (pyval \<Rightarrow> unit res) \<Rightarrow> unit res" where
  "run_regressions checker witnesses =
     bindE (mapE (\<lambda>(name, expected, operations).
       bindE (checker (PList operations)) (\<lambda>actual.
       bindE (guardE (actual = expected) (RuntimeError ''Unexpected register history verdict'')) (\<lambda>_.
       if name = ''overlapping-orders'' then witnesses (PList operations) else Inr ()))) regression_cases) (\<lambda>_. Inr ())"

section \<open>negatives\<close>

text \<open>\<open>writes\<close>, \<open>reads\<close> and the targets \<open>early\<close> and \<open>late\<close>; \<open>next\<close> of an empty generator raises.\<close>

definition history_writes :: "operation list \<Rightarrow> operation list" where
  "history_writes ops = filter (\<lambda>op. op_kind op = OpWrite) ops"

definition history_reads :: "operation list \<Rightarrow> operation list" where
  "history_reads ops = filter (\<lambda>op. op_kind op = OpRead \<and> 0 \<le> op_returned op) ops"

definition early_read :: "operation list \<Rightarrow> operation res" where
  "early_read ops =
     (if history_reads ops = [] then Inl StopIteration
      else if history_writes ops = [] then Inl (ValueError ''min() arg is an empty sequence'')
      else (case find (\<lambda>op. op_returned op < Min (op_invoked ` set (history_writes ops))) (history_reads ops) of
          None \<Rightarrow> Inl StopIteration | Some op \<Rightarrow> Inr op))"

definition late_read :: "operation list \<Rightarrow> operation res" where
  "late_read ops =
     (case find (\<lambda>op. list_ex (\<lambda>w. 0 \<le> op_returned w \<and> op_returned w < op_invoked op) (history_writes ops))
        (history_reads ops) of
        None \<Rightarrow> Inl StopIteration | Some op \<Rightarrow> Inr op)"

text \<open>\<open>[dict(op, result=value) if op["id"] == target["id"] else dict(op) for op in operations]\<close>.\<close>

definition set_result :: "operation \<Rightarrow> pstr \<Rightarrow> pyval list \<Rightarrow> pyval list" where
  "set_result target value operations =
     map (\<lambda>d. if op_id (operation_of d) = op_id target then dict_with d [(''result'', PStr value)] else d) operations"

definition history_mutations :: "pyval list \<Rightarrow> (string \<times> pyval list) list res" where
  "history_mutations operations =
     (let ops = map operation_of operations in
     bindE (early_read ops) (\<lambda>early.
     bindE (late_read ops) (\<lambda>late.
     Inr [(''future-value'', set_result early (op_value (hd (history_writes ops))) operations),
          (''stale-value'', set_result late [] operations)])))"

definition run_negatives :: "(pyval \<Rightarrow> bool res) \<Rightarrow> pyval list \<Rightarrow> unit res" where
  "run_negatives checker operations =
     bindE (history_mutations operations) (\<lambda>cases.
     bindE (mapE (\<lambda>(name, mutated).
       bindE (checker (PList mutated)) (\<lambda>linearizable.
       guardE (\<not> linearizable) (RuntimeError ''History mutation unexpectedly linearizable''))) cases) (\<lambda>_. Inr ()))"

section \<open>What check returns\<close>

lemma check_history_eq_Inr:
  "check_history uword loads classpath tlc operations = Inr b \<longleftrightarrow>
     validate_history operations = Inr () \<and> (\<exists>cp run. classpath = Inr cp
       \<and> tlc cp (history_ndjson operations) history_cfg = Some run
       \<and> verdict uword (tlc_returncode run) (tlc_text run) (length (filter op_completed (history_of operations))) = Inr b
       \<and> (if b then \<exists>data w. tlc_witness run = Some data \<and> verify_witness loads operations data = Inr w
          else tlc_witness run = None))"
proof -
  have "(case witness of None \<Rightarrow> Inl OSError | Some data \<Rightarrow> bindE (verify_witness loads operations data) (\<lambda>_. Inr True)) = Inr b
    \<longleftrightarrow> b \<and> (\<exists>data w. witness = Some data \<and> verify_witness loads operations data = Inr w)" for witness
    by (auto simp: bindE_eq_Inr split: option.splits)
  moreover have "(case tlc cp (history_ndjson operations) history_cfg of None \<Rightarrow> Inl e | Some run \<Rightarrow> f run) = Inr b
    \<longleftrightarrow> (\<exists>run. tlc cp (history_ndjson operations) history_cfg = Some run \<and> f run = Inr b)" for cp e and f :: "tlc_run \<Rightarrow> bool res"
    by (auto split: option.splits)
  ultimately show ?thesis
    unfolding check_history_def by (simp add: bindE_eq_Inr require_eq_Inr) (auto split: if_splits)
qed

lemma verify_witness_sound:
  "verify_witness loads operations data = Inr w \<Longrightarrow>
     \<exists>xs. linearization (history_of operations) xs \<and> w = witness_dict (history_of operations) xs"
  by (auto simp: verify_witness_def bindE_eq_Inr dest!: verify_raw_sound)

lemma check_history_sound:
  "check_history uword loads classpath tlc operations = Inr True \<Longrightarrow> linearizable (history_of operations)"
  using verify_witness_sound by (fastforce simp: check_history_eq_Inr linearizable_def)

text \<open>
  What \<open>check\<close> relies on when TLC reports success: with exit code 0 and its completion message,
  TLC has visited every reachable state and found the invariants to hold there.
\<close>

definition tlc_exhaustive :: "(pstr \<Rightarrow> pstr \<Rightarrow> pstr \<Rightarrow> tlc_run option) \<Rightarrow> pyval \<Rightarrow> bool" where
  "tlc_exhaustive tlc operations \<longleftrightarrow>
     (\<forall>cp run. tlc cp (history_ndjson operations) history_cfg = Some run \<longrightarrow> tlc_returncode run = 0
        \<longrightarrow> contains no_error_text (tlc_text run)
        \<longrightarrow> (\<forall>s. reachable (history_of operations) s \<longrightarrow> NoLinearization (history_of operations) s))"

section \<open>The regression cases\<close>

lemmas history_eval = history_of_def operation_of_def item_def regression_op_def dict_simps
lemma register_value_ascii: "length s \<le> 8192 \<Longrightarrow> list_all (\<lambda>c. of_char c < (128 :: nat)) s \<Longrightarrow> register_value (lit s)"
  unfolding register_value_def by (subst utf8_encode_ascii) (auto simp: lit_def list_all_iff)

lemma register_value_Nil: "register_value []"
  by (simp add: register_value_def utf8_encode_def)

lemma regressions_valid:
  "(name, expected, ops) \<in> set regression_cases \<Longrightarrow> validate_history (PList ops) = Inr ()"
  by (simp add: regression_cases_def, elim disjE)
    (simp_all add: validate_history_eq_Inr typed_operation_def is_int_def operation_ok_def op_completed_def
      history_eval register_value_ascii register_value_Nil insert_commute)

lemma linearizableI: "linearization ops xs \<Longrightarrow> linearizable ops"
  by (auto simp: linearizable_def)

lemma regressions_linearizable:
  "(name, True, ops) \<in> set regression_cases \<Longrightarrow> linearizable (history_of (PList ops))"
  apply (simp add: regression_cases_def, elim disjE)
  subgoal by (rule linearizableI [of _ "map operation_of [regression_op ''r'' ''read'' 0 1 '''' '''']"])
      (auto simp: history_eval linearization_eval)
  subgoal by (rule linearizableI [of _ "map operation_of [regression_op ''a'' ''write'' 0 5 ''A'' '''',
      regression_op ''ra'' ''read'' 2 3 '''' ''A'', regression_op ''b'' ''write'' 1 5 ''B'' '''',
      regression_op ''rb'' ''read'' 6 7 '''' ''B'']"]) (auto simp: history_eval linearization_eval)
  subgoal by (rule linearizableI [of _ "map operation_of [regression_op ''w'' ''write'' 0 (- 1) ''A'' '''',
      regression_op ''r'' ''read'' 1 2 '''' ''A'']"]) (auto simp: history_eval linearization_eval)
  subgoal by (rule linearizableI [of _ "map operation_of [regression_op ''a'' ''write'' 0 1 ''A'' '''',
      regression_op ''b'' ''write'' 2 3 ''A'' '''', regression_op ''r'' ''read'' 4 5 '''' ''A'']"])
      (auto simp: history_eval linearization_eval)
  subgoal by (rule linearizableI [of _ "map operation_of [regression_op ''w'' ''write'' 0 1 ''A'' '''']"])
      (auto simp: history_eval linearization_eval)
  done

lemma regressions_not_linearizable:
  "(name, False, ops) \<in> set regression_cases \<Longrightarrow> \<not> linearizable (history_of (PList ops))"
  apply (simp add: regression_cases_def, elim disjE)
  subgoal by (rule future_value_not_linearizable [of "operation_of (regression_op ''r'' ''read'' 0 1 '''' ''A'')"])
      (auto simp: history_eval op_completed_def precedes_def)
  subgoal by (rule future_value_not_linearizable [of "operation_of (regression_op ''r'' ''read'' 0 1 '''' ''ghost'')"])
      (auto simp: history_eval op_completed_def precedes_def)
  subgoal by (rule stale_value_not_linearizable [of "operation_of (regression_op ''r'' ''read'' 2 3 '''' '''')" _
      "operation_of (regression_op ''w'' ''write'' 0 1 ''A'' '''')"])
      (auto simp: history_eval op_completed_def precedes_def)
  done
section \<open>The history mutations\<close>

lemma operation_of_set_result:
  assumes "typed_operation d"
  shows "operation_of (dict_with d [(''result'', PStr v)]) = (operation_of d)\<lparr>op_result := v\<rparr>"
proof -
  obtain kvs where d: "d = PDict kvs" using assms by (auto simp: typed_operation_def fields_eq_Inr)
  have "item (dict_with d [(''result'', PStr v)]) k = (if k = ''result'' then PStr v else item d k)" for k
    by (simp add: d dict_with_def item_def getitem_def map_of_dict_set)
  then show ?thesis by (simp add: operation_of_def)
qed

lemma history_set_result:
  assumes "list_all typed_operation ds"
  shows "history_of (PList (set_result target v ds)) =
    map (\<lambda>op. if op_id op = op_id target then op\<lparr>op_result := v\<rparr> else op) (map operation_of ds)"
  using assms by (auto simp: history_of_def set_result_def list_all_iff operation_of_set_result)

text \<open>The members of a history one of whose results has been replaced.\<close>

lemma replaced_members:
  fixes v :: pstr
  assumes "distinct (map op_id ops)" and "r \<in> set ops"
  shows "r\<lparr>op_result := v\<rparr> \<in> set (map (\<lambda>op. if op_id op = op_id r then op\<lparr>op_result := v\<rparr> else op) ops)"
      (is "_ \<in> set ?ops'")
    and "w \<in> set ops \<Longrightarrow> op_kind w \<noteq> op_kind r \<Longrightarrow>
      w \<in> set (map (\<lambda>op. if op_id op = op_id r then op\<lparr>op_result := v\<rparr> else op) ops)"
    and "w \<in> set (map (\<lambda>op. if op_id op = op_id r then op\<lparr>op_result := v\<rparr> else op) ops) \<Longrightarrow>
      op_kind w \<noteq> op_kind r \<Longrightarrow> w \<in> set ops"
proof -
  have unique: "op = r" if "op \<in> set ops" "op_id op = op_id r" for op
    using assms(1,2) that by (auto simp: distinct_map inj_on_def)
  show "r\<lparr>op_result := v\<rparr> \<in> set ?ops'" using assms(2) by force
  show "w \<in> set ops \<Longrightarrow> op_kind w \<noteq> op_kind r \<Longrightarrow> w \<in> set ?ops'" using unique by force
  show "w \<in> set ?ops' \<Longrightarrow> op_kind w \<noteq> op_kind r \<Longrightarrow> w \<in> set ops"
    using unique by (auto split: if_splits dest: unique)
qed

lemma early_read_facts:
  assumes "early_read ops = Inr r"
  shows "r \<in> set ops" and "op_kind r = OpRead" and "op_completed r" and "history_writes ops \<noteq> []"
    and "\<And>w. w \<in> set ops \<Longrightarrow> op_kind w = OpWrite \<Longrightarrow> precedes r w"
proof -
  have r: "find (\<lambda>op. op_returned op < Min (op_invoked ` set (history_writes ops))) (history_reads ops) = Some r"
    and writes: "history_writes ops \<noteq> []"
    using assms by (auto simp: early_read_def split: if_splits option.splits)
  from r have "r \<in> set (history_reads ops)" and lt: "op_returned r < Min (op_invoked ` set (history_writes ops))"
    by (auto simp: find_Some_iff)
  then show "r \<in> set ops" "op_kind r = OpRead" "op_completed r" by (auto simp: history_reads_def op_completed_def)
  then show "precedes r w" if "w \<in> set ops" "op_kind w = OpWrite" for w
  proof -
    have "w \<in> set (history_writes ops)" using that by (simp add: history_writes_def)
    then have "Min (op_invoked ` set (history_writes ops)) \<le> op_invoked w" by simp
    with lt \<open>op_completed r\<close> show ?thesis by (simp add: precedes_def)
  qed
  show "history_writes ops \<noteq> []" by (rule writes)
qed

lemma late_read_facts:
  assumes "late_read ops = Inr r"
  shows "r \<in> set ops" and "op_kind r = OpRead" and "op_completed r"
    and "\<exists>w \<in> set ops. op_kind w = OpWrite \<and> precedes w r"
proof -
  have "find (\<lambda>op. list_ex (\<lambda>w. 0 \<le> op_returned w \<and> op_returned w < op_invoked op) (history_writes ops))
      (history_reads ops) = Some r"
    using assms by (auto simp: late_read_def split: option.splits)
  then have "r \<in> set (history_reads ops)"
    and "list_ex (\<lambda>w. 0 \<le> op_returned w \<and> op_returned w < op_invoked r) (history_writes ops)"
    by (auto simp: find_Some_iff)
  then show "r \<in> set ops" "op_kind r = OpRead" "op_completed r" "\<exists>w \<in> set ops. op_kind w = OpWrite \<and> precedes w r"
    by (auto simp: history_reads_def history_writes_def list_ex_iff op_completed_def precedes_def)
qed

lemma mutations_not_linearizable:
  assumes "list_all typed_operation ds" and "distinct (map op_id (map operation_of ds))"
    and nonempty: "\<And>op. op \<in> set (map operation_of ds) \<Longrightarrow> op_kind op = OpWrite \<Longrightarrow> op_value op \<noteq> []"
    and "history_mutations ds = Inr cases" and "(name, mutated) \<in> set cases"
  shows "\<not> linearizable (history_of (PList mutated))"
proof -
  let ?ops = "map operation_of ds"
  obtain early late where early: "early_read ?ops = Inr early" and late: "late_read ?ops = Inr late"
    and cases: "cases = [(''future-value'', set_result early (op_value (hd (history_writes ?ops))) ds),
      (''stale-value'', set_result late [] ds)]"
    using assms(4) by (auto simp: history_mutations_def Let_def bindE_eq_Inr)
  note e = early_read_facts [OF early] and l = late_read_facts [OF late]
  have "hd (history_writes ?ops) \<in> set (history_writes ?ops)" using e(4) by (rule hd_in_set)
  then have first: "op_value (hd (history_writes ?ops)) \<noteq> []" (is "?v \<noteq> []")
    using nonempty by (auto simp: history_writes_def)
  have "\<not> linearizable (history_of (PList (set_result early ?v ds)))"
    unfolding history_set_result [OF assms(1)]
  proof (rule future_value_not_linearizable [OF replaced_members(1) [OF assms(2) e(1)]])
    fix w assume "w \<in> set (map (\<lambda>op. if op_id op = op_id early then op\<lparr>op_result := ?v\<rparr> else op) ?ops)"
      and "op_kind w = OpWrite"
    then have "precedes early w" using replaced_members(3) [OF assms(2) e(1)] e by auto
    then show "precedes (early\<lparr>op_result := ?v\<rparr>) w" by (simp add: precedes_def op_completed_def)
  qed (use e first in \<open>simp_all add: op_completed_def\<close>)
  moreover have "\<not> linearizable (history_of (PList (set_result late [] ds)))"
  proof -
    obtain w where w: "w \<in> set ?ops" "op_kind w = OpWrite" "precedes w late" using l(4) by blast
    show ?thesis
      unfolding history_set_result [OF assms(1)]
    proof (rule stale_value_not_linearizable [OF replaced_members(1) [OF assms(2) l(1)]])
      show "w \<in> set (map (\<lambda>op. if op_id op = op_id late then op\<lparr>op_result := []\<rparr> else op) ?ops)"
        using replaced_members(2) [OF assms(2) l(1) w(1)] w(2) l(2) by simp
      show "op_value w' \<noteq> []"
        if "w' \<in> set (map (\<lambda>op. if op_id op = op_id late then op\<lparr>op_result := []\<rparr> else op) ?ops)" "op_kind w' = OpWrite" for w'
        using replaced_members(3) [OF assms(2) l(1) that(1)] that(2) l(2) nonempty by simp
    qed (use l w in \<open>simp_all add: op_completed_def precedes_def\<close>)
  qed
  ultimately show ?thesis using assms(5) by (auto simp: cases)
qed

section \<open>TLC logs\<close>

text \<open>A log that reports a linearization of \<open>n\<close> completed operations, and one that excludes all.\<close>

definition goal_log :: "nat \<Rightarrow> pstr" where
  "goal_log n = marker ''RAFTZ_HISTORY_COMPLETE'' n @ 10 # lit ''Error: Invariant NoLinearization is violated.''
     @ 10 # behavior_text @ 10 # lit ''State 2: <Linearize>''"

definition exhausted_log :: pstr where
  "exhausted_log = no_error_text @ 10 # lit ''9 states generated, 8 distinct states found, 0 states left on queue.''"

lemma digits_no_newline: "10 \<notin> set (dec n)"
  using dec_digits [of 10 n] by (auto simp: is_digit_def)

lemma goal_log_lines:
  "tlc_lines (goal_log n) = [marker ''RAFTZ_HISTORY_COMPLETE'' n, lit ''Error: Invariant NoLinearization is violated.'',
     behavior_text, lit ''State 2: <Linearize>'']"
proof -
  have "10 \<notin> set (marker ''RAFTZ_HISTORY_COMPLETE'' n)"
    using digits_no_newline [of n] by (simp add: marker_def lit_def)
  moreover have "10 \<notin> set (lit ''Error: Invariant NoLinearization is violated.'')" "10 \<notin> set behavior_text"
    "10 \<notin> set (lit ''State 2: <Linearize>'')"
    by (simp_all add: behavior_text_def lit_def)
  ultimately show ?thesis by (simp add: goal_log_def tlc_lines_append tlc_lines_single)
qed

lemma containsI: "contains needle (a @ needle @ b)"
  unfolding contains_iff by blast

lemma goal_log_verdict: "verdict uword 12 (goal_log n) n = Inr True"
proof -
  have line: "violation_line uword (lit ''Error: Invariant NoLinearization is violated.'') = Some (lit ''NoLinearization'')"
    by (simp add: violation_line_def strip_prefix_def strip_suffix_def lit_def word_char_def is_digit_def)
  have none: "violation_line uword (marker ''RAFTZ_HISTORY_COMPLETE'' n) = None"
    "violation_line uword behavior_text = None" "violation_line uword (lit ''State 2: <Linearize>'') = None"
    by (simp_all add: violation_line_def strip_prefix_def marker_def behavior_text_def lit_def)
  have "violations uword (goal_log n) = [lit ''NoLinearization'']"
    by (simp add: violations_def goal_log_lines line none map_filter_def)
  moreover have "contains (marker ''RAFTZ_HISTORY_COMPLETE'' n) (goal_log n)"
    using containsI [of _ "[]"] by (simp add: goal_log_def)
  moreover have "contains behavior_text (goal_log n)"
    using containsI [of behavior_text "marker ''RAFTZ_HISTORY_COMPLETE'' n @ 10 # lit ''Error: Invariant NoLinearization is violated.'' @ [10]"]
    by (simp add: goal_log_def)
  moreover have "has_state_two (goal_log n)"
    by (simp add: has_state_two_def goal_log_lines strip_prefix_def lit_def)
  ultimately show ?thesis by (simp add: verdict_def)
qed

lemma exhausted_log_facts:
  "violations uword exhausted_log = []" "summaries exhausted_log = [(lit ''9'', lit ''8'', lit ''0'')]"
  "contains no_error_text exhausted_log"
proof -
  have lines: "tlc_lines exhausted_log
      = [no_error_text, lit ''9 states generated, 8 distinct states found, 0 states left on queue.'']"
    unfolding exhausted_log_def by (simp add: tlc_lines_append tlc_lines_single no_error_text_def lit_def)
  show "violations uword exhausted_log = []"
    by (simp add: violations_def lines map_filter_def violation_line_def strip_prefix_def no_error_text_def lit_def)
  show "summaries exhausted_log = [(lit ''9'', lit ''8'', lit ''0'')]"
    by (simp add: summaries_def lines map_filter_def summary_line_def digits_then_def strip_prefix_def is_digit_def
        no_error_text_def lit_def)
  show "contains no_error_text exhausted_log"
    using containsI [of _ "[]"] by (simp add: exhausted_log_def)
qed

lemma exhausted_log_verdict: "verdict uword 0 exhausted_log n = Inr False"
proof -
  have "\<not> contains (lit ''RAFTZ_HISTORY_COMPLETE'') exhausted_log"
    by (simp add: exhausted_log_def no_error_text_def lit_def)
  then show ?thesis using exhausted_log_facts by (simp add: verdict_def undec_def lit_def)
qed

section \<open>Properties\<close>

text \<open>The overlapping regression case, a linearization of it, and the smallest case with TLC's dump of it.\<close>

definition overlapping :: "pyval list" where
  "overlapping = [regression_op ''a'' ''write'' 0 5 ''A'' '''', regression_op ''b'' ''write'' 1 5 ''B'' '''',
     regression_op ''ra'' ''read'' 2 3 '''' ''A'', regression_op ''rb'' ''read'' 6 7 '''' ''B'']"

definition overlapping_order :: "operation list" where
  "overlapping_order = map operation_of [regression_op ''a'' ''write'' 0 5 ''A'' '''',
      regression_op ''ra'' ''read'' 2 3 '''' ''A'', regression_op ''b'' ''write'' 1 5 ''B'' '''',
      regression_op ''rb'' ''read'' 6 7 '''' ''B'']"

lemma overlapping_valid: "validate_history (PList overlapping) = Inr ()"
  by (rule regressions_valid [of "''overlapping-orders''" True]) (simp add: regression_cases_def overlapping_def)

lemma overlapping_linearization: "linearization (history_of (PList overlapping)) overlapping_order"
  unfolding overlapping_def overlapping_order_def by (auto simp: history_eval linearization_eval)

definition initial_read :: "pyval list" where
  "initial_read = [regression_op ''r'' ''read'' 0 1 '''' '''']"

definition dump_state :: "int \<Rightarrow> pyval list \<Rightarrow> pyval" where
  "dump_state p indices = PList [PInt p, mkdict [(''done'', PList indices), (''value'', S '''')]]"

definition initial_read_dump :: pyval where
  "initial_read_dump = mkdict [(''counterexample'', mkdict [
      (''state'', PList [dump_state 1 [], dump_state 2 [PInt 1]]),
      (''action'', PList [PList [dump_state 1 [],
         mkdict [(''name'', S ''Linearize''), (''location'', mkdict []), (''context'', mkdict [(''i'', PInt 1)]),
           (''parameters'', PList [S ''i''])], dump_state 2 [PInt 1]]])]),
     (''vars'', PList [S ''done'', S ''value''])]"

lemma initial_read_valid: "validate_history (PList initial_read) = Inr ()"
  by (rule regressions_valid [of "''initial-read''" True]) (simp add: regression_cases_def initial_read_def)

lemma initial_read_linearization:
  "linearization (history_of (PList initial_read)) (map (Ops (history_of (PList initial_read))) [1])"
  by (auto simp: initial_read_def Ops_def history_eval linearization_eval)

lemma initial_read_shown: "shows_dump (history_of (PList initial_read)) [1] initial_read_dump"
proof -
  let ?ops = "history_of (PList initial_read)"
  have vars: "shows_vars (dump_state p (map (PInt \<circ> int) sel)) p sel (PStr [])" for p sel
    by (simp add: shows_vars_def dump_state_def dict_simps)
  have first: "shows_state (dump_state 1 []) 1 {} (PStr [])"
    unfolding shows_state_def by (rule exI [of _ "[]"]) (use vars [of 1 "[]"] in simp)
  have second: "shows_state (dump_state 2 [PInt 1]) 2 {1} (PStr [])"
    unfolding shows_state_def by (rule exI [of _ "[1]"]) (use vars [of 2 "[1]"] in simp)
  have "shows_run ?ops [dump_state 1 [], dump_state 2 [PInt 1]]
      [PList [dump_state 1 [], mkdict [(''name'', S ''Linearize''), (''location'', mkdict []),
         (''context'', mkdict [(''i'', PInt 1)]), (''parameters'', PList [S ''i''])], dump_state 2 [PInt 1]]]
      [] [dump_state 2 [PInt 1]] [1] [PStr []]"
    using second
    by (auto simp: verify_edge_iff [symmetric] verify_edge_def Ids_def history_of_def initial_read_def dict_simps insert_commute)
  moreover have "map PStr (tl (register_values [] (map (Ops ?ops) [1]))) = [PStr []]"
    by (simp add: initial_read_def Ops_def history_eval register_after_def)
  ultimately show ?thesis
    using first unfolding shows_dump_def initial_read_dump_def
    by (simp add: dict_simps insert_commute)
qed

text \<open>
  C2: \<open>replay\<close> accepts an order of operation ids exactly when it is a linearization of the
  history, and then returns that order with the register values it goes through and the
  operations it omits.
\<close>

theorem replay_iff_linearization:
  assumes "validate_history operations = Inr ()"
  shows "replay operations order = Inr w \<longleftrightarrow>
    (\<exists>xs. order = PList (map (PStr \<circ> op_id) xs) \<and> linearization (history_of operations) xs
       \<and> w = witness_dict (history_of operations) xs)"
  using assms by (rule replay_eq_Inr)

theorem replay_iff_linearization_witness:
  "replay (PList overlapping) (PList (map (PStr \<circ> op_id) overlapping_order))
     = Inr (witness_dict (history_of (PList overlapping)) overlapping_order)"
  using replay_iff_linearization [OF overlapping_valid] overlapping_linearization by blast

text \<open>
  C10: \<open>verify_witness\<close> accepts a dump only if it shows, state by state and transition by
  transition, a run of the TLA+ model that linearizes the history, and it returns the witness
  of that linearization.  TLC is not trusted for a positive answer.
\<close>

theorem verify_witness_accepts_runs:
  assumes "verify_witness loads operations data = Inr w"
  shows "\<exists>raw is s. loads data = Inr raw \<and> shows_dump (history_of operations) is raw
    \<and> path (Linearize (history_of operations)) Init is s \<and> \<not> NoLinearization (history_of operations) s
    \<and> w = witness_dict (history_of operations) (map (Ops (history_of operations)) is)"
proof -
  let ?ops = "history_of operations"
  obtain raw where valid: "validate_history operations = Inr ()" and raw: "loads data = Inr raw"
    and ok: "verify_raw operations raw = Inr w"
    using assms by (auto simp: verify_witness_def bindE_eq_Inr)
  note wf = validate_history_wf [OF valid]
  obtain "is" where dump: "shows_dump ?ops is raw" and sub: "set is \<subseteq> Ids ?ops"
    and lin: "linearization ?ops (map (Ops ?ops) is)" and w: "w = witness_dict ?ops (map (Ops ?ops) is)"
    using verify_raw_sound [OF valid ok] by blast
  obtain js s where js: "map (Ops ?ops) js = map (Ops ?ops) is" and run: "path (Linearize ?ops) Init js s"
    using tla.linearization_path [OF wf lin] by blast
  note indices = path_indices [OF run]
  have "inj_on (Ops ?ops) (set js \<union> set is)"
    using indices sub by (intro inj_on_subset [OF inj_Ops [OF wf]]) auto
  then have "js = is" using js by (rule inj_on_map_eq_map [THEN iffD1])
  moreover have "\<not> NoLinearization ?ops s"
    using indices goal_image [OF wf, of s] tla.goal_iff_linearization [OF wf run] lin js by simp
  ultimately show ?thesis using raw dump run w by blast
qed

theorem verify_witness_accepts_runs_witness:
  "\<exists>raw is s. (\<lambda>_. Inr initial_read_dump) [123] = (Inr raw :: pyval res)
    \<and> shows_dump (history_of (PList initial_read)) is raw
    \<and> path (Linearize (history_of (PList initial_read))) Init is s
    \<and> \<not> NoLinearization (history_of (PList initial_read)) s
    \<and> witness_dict (history_of (PList initial_read)) (map (Ops (history_of (PList initial_read))) [1])
      = witness_dict (history_of (PList initial_read)) (map (Ops (history_of (PList initial_read))) is)"
proof (rule verify_witness_accepts_runs)
  show "verify_witness (\<lambda>_. Inr initial_read_dump) (PList initial_read) [123]
      = Inr (witness_dict (history_of (PList initial_read)) (map (Ops (history_of (PList initial_read))) [1]))"
    using verify_raw_complete [OF initial_read_valid initial_read_shown initial_read_linearization]
    by (simp add: verify_witness_def initial_read_valid)
qed

text \<open>
  C11: no run of the model is refused: for a well-formed history, a dump of 1 to 4 000 000 bytes
  whose document shows a run that linearizes the history (its states, and between them the
  transitions \<open>Linearize(i)\<close>) is accepted with the witness of that run.
\<close>

theorem verify_witness_complete:
  assumes "validate_history operations = Inr ()" and "0 < length data" and "length data \<le> 4000000"
    and "loads data = Inr raw" and "shows_dump (history_of operations) is raw"
    and "linearization (history_of operations) (map (Ops (history_of operations)) is)"
  shows "verify_witness loads operations data
    = Inr (witness_dict (history_of operations) (map (Ops (history_of operations)) is))"
  using assms verify_raw_complete by (simp add: verify_witness_def)

theorem verify_witness_complete_witness:
  "verify_witness (\<lambda>_. Inr initial_read_dump) (PList initial_read) [123]
     = Inr (witness_dict (history_of (PList initial_read)) (map (Ops (history_of (PList initial_read))) [1]))"
  by (rule verify_witness_complete [OF initial_read_valid _ _ _ initial_read_shown initial_read_linearization]) simp_all

text \<open>
  C1: the verdict of \<open>check\<close> is right in both directions, given that a successful TLC run has
  explored the whole model.
\<close>

theorem check_verdict_correct:
  assumes "tlc_exhaustive tlc operations"
    and "check_history uword loads classpath tlc operations = Inr b"
  shows "b \<longleftrightarrow> linearizable (history_of operations)"
proof (cases b)
  case True
  then show ?thesis using assms(2) check_history_sound by auto
next
  case False
  then obtain cp run where valid: "validate_history operations = Inr ()"
    and tlc: "tlc cp (history_ndjson operations) history_cfg = Some run"
    and "verdict uword (tlc_returncode run) (tlc_text run) (length (filter op_completed (history_of operations))) = Inr False"
    using assms(2) by (auto simp: check_history_eq_Inr)
  then have "tlc_returncode run = 0" "contains no_error_text (tlc_text run)"
    by (auto simp: verdict_def split: if_splits)
  with assms(1) tlc have "\<forall>s. reachable (history_of operations) s \<longrightarrow> NoLinearization (history_of operations) s"
    by (auto simp: tlc_exhaustive_def)
  with goal_reachable_iff [OF validate_history_wf [OF valid]] False show ?thesis by blast
qed

definition ghost_read :: "pyval list" where
  "ghost_read = [regression_op ''r'' ''read'' 0 1 '''' ''ghost'']"

definition exhausting_tlc :: "pstr \<Rightarrow> pstr \<Rightarrow> pstr \<Rightarrow> tlc_run option" where
  "exhausting_tlc cp ndjson cfg = Some \<lparr>tlc_returncode = 0, tlc_text = exhausted_log, tlc_witness = None\<rparr>"

lemma ghost_read_case: "(''unwritten-value'', False, ghost_read) \<in> set regression_cases"
  by (simp add: regression_cases_def ghost_read_def)

theorem check_verdict_correct_witness: "False \<longleftrightarrow> linearizable (history_of (PList ghost_read))"
proof (rule check_verdict_correct)
  show "tlc_exhaustive exhausting_tlc (PList ghost_read)"
    using goal_reachable_iff [OF validate_history_wf [OF regressions_valid [OF ghost_read_case]]]
      regressions_not_linearizable [OF ghost_read_case] by (auto simp: tlc_exhaustive_def)
  show "check_history (\<lambda>_. False) (\<lambda>_. Inr PNone) (Inr []) exhausting_tlc (PList ghost_read) = Inr False"
    by (simp add: check_history_eq_Inr regressions_valid [OF ghost_read_case] exhausting_tlc_def exhausted_log_verdict)
qed

text \<open>
  C20: the expected verdict of every case of \<open>regressions\<close> is the right one, and every case is a
  valid history; so a correct \<open>check\<close> passes the regressions.
\<close>

theorem regressions_expected:
  "list_all (\<lambda>(name, expected, operations).
     validate_history (PList operations) = Inr () \<and> linearizable (history_of (PList operations)) = expected)
   regression_cases"
proof -
  have "validate_history (PList operations) = Inr () \<and> linearizable (history_of (PList operations)) = expected"
    if "(name, expected, operations) \<in> set regression_cases" for name expected operations
    using that regressions_valid regressions_linearizable regressions_not_linearizable by (cases expected) auto
  then show ?thesis by (auto simp: list_all_iff)
qed

text \<open>
  C18: \<open>negatives\<close> never accepts a mutation: when every write stores a non-empty value, neither the
  future-value nor the stale-value mutation of a history can be linearized, so no run of \<open>check\<close>
  answers \<open>True\<close> on them.
\<close>

theorem negatives_refuted:
  assumes "list_all typed_operation operations" and "distinct (map op_id (map operation_of operations))"
    and "list_all (\<lambda>op. op_kind op = OpWrite \<longrightarrow> op_value op \<noteq> []) (map operation_of operations)"
    and "history_mutations operations = Inr cases"
  shows "list_all (\<lambda>(name, mutated). \<not> linearizable (history_of (PList mutated))
    \<and> check_history uword loads classpath tlc (PList mutated) \<noteq> Inr True) cases"
proof -
  have "\<not> linearizable (history_of (PList mutated)) \<and> check_history uword loads classpath tlc (PList mutated) \<noteq> Inr True"
    if "(name, mutated) \<in> set cases" for name mutated
  proof -
    have no: "\<not> linearizable (history_of (PList mutated))"
      by (rule mutations_not_linearizable [OF assms(1,2) _ assms(4) that]) (use assms(3) in \<open>auto simp: list_all_iff\<close>)
    then have "check_history uword loads classpath tlc (PList mutated) \<noteq> Inr True" using check_history_sound by blast
    with no show ?thesis ..
  qed
  then show ?thesis by (auto simp: list_all_iff)
qed

definition negative_example :: "pyval list" where
  "negative_example = [regression_op ''r'' ''read'' 0 1 '''' '''', regression_op ''w'' ''write'' 2 3 ''A'' '''',
     regression_op ''s'' ''read'' 4 5 '''' ''A'']"

theorem negatives_refuted_witness:
  "list_all (\<lambda>(name, mutated). \<not> linearizable (history_of (PList mutated))
      \<and> check_history (\<lambda>_. False) (\<lambda>_. Inr PNone) (Inr []) exhausting_tlc (PList mutated) \<noteq> Inr True)
    [(''future-value'', set_result (operation_of (regression_op ''r'' ''read'' 0 1 '''' '''')) (lit ''A'') negative_example),
     (''stale-value'', set_result (operation_of (regression_op ''s'' ''read'' 4 5 '''' ''A'')) [] negative_example)]"
  by (rule negatives_refuted [of negative_example])
    (simp_all add: negative_example_def typed_operation_def is_int_def history_eval insert_commute history_mutations_def
      early_read_def late_read_def history_reads_def history_writes_def)

end
