(* ===== verification/Read_Trace_Check.thy ===== *)
theory Read_Trace_Check
  imports Trace_Runs History_Runs
begin

text \<open>
  read_trace_check.py: traces of RawNode with its ReadIndex protocol and a register application.
  A read trace is a consensus trace whose messages carry a context and whose events carry the
  read state of the three nodes.  The checker validates that extra structure, projects the trace
  to a plain consensus trace for trace_check.py, builds the steps of the read model, and hands the
  register history of the trace to history_check.py.
\<close>

section \<open>Constants\<close>

definition READ_HEADER :: pyval where
  "READ_HEADER = dict_with HEADER [(''version'', PInt 4), (''read_index'', PBool True), (''application'', S ''register-v1'')]"

definition READ_EVENTS :: "string list" where
  "READ_EVENTS = [''read'', ''read_ready'', ''apply'', ''complete_reads'']"

section \<open>Read states\<close>

text \<open>\<open>context\<close> of the source.\<close>

definition read_context :: "pyval \<Rightarrow> pstr res" where
  "read_context value =
     bindE (payload value) (\<lambda>result.
     bindE (require (result \<noteq> []) ''Empty read context'') (\<lambda>_.
     Inr result))"

definition bounded_list :: "pyval \<Rightarrow> pyval list res" where
  "bounded_list value =
     bindE (require (case value of PList xs \<Rightarrow> length xs \<le> 16 | _ \<Rightarrow> False) ''Unsupported read list'') (\<lambda>_.
     Inr (the_list value))"

text \<open>One element of \<open>writes\<close>.\<close>

definition read_write :: "pyval \<Rightarrow> pyval res" where
  "read_write write =
     bindE (Py_Values.fields write [''context'', ''value'', ''completed'']) (\<lambda>_.
     bindE (getitem write ''completed'') (\<lambda>completed.
     bindE (natural_upto 16 completed) (\<lambda>_.
     bindE (bindE (getitem write ''context'') read_context) (\<lambda>ctx.
     bindE (bindE (getitem write ''value'') read_context) (\<lambda>value.
     Inr (mkdict [(''context'', PStr ctx), (''value'', PStr value), (''completed'', completed)]))))))"

definition is_ack :: "pyval \<Rightarrow> bool" where
  "is_ack n = (case n of PInt i \<Rightarrow> i \<in> {1, 2, 3} | _ \<Rightarrow> False)"

text \<open>The acknowledgements of a pending read.\<close>

definition read_acks :: "pyval \<Rightarrow> pyval list res" where
  "read_acks x =
     bindE (bindE (getitem x ''acks'') bounded_list) (\<lambda>acks.
     bindE (require (list_all is_ack acks \<and> card (set acks) = length acks) ''Invalid ACK set'') (\<lambda>_.
     Inr acks))"

definition item_fields :: "string \<Rightarrow> string list" where
  "item_fields field =
     (if field = ''pending'' then [''context'', ''index'', ''acks'']
      else if field = ''completed'' then [''context'', ''index'', ''value'']
      else [''context'', ''index''])"

text \<open>One element of the list \<open>field\<close>; an unresolved tracked read has no index yet.\<close>

definition read_item :: "string \<Rightarrow> pyval \<Rightarrow> pyval res" where
  "read_item field x =
     bindE (Py_Values.fields x (item_fields field)) (\<lambda>_.
     bindE (bindE (getitem x ''context'') read_context) (\<lambda>ctx.
     bindE (getitem x ''index'') (\<lambda>index.
     bindE (if field = ''tracked'' \<and> index = PNone then Inr (PInt (- 1))
            else bindE (natural_upto 32 index) (\<lambda>_. Inr index)) (\<lambda>index.
     let result = [(''context'', PStr ctx), (''index'', index)] in
     if field = ''completed'' then
       bindE (bindE (getitem x ''value'') payload) (\<lambda>value.
       Inr (mkdict (result @ [(''value'', PStr value)])))
     else if field = ''pending'' then
       bindE (read_acks x) (\<lambda>acks.
       Inr (mkdict (result @ [(''acks'', PList acks)])))
     else Inr (mkdict result)))))"

definition read_items :: "pyval \<Rightarrow> string \<Rightarrow> pyval list res" where
  "read_items state field =
     bindE (bindE (getitem state field) bounded_list) (\<lambda>items. mapE (read_item field) items)"

definition read_state :: "pyval \<Rightarrow> pyval res" where
  "read_state state =
     bindE (Py_Values.fields state [''waiting'', ''pending'', ''ready'', ''tracked'', ''applied'', ''completed'', ''value'', ''writes'']) (\<lambda>_.
     bindE (getitem state ''applied'') (\<lambda>applied.
     bindE (natural_upto 32 applied) (\<lambda>_.
     bindE (bindE (bindE (getitem state ''waiting'') bounded_list) (mapE read_context)) (\<lambda>waiting.
     bindE (bindE (getitem state ''value'') payload) (\<lambda>value.
     bindE (bindE (bindE (getitem state ''writes'') bounded_list) (mapE read_write)) (\<lambda>writes.
     bindE (read_items state ''pending'') (\<lambda>pending.
     bindE (read_items state ''ready'') (\<lambda>ready.
     bindE (read_items state ''tracked'') (\<lambda>tracked.
     bindE (read_items state ''completed'') (\<lambda>completed.
     Inr (mkdict [(''waiting'', PList (map PStr waiting)), (''pending'', PList pending), (''ready'', PList ready),
       (''tracked'', PList tracked), (''applied'', applied), (''completed'', PList completed),
       (''value'', PStr value), (''writes'', PList writes)])))))))))))"

section \<open>Contextual messages and the projection\<close>

text \<open>\<open>packet\<close>: the read-protocol part of a message, \<open>None\<close> when its context is empty.\<close>

definition packet :: "pyval \<Rightarrow> pyval res" where
  "packet m =
     bindE (require (case m of PDict kvs \<Rightarrow> has_key kvs ''context'' | _ \<Rightarrow> False) ''Missing message context'') (\<lambda>_.
     let plain = (case m of PDict kvs \<Rightarrow> PDict (dict_del (lit ''context'') kvs) | _ \<Rightarrow> m) in
     bindE (message plain) (\<lambda>_.
     bindE (bindE (getitem m ''context'') payload) (\<lambda>ctx.
     bindE (getitem m ''kind'') (\<lambda>kind.
     bindE (require (ctx = [] \<or> in_tuple kind [''heartbeat'', ''heartbeat_response'']) ''Unsupported contextual message'') (\<lambda>_.
     if ctx \<noteq> [] then
       bindE (getitem m ''from'') (\<lambda>src.
       bindE (getitem m ''to'') (\<lambda>dst.
       bindE (getitem m ''term'') (\<lambda>term.
       Inr (mkdict [(''kind'', kind), (''source'', src), (''dest'', dst), (''term'', term), (''context'', PStr ctx)]))))
     else Inr PNone)))))"

text \<open>\<open>del obj[k]\<close> on any value.\<close>

definition delitem :: "string \<Rightarrow> pyval \<Rightarrow> pyval res" where
  "delitem k obj = (case obj of
      PDict kvs \<Rightarrow> if has_key kvs k then Inr (PDict (dict_del (lit k) kvs)) else Inl (KeyError k)
    | _ \<Rightarrow> Inl TypeError)"

text \<open>
  A loop that changes every element of \<open>obj\<close> in place, where the change raises \<open>TypeError\<close> on a
  string: over a string or a dict such a loop meets only strings.
\<close>

definition update_each :: "(pyval \<Rightarrow> pyval res) \<Rightarrow> pyval \<Rightarrow> pyval res" where
  "update_each f obj = (case obj of
      PList xs \<Rightarrow> bindE (mapE f xs) (\<lambda>ys. Inr (PList ys))
    | _ \<Rightarrow> bindE (iterate obj) (\<lambda>xs. if xs = [] then Inr obj else Inl TypeError))"

definition project :: "pyval \<Rightarrow> pyval res" where
  "project event =
     bindE (delitem ''reads'' event) (\<lambda>result.
     bindE (getitem event ''kind'') (\<lambda>kind.
     bindE (in_set kind READ_EVENTS) (\<lambda>reading.
     bindE (if reading then
              bindE (setitem ''kind'' (if is_lit kind ''read'' then S ''beat'' else S ''ready'') result) (setitem ''value'' (S ''''))
            else Inr result) (\<lambda>result.
     bindE (update_item ''pending'' (update_each (delitem ''context'')) result) (\<lambda>result.
     bindE (update_item ''network'' (update_each (delitem ''context'')) result) (\<lambda>result.
     update_item ''input'' (\<lambda>inp. if inp \<noteq> PNone then delitem ''context'' inp else Inr inp) result))))))"

section \<open>load\<close>

definition check_bag :: "pyval \<Rightarrow> string \<Rightarrow> unit res" where
  "check_bag event field =
     bindE (observe_bag event field) (\<lambda>ms. bindE (mapE packet ms) (\<lambda>_. Inr ()))"

definition apply_targets :: "pstr list" where
  "apply_targets = map dec [1..<33]"

definition check_value :: "pyval \<Rightarrow> pyval \<Rightarrow> unit res" where
  "check_value kind value =
     (if is_lit kind ''read'' then bindE (read_context value) (\<lambda>_. Inr ())
      else if is_lit kind ''apply'' then
        require (case value of PStr s \<Rightarrow> s \<in> set apply_targets | _ \<Rightarrow> False) ''Invalid apply target''
      else bindE (in_set kind READ_EVENTS) (\<lambda>reading.
        if reading then require (is_lit value '''') ''Unexpected read input'' else Inr ()))"

text \<open>The checks of one event in their order: fields, position and kind, \<dots>\<close>

definition read_event_kind :: "nat \<Rightarrow> int \<Rightarrow> pyval \<Rightarrow> pyval res" where
  "read_event_kind n i event =
     bindE (Py_Values.fields event [''kind'', ''seq'', ''node'', ''input'', ''value'', ''states'', ''pending'', ''network'', ''reads'', ''proposal_context'']) (\<lambda>_.
     bindE (getitem event ''seq'') (\<lambda>seq.
     bindE (require (seq = PInt i) ''Invalid sequence'') (\<lambda>_.
     bindE (getitem event ''kind'') (\<lambda>kind.
     bindE (require (is_lit kind ''init'' = (i = 0)) ''Unexpected init'') (\<lambda>_.
     bindE (require (is_lit kind ''end'' = (i = int n - 1)) ''Unexpected end'') (\<lambda>_.
     bindE (in_set kind (EVENTS @ READ_EVENTS)) (\<lambda>known.
     bindE (require (known \<and> \<not> is_lit kind ''restart'') ''Unsupported event'') (\<lambda>_.
     Inr kind))))))))"

text \<open>\<dots> the three read states, the messages and the value, \<dots>\<close>

definition read_event_states :: "pyval \<Rightarrow> pyval list res" where
  "read_event_states event =
     bindE (getitem event ''reads'') (\<lambda>reads.
     bindE (require (case reads of PList xs \<Rightarrow> length xs = 3 | _ \<Rightarrow> False) ''Expected three read states'') (\<lambda>_.
     mapE read_state (the_list reads)))"

definition read_event_input :: "pyval \<Rightarrow> pyval \<Rightarrow> unit res" where
  "read_event_input event kind =
     bindE (check_bag event ''pending'') (\<lambda>_.
     bindE (check_bag event ''network'') (\<lambda>_.
     bindE (getitem event ''input'') (\<lambda>inp.
     bindE (if inp \<noteq> PNone then packet inp else Inr PNone) (\<lambda>_.
     bindE (getitem event ''value'') (check_value kind)))))"

text \<open>\<dots> and the consensus projection.\<close>

definition load_read_event :: "nat \<Rightarrow> int \<times> pyval \<Rightarrow> unit res" where
  "load_read_event n ie = (case ie of (i, event) \<Rightarrow>
     bindE (read_event_kind n i event) (\<lambda>kind.
     bindE (read_event_states event) (\<lambda>_.
     bindE (read_event_input event kind) (\<lambda>_.
     bindE (project event) (\<lambda>projected.
     bindE (observation projected) (\<lambda>_. Inr ()))))))"

definition load_read_rows :: "pyval list \<Rightarrow> pyval list res" where
  "load_read_rows rows =
     bindE (require (4 \<le> length rows \<and> length rows \<le> 1002) ''Unsupported event count'') (\<lambda>_.
     bindE (require (key (hd rows) = key READ_HEADER) ''Unsupported read trace header'') (\<lambda>_.
     bindE (require (key (last rows) = key (terminal_row (length rows - 2))) ''Invalid terminal'') (\<lambda>_.
     let events = butlast (tl rows) in
     bindE (andE (kind_is ''init'' (hd events)) (kind_is ''end'' (last events))) (\<lambda>ends.
     bindE (require ends ''Missing init/end'') (\<lambda>_.
     bindE (mapE (load_read_event (length events)) (enum_from 0 events)) (\<lambda>_.
     bindE (andE (any_kind ''read'' events) (any_kind ''complete_reads'' events)) (\<lambda>live.
     bindE (require live ''Vacuous read trace'') (\<lambda>_.
     Inr events))))))))"

definition load_read :: "(nat list \<Rightarrow> pyval res) \<Rightarrow> nat list \<Rightarrow> pyval list res" where
  "load_read loads data =
     bindE (require (0 < length data \<and> length data \<le> 16000000 \<and> last data = 10)
              ''Empty, oversized or truncated trace'') (\<lambda>_.
     bindE (mapE loads (splitlines data)) load_read_rows)"

section \<open>Steps of the read model\<close>

definition hex_entry :: "pyval \<Rightarrow> pyval res" where
  "hex_entry x =
     bindE (update_item ''data'' (\<lambda>v. bindE (payload v) (\<lambda>h. Inr (PStr h))) x)
       (update_item ''context'' (\<lambda>v. bindE (payload v) (\<lambda>h. Inr (PStr h))))"

definition environment :: "pyval \<Rightarrow> pyval res" where
  "environment states =
     update_each (\<lambda>state.
       bindE (update_item ''log'' (update_each hex_entry) state)
         (update_item ''durable_log'' (update_each hex_entry))) states"

text \<open>\<open>int(event["value"])\<close> on the values \<open>load\<close> admits for an \<open>apply\<close> event.\<close>

definition apply_target :: "pyval \<Rightarrow> int res" where
  "apply_target value = (case value of
      PStr s \<Rightarrow> if s \<in> set apply_targets then Inr (int (undec s)) else Inl (ValueError ''invalid literal for int()'')
    | _ \<Rightarrow> Inl TypeError)"

text \<open>\<open>[p for m in bag if (p := packet(m)) is not None]\<close>.\<close>

definition packets :: "pyval \<Rightarrow> string \<Rightarrow> pyval res" where
  "packets event field =
     bindE (bindE (getitem event field) iterate) (\<lambda>ms.
     bindE (mapE packet ms) (\<lambda>ps. Inr (PList (filter (\<lambda>p. p \<noteq> PNone) ps))))"

definition read_step :: "pyval \<Rightarrow> pyval \<Rightarrow> pyval res" where
  "read_step previous event =
     bindE (getitem event ''kind'') (\<lambda>kind.
     bindE (getitem event ''node'') (\<lambda>node.
     bindE (getitem event ''input'') (\<lambda>inp.
     bindE (if inp \<noteq> PNone then packet inp else Inr PNone) (\<lambda>pkt.
     bindE (getitem event ''value'') (\<lambda>value.
     bindE (if is_lit kind ''read'' then read_context value else Inr []) (\<lambda>ctx.
     bindE (if is_lit kind ''propose'' then payload value else Inr []) (\<lambda>command.
     bindE (bindE (getitem event ''proposal_context'') payload) (\<lambda>command_context.
     bindE (if is_lit kind ''apply'' then apply_target value else Inr 0) (\<lambda>target.
     bindE (bindE (getitem previous ''states'') environment) (\<lambda>before.
     bindE (bindE (getitem event ''states'') environment) (\<lambda>after.
     bindE (bindE (bindE (getitem event ''reads'') iterate) (mapE read_state)) (\<lambda>reads.
     bindE (packets event ''pending'') (\<lambda>pending.
     bindE (packets event ''network'') (\<lambda>network.
     Inr (mkdict [(''kind'', kind), (''node'', node), (''has_packet'', PBool (pkt \<noteq> PNone)),
       (''context'', PStr ctx), (''command'', PStr command), (''command_context'', PStr command_context),
       (''target'', PInt target), (''packet'', if pkt \<noteq> PNone then pkt else S ''''),
       (''before'', before), (''after'', after), (''reads'', PList reads), (''pending'', pending), (''network'', network)])))))))))))))))"

text \<open>\<open>instructions\<close>: the event before the first one is the first one itself.\<close>

definition read_instructions :: "pyval list \<Rightarrow> pyval list res" where
  "read_instructions events = mapE (\<lambda>(previous, event). read_step previous event) (zip (hd events # events) events)"

definition write_read_rows :: "pyval list \<Rightarrow> pyval list res" where
  "write_read_rows events =
     bindE (renumber events) (\<lambda>events. Inr (READ_HEADER # events @ [terminal_row (length events)]))"

definition write_read_events :: "pyval list \<Rightarrow> pstr res" where
  "write_read_events events =
     bindE (write_read_rows events) (\<lambda>rows. Inr (concat (map (\<lambda>row. dumps False row @ [10]) rows)))"

section \<open>validate\<close>

definition read_cfg :: pstr where
  "read_cfg = lit ''SPECIFICATION TraceSpec'' @ [10] @ lit ''INVARIANT ReadBarrierInv'' @ [10]
     @ lit ''CHECK_DEADLOCK TRUE'' @ [10]"

definition conclude_read :: "tlc_run \<Rightarrow> nat \<Rightarrow> unit res" where
  "conclude_read run n =
     (if completed (tlc_returncode run) (tlc_text run) n then Inr ()
      else if tlc_returncode run = 11 \<and> contains (lit ''Error: Deadlock reached.'') (tlc_text run)
        \<or> tlc_returncode run = 12 \<and> contains (lit ''Error: Invariant ReadBarrierInv is violated.'') (tlc_text run)
      then Inl (ConformanceError ''Read conformance rejected'')
      else Inl (RuntimeError ''Incomplete or failed read TLC run''))"

text \<open>
  \<open>validate\<close>, with a TLC for each of the three models: the consensus adapter, the read model and
  the register history.
\<close>

definition validate_read ::
  "(nat \<Rightarrow> bool) \<Rightarrow> (nat list \<Rightarrow> pyval res) \<Rightarrow> pstr res
   \<Rightarrow> (pstr \<Rightarrow> pstr \<Rightarrow> pstr \<Rightarrow> tlc_run option) \<Rightarrow> (pstr \<Rightarrow> pstr \<Rightarrow> pstr \<Rightarrow> tlc_run option)
   \<Rightarrow> (pstr \<Rightarrow> pstr \<Rightarrow> pstr \<Rightarrow> tlc_run option) \<Rightarrow> nat list \<Rightarrow> unit res" where
  "validate_read uword loads classpath tlc_trace tlc_read tlc_history data =
     bindE (load_read loads data) (\<lambda>events.
     bindE classpath (\<lambda>cp.
     bindE (mapE project events) (\<lambda>projected.
     bindE (write_events projected) (\<lambda>consensus.
     bindE (validate loads classpath tlc_trace consensus) (\<lambda>_.
     bindE (read_instructions events) (\<lambda>steps.
     case tlc_read cp (steps_ndjson steps) read_cfg of
       None \<Rightarrow> Inl (RuntimeError ''Read TLC timeout, NOT a pass'')
     | Some run \<Rightarrow>
         bindE (conclude_read run (length steps)) (\<lambda>_.
         bindE (extract_history events) (\<lambda>history.
         bindE (check_history uword loads classpath tlc_history (PList history)) (\<lambda>linearizable.
         if linearizable then Inr () else Inl (ConformanceError ''Register history is not linearizable''))))))))))"

end
