(* ===== verification/Read_Trace_Facts.thy ===== *)
theory Read_Trace_Facts
  imports Read_Trace_Check
begin

text \<open>
  What a loaded read trace is, and how the parts of read_trace_check.py fit together: the consensus
  projection is a consensus trace, the register history is well-formed, and a passed validation
  means that the history is linearizable.
\<close>

section \<open>Changing dicts\<close>

lemma getitem_setitem: "setitem k v obj = Inr obj' \<Longrightarrow> getitem obj' k' = (if k' = k then Inr v else getitem obj k')"
  by (cases obj) (auto simp: setitem_def getitem_def map_of_dict_set)

lemma getitem_delitem: "delitem k obj = Inr obj' \<Longrightarrow> k' \<noteq> k \<Longrightarrow> getitem obj' k' = getitem obj k'"
  by (cases obj) (auto simp: delitem_def getitem_def map_of_dict_del split: if_splits)

lemma update_item_eq_Inr:
  "update_item k f obj = Inr obj' \<longleftrightarrow> (\<exists>v v'. getitem obj k = Inr v \<and> f v = Inr v' \<and> setitem k v' obj = Inr obj')"
  by (auto simp: update_item_def bindE_eq_Inr)

lemma getitem_update_item: "update_item k f obj = Inr obj' \<Longrightarrow> k' \<noteq> k \<Longrightarrow> getitem obj' k' = getitem obj k'"
  by (auto simp: update_item_eq_Inr getitem_setitem)

lemma py_in_getitem: "getitem obj k = Inr v \<Longrightarrow> py_in k obj = Inr True"
  by (cases obj) (auto simp: getitem_def py_in_def has_key_def split: option.splits)

section \<open>The projection\<close>

definition projected_kind :: "string \<Rightarrow> string" where
  "projected_kind k = (if k = ''read'' then ''beat'' else if k \<in> set READ_EVENTS then ''ready'' else k)"

lemma project_getitem:
  assumes "project e = Inr p"
  shows "k \<notin> {''reads'', ''kind'', ''value'', ''pending'', ''network'', ''input''} \<Longrightarrow> getitem p k = getitem e k"
    and "getitem e ''kind'' = Inr (S kind) \<Longrightarrow> getitem p ''kind'' = Inr (S (projected_kind kind))"
    and "getitem e ''kind'' = Inr (S kind) \<Longrightarrow> kind \<notin> set READ_EVENTS \<Longrightarrow> getitem p ''value'' = getitem e ''value''"
proof -
  obtain r1 k0 reading r2 r3 r4 where r: "delitem ''reads'' e = Inr r1" "getitem e ''kind'' = Inr k0"
      "in_set k0 READ_EVENTS = Inr reading"
      "(if reading then bindE (setitem ''kind'' (if is_lit k0 ''read'' then S ''beat'' else S ''ready'') r1) (setitem ''value'' (S ''''))
        else Inr r1) = Inr r2"
      "update_item ''pending'' (update_each (delitem ''context'')) r2 = Inr r3"
      "update_item ''network'' (update_each (delitem ''context'')) r3 = Inr r4"
      "update_item ''input'' (\<lambda>inp. if inp \<noteq> PNone then delitem ''context'' inp else Inr inp) r4 = Inr p"
    using assms by (auto simp: project_def bindE_eq_Inr)
  have later: "getitem p k = getitem r2 k" if "k \<notin> {''pending'', ''network'', ''input''}" for k
    using that getitem_update_item [OF r(5)] getitem_update_item [OF r(6)] getitem_update_item [OF r(7)] by simp
  have r2: "getitem r2 k = (if k = ''kind'' \<and> reading then Inr (if is_lit k0 ''read'' then S ''beat'' else S ''ready'')
      else if k = ''value'' \<and> reading then Inr (S '''') else getitem r1 k)" for k
    using r(4) by (auto simp: bindE_eq_Inr getitem_setitem split: if_splits)
  have r1: "getitem r1 k = getitem e k" if "k \<noteq> ''reads''" for k using getitem_delitem [OF r(1)] that .
  show "k \<notin> {''reads'', ''kind'', ''value'', ''pending'', ''network'', ''input''} \<Longrightarrow> getitem p k = getitem e k"
    using later r2 r1 by simp
  have reading: "reading \<longleftrightarrow> kind \<in> set READ_EVENTS" if "getitem e ''kind'' = Inr (S kind)"
    using r(2,3) that by (auto simp: in_set_eq_Inr in_tuple_S)
  show "getitem e ''kind'' = Inr (S kind) \<Longrightarrow> getitem p ''kind'' = Inr (S (projected_kind kind))"
    using later [of "''kind''"] r2 [of "''kind''"] r1 [of "''kind''"] reading r(2)
    by (auto simp: projected_kind_def READ_EVENTS_def)
  show "getitem e ''kind'' = Inr (S kind) \<Longrightarrow> kind \<notin> set READ_EVENTS \<Longrightarrow> getitem p ''value'' = getitem e ''value''"
    using later r2 r1 reading by simp
qed

section \<open>What load accepts\<close>

definition read_event_fields :: "string list" where
  "read_event_fields =
     [''kind'', ''seq'', ''node'', ''input'', ''value'', ''states'', ''pending'', ''network'', ''reads'', ''proposal_context'']"

definition read_event_ok :: "nat \<Rightarrow> nat \<Rightarrow> pyval \<Rightarrow> bool" where
  "read_event_ok n i e \<longleftrightarrow>
     Py_Values.fields e read_event_fields = Inr () \<and> getitem e ''seq'' = Inr (PInt (int i))
     \<and> (\<exists>k. getitem e ''kind'' = Inr (S k) \<and> k \<in> set (EVENTS @ READ_EVENTS) - {''restart''}
          \<and> (k = ''init'' \<longleftrightarrow> i = 0) \<and> (k = ''end'' \<longleftrightarrow> Suc i = n) \<and> read_event_input e (S k) = Inr ())
     \<and> (\<exists>reads sts. getitem e ''reads'' = Inr (PList reads) \<and> length reads = 3 \<and> mapE read_state reads = Inr sts)
     \<and> (\<exists>p out. project e = Inr p \<and> observation p = Inr out)"

lemma read_event_kind_eq_Inr:
  "read_event_kind n (int i) e = Inr kind \<longleftrightarrow>
     Py_Values.fields e read_event_fields = Inr () \<and> getitem e ''seq'' = Inr (PInt (int i))
     \<and> (\<exists>k. kind = S k \<and> getitem e ''kind'' = Inr (S k) \<and> k \<in> set (EVENTS @ READ_EVENTS) - {''restart''}
          \<and> (k = ''init'' \<longleftrightarrow> i = 0) \<and> (k = ''end'' \<longleftrightarrow> Suc i = n))"
proof -
  have n: "int i = int n - 1 \<longleftrightarrow> Suc i = n" by linarith
  have kinds: "in_set kind (EVENTS @ READ_EVENTS) = Inr True \<longleftrightarrow> (\<exists>k \<in> set (EVENTS @ READ_EVENTS). kind = S k)" for kind
    by (auto simp: in_set_eq_Inr in_tuple_S)
  have step: "read_event_kind n (int i) e = Inr kind \<longleftrightarrow>
      Py_Values.fields e read_event_fields = Inr () \<and> getitem e ''seq'' = Inr (PInt (int i))
      \<and> getitem e ''kind'' = Inr kind \<and> is_lit kind ''init'' = (i = 0) \<and> is_lit kind ''end'' = (Suc i = n)
      \<and> in_set kind (EVENTS @ READ_EVENTS) = Inr True \<and> \<not> is_lit kind ''restart''"
    unfolding read_event_kind_def read_event_fields_def [symmetric]
    by (simp add: bindE_eq_Inr require_eq_Inr n) (metis (full_types))
  show ?thesis
  proof (cases "\<exists>k \<in> set (EVENTS @ READ_EVENTS). kind = S k")
    case True
    then obtain k where "kind = S k" "k \<in> set (EVENTS @ READ_EVENTS)" by blast
    then show ?thesis unfolding step kinds by (simp del: set_append) blast
  next
    case False
    then show ?thesis unfolding step kinds by blast
  qed
qed

lemma read_event_states_eq_Inr:
  "read_event_states e = Inr sts \<longleftrightarrow>
     (\<exists>reads. getitem e ''reads'' = Inr (PList reads) \<and> length reads = 3 \<and> mapE read_state reads = Inr sts)"
  by (auto simp: read_event_states_def bindE_eq_Inr require_eq_Inr list_guard)

lemma load_read_event_eq_Inr: "load_read_event n (int i, e) = Inr u \<longleftrightarrow> read_event_ok n i e"
  unfolding load_read_event_def read_event_ok_def prod.case
  by (simp add: bindE_eq_Inr read_event_kind_eq_Inr read_event_states_eq_Inr del: set_append) blast

definition read_trace_ok :: "pyval list \<Rightarrow> bool" where
  "read_trace_ok events \<longleftrightarrow> 2 \<le> length events \<and> length events \<le> 1000
     \<and> (\<forall>i < length events. read_event_ok (length events) i (events ! i))
     \<and> (\<exists>e \<in> set events. kind_is ''read'' e = Inr True) \<and> (\<exists>e \<in> set events. kind_is ''complete_reads'' e = Inr True)"

lemma read_event_okE:
  assumes "read_event_ok n i e"
  obtains k p out where "Py_Values.fields e read_event_fields = Inr ()" and "getitem e ''seq'' = Inr (PInt (int i))"
    and "getitem e ''kind'' = Inr (S k)" and "k = ''init'' \<longleftrightarrow> i = 0" and "k = ''end'' \<longleftrightarrow> Suc i = n"
    and "project e = Inr p" and "observation p = Inr out"
  using assms unfolding read_event_ok_def by blast

lemma read_events:
  "(\<exists>us. mapE (load_read_event n) (enum_from 0 events) = Inr us) \<longleftrightarrow>
     (\<forall>i < length events. read_event_ok n i (events ! i))"
proof -
  have "set (enum_from 0 events) = {(int i, events ! i) |i. i < length events}"
    by (auto simp: set_conv_nth nth_enum_from) (metis add_0 nth_enum_from)
  then show ?thesis unfolding mapE_ex_Inr using load_read_event_eq_Inr by fastforce
qed

lemma read_event_kind_is:
  assumes "read_event_ok n i e"
  shows "kind_is s e = Inr (item e ''kind'' = S s)" and "kind_is ''init'' e = Inr (i = 0)" and "kind_is ''end'' e = Inr (Suc i = n)"
proof -
  obtain k where k: "getitem e ''kind'' = Inr (S k)" "k = ''init'' \<longleftrightarrow> i = 0" "k = ''end'' \<longleftrightarrow> Suc i = n"
    using assms unfolding read_event_ok_def by blast
  show "kind_is s e = Inr (item e ''kind'' = S s)" "kind_is ''init'' e = Inr (i = 0)" "kind_is ''end'' e = Inr (Suc i = n)"
    unfolding kind_is_eq_Inr item_def k(1) using k(2,3) by simp_all
qed

lemma load_read_rows_split:
  "load_read_rows (header # mid @ [terminal]) = Inr events \<longleftrightarrow> events = mid
     \<and> key header = key READ_HEADER \<and> key terminal = key (terminal_row (length mid)) \<and> read_trace_ok mid"
    (is "?lhs \<longleftrightarrow> ?rhs")
proof -
  let ?events_ok = "\<forall>i < length mid. read_event_ok (length mid) i (mid ! i)"
  have kinds: "\<exists>k. getitem e ''kind'' = Inr k" if "?events_ok" "e \<in> set mid" for e
    using that by (auto simp: in_set_conv_nth read_event_ok_def)
  have ends: "andE (kind_is ''init'' (hd mid)) (kind_is ''end'' (last mid)) = Inr True"
    if ok: "?events_ok" and len: "2 \<le> length mid"
  proof -
    have "read_event_ok (length mid) 0 (mid ! 0)" "read_event_ok (length mid) (length mid - 1) (mid ! (length mid - 1))"
      using ok [rule_format, of 0] ok [rule_format, of "length mid - 1"] len by fastforce+
    moreover have "hd mid = mid ! 0" "last mid = mid ! (length mid - 1)" using len by (cases mid; simp add: last_conv_nth)+
    ultimately show ?thesis using len read_event_kind_is(2,3) by (simp add: andE_def)
  qed
  have live: "andE (any_kind ''read'' mid) (any_kind ''complete_reads'' mid) = Inr b \<longleftrightarrow>
      b = ((\<exists>e \<in> set mid. kind_is ''read'' e = Inr True) \<and> (\<exists>e \<in> set mid. kind_is ''complete_reads'' e = Inr True))"
    if "?events_ok" for b
    using any_kind_eq_Inr [OF kinds [OF that]] by (auto simp: andE_def)
  have "?lhs \<longleftrightarrow> 4 \<le> length mid + 2 \<and> length mid + 2 \<le> 1002 \<and> key header = key READ_HEADER
      \<and> key terminal = key (terminal_row (length mid))
      \<and> andE (kind_is ''init'' (hd mid)) (kind_is ''end'' (last mid)) = Inr True
      \<and> (\<exists>us. mapE (load_read_event (length mid)) (enum_from 0 mid) = Inr us)
      \<and> andE (any_kind ''read'' mid) (any_kind ''complete_reads'' mid) = Inr True \<and> events = mid"
    by (auto simp: load_read_rows_def Let_def bindE_eq_Inr require_eq_Inr butlast_append)
  also have "\<dots> \<longleftrightarrow> 2 \<le> length mid \<and> length mid \<le> 1000 \<and> key header = key READ_HEADER
      \<and> key terminal = key (terminal_row (length mid))
      \<and> ?events_ok \<and> andE (any_kind ''read'' mid) (any_kind ''complete_reads'' mid) = Inr True \<and> events = mid"
    unfolding read_events using ends by auto
  also have "\<dots> \<longleftrightarrow> ?rhs"
    using live [of True] by (auto simp: read_trace_ok_def)
  finally show ?thesis .
qed

lemma load_read_rows_eq_Inr:
  "load_read_rows rows = Inr events \<longleftrightarrow> (\<exists>header terminal. rows = header # events @ [terminal]
     \<and> key header = key READ_HEADER \<and> key terminal = key (terminal_row (length events)) \<and> read_trace_ok events)"
proof
  assume load: "load_read_rows rows = Inr events"
  then have "4 \<le> length rows" by (auto simp: load_read_rows_def bindE_eq_Inr require_eq_Inr)
  then obtain header mid terminal where rows: "rows = header # mid @ [terminal]" by (rule bracketed_rows)
  show "\<exists>header terminal. rows = header # events @ [terminal]
     \<and> key header = key READ_HEADER \<and> key terminal = key (terminal_row (length events)) \<and> read_trace_ok events"
    using load unfolding rows load_read_rows_split by blast
next
  assume "\<exists>header terminal. rows = header # events @ [terminal]
     \<and> key header = key READ_HEADER \<and> key terminal = key (terminal_row (length events)) \<and> read_trace_ok events"
  then show "load_read_rows rows = Inr events" using load_read_rows_split by blast
qed

section \<open>The consensus projection of a loaded trace\<close>

text \<open>Only read events change their kind, to kinds the consensus checker does not look for.\<close>

lemma projected_kind_eq: "s \<in> {''init'', ''end'', ''campaign'', ''propose''} \<Longrightarrow> projected_kind k = s \<longleftrightarrow> k = s"
  by (auto simp: projected_kind_def READ_EVENTS_def)

lemma projected_event:
  assumes "read_event_ok n i e" and "project e = Inr p"
  shows "load_event_ok True n i p"
    and "s \<in> {''campaign'', ''propose''} \<Longrightarrow> kind_is s p = kind_is s e"
proof -
  obtain k p' out where k: "getitem e ''kind'' = Inr (S k)" "k = ''init'' \<longleftrightarrow> i = 0" "k = ''end'' \<longleftrightarrow> Suc i = n"
    and flds: "Py_Values.fields e read_event_fields = Inr ()" and seq: "getitem e ''seq'' = Inr (PInt (int i))"
    and obs: "project e = Inr p'" "observation p' = Inr out"
    using assms(1) by (rule read_event_okE)
  have kind: "kind_is s p = Inr (k = s)" if "s \<in> {''init'', ''end'', ''campaign'', ''propose''}" for s
    unfolding kind_is_def project_getitem(2) [OF assms(2) k(1)] using projected_kind_eq [OF that] by simp
  obtain c where "getitem e ''proposal_context'' = Inr c"
    using fields_getitem [OF flds, of "''proposal_context''"] by (auto simp: read_event_fields_def)
  then have "py_in ''proposal_context'' p = Inr True"
    using project_getitem(1) [OF assms(2), of "''proposal_context''"] by (auto intro: py_in_getitem)
  moreover have "getitem p ''seq'' = Inr (PInt (int i))"
    using project_getitem(1) [OF assms(2), of "''seq''"] seq by simp
  moreover have "\<exists>out. observation p = Inr out"
    using assms(2) obs by simp
  ultimately show "load_event_ok True n i p" using kind k(2,3) by (simp add: load_event_ok_def)
  show "s \<in> {''campaign'', ''propose''} \<Longrightarrow> kind_is s p = kind_is s e"
    using kind [of s] k(1) by (auto simp: kind_is_def)
qed

definition has_kind :: "string \<Rightarrow> pyval list \<Rightarrow> bool" where
  "has_kind s events \<longleftrightarrow> (\<exists>e \<in> set events. kind_is s e = Inr True)"

lemma projected_trace:
  assumes "read_trace_ok events"
  obtains projected where "mapE project events = Inr projected" and "length projected = length events"
    and "trace_ok True projected \<longleftrightarrow> has_kind ''campaign'' events \<and> has_kind ''propose'' events"
    and "\<forall>i < length projected. load_event_ok True (length projected) i (projected ! i)"
proof -
  have ok: "read_event_ok (length events) i (events ! i)" if "i < length events" for i
    using assms that by (simp add: read_trace_ok_def)
  have "\<forall>e \<in> set events. \<exists>p. project e = Inr p"
  proof
    fix e assume "e \<in> set events"
    then obtain i where "read_event_ok (length events) i e" using ok unfolding in_set_conv_nth by blast
    then show "\<exists>p. project e = Inr p" by (elim read_event_okE) blast
  qed
  then obtain projected where projected: "mapE project events = Inr projected" using mapE_ex_Inr by metis
  note len = mapE_length [OF projected] and nth = mapE_nth [OF projected]
  have each: "load_event_ok True (length projected) i (projected ! i)" if "i < length projected" for i
    using projected_event(1) [OF ok nth] that len by simp
  have kinds: "has_kind s projected \<longleftrightarrow> has_kind s events" if "s \<in> {''campaign'', ''propose''}" for s
    using projected_event(2) [OF ok nth that] len by (auto simp: has_kind_def in_set_conv_nth Bex_def)
  have "trace_ok True projected \<longleftrightarrow> has_kind ''campaign'' events \<and> has_kind ''propose'' events"
    using assms each len kinds [of "''campaign''"] kinds [of "''propose''"]
    by (simp add: trace_ok_def read_trace_ok_def has_kind_def)
  with projected len each show thesis by (intro that) auto
qed

section \<open>The register history of a loaded trace\<close>

lemma read_trace_numbered: "read_trace_ok events \<Longrightarrow> numbered events \<and> length events \<le> 1000"
  by (auto simp: read_trace_ok_def numbered_def elim: read_event_okE)

lemma read_trace_proposes:
  assumes "read_trace_ok events"
  shows "list_all proposes_value events"
proof -
  have "proposes_value e" if "e \<in> set events" for e
  proof -
    obtain i where "read_event_ok (length events) i e"
      using assms \<open>e \<in> set events\<close> by (auto simp: read_trace_ok_def in_set_conv_nth)
    then obtain k p out where k: "getitem e ''kind'' = Inr (S k)" and p: "project e = Inr p" "observation p = Inr out"
      by (rule read_event_okE)
    have "getitem e ''value'' \<noteq> Inr (PStr [])" if propose: "k = ''propose''"
    proof -
      have "getitem p ''value'' = getitem e ''value''"
        using project_getitem(3) [OF p(1) k] propose by (simp add: READ_EVENTS_def)
      moreover have "getitem p ''kind'' = Inr (S ''propose'')"
        using project_getitem(2) [OF p(1) k] propose by (simp add: projected_kind_def READ_EVENTS_def)
      ultimately show ?thesis
        using p(2) by (auto simp: observation_eq_Inr observe_node_eq_Inr observe_value_eq_Inr payload_empty)
    qed
    with k show ?thesis by (auto simp: proposes_value_def item_def)
  qed
  then show ?thesis by (simp add: list_all_iff)
qed

section \<open>The steps of a loaded trace\<close>

text \<open>The logs of a validated state have payloads in every entry, so they can be translated.\<close>

lemma hex_entry_ok:
  assumes "entry_of x i t data ctx"
  shows "\<exists>x'. hex_entry x = Inr x'"
proof -
  obtain d c where g: "getitem x ''data'' = Inr d" "payload d = Inr data" "getitem x ''context'' = Inr c" "payload c = Inr ctx"
    using assms by (auto simp: entry_of_def bindE_eq_Inr)
  obtain kvs where x: "x = PDict kvs" using g(1) by (auto simp: getitem_eq_Inr)
  have "update_item ''data'' (\<lambda>v. bindE (payload v) (\<lambda>h. Inr (PStr h))) x = setitem ''data'' (PStr data) x"
    by (simp add: update_item_def g)
  moreover obtain x1 where x1: "setitem ''data'' (PStr data) x = Inr x1" "x1 = PDict (dict_set (lit ''data'') (PStr data) kvs)"
    by (simp add: x setitem_def)
  moreover have "getitem x1 ''context'' = Inr c" using getitem_setitem [OF x1(1)] g(3) by simp
  ultimately show ?thesis using g(4) x1(2) by (simp add: hex_entry_def update_item_def setitem_def)
qed

lemma hex_log_ok:
  assumes "log_entries es start = Inr out"
  shows "\<exists>es'. update_each hex_entry es = Inr es'"
proof -
  obtain xs where xs: "es = PList xs" using assms by (auto simp: log_entries_eq_Inr)
  have "\<exists>x'. hex_entry x = Inr x'" if "x \<in> set xs" for x
    using assms that hex_entry_ok unfolding log_entries_eq_Inr xs in_set_conv_nth by blast
  then obtain ys where "mapE hex_entry xs = Inr ys" using mapE_ex_Inr by metis
  then show ?thesis by (simp add: xs update_each_def)
qed

lemma update_item_ok:
  assumes "getitem obj k = Inr v" and "\<exists>v'. f v = Inr v'"
  shows "\<exists>obj'. update_item k f obj = Inr obj'"
proof -
  obtain kvs v' where "obj = PDict kvs" and v': "f v = Inr v'" using assms by (auto simp: getitem_eq_Inr)
  then have "setitem k v' obj = Inr (PDict (dict_set (lit k) v' kvs))" by (simp add: setitem_def)
  then show ?thesis unfolding update_item_def assms(1) bindE_simps v' by blast
qed

lemma environment_ok:
  assumes "getitem e ''states'' = Inr ss" and "observe_states e = Inr sts"
  shows "\<exists>env. environment ss = Inr env"
proof -
  obtain xs where xs: "ss = PList xs" "mapE node_state xs = Inr sts"
    using assms by (auto simp: observe_states_eq_Inr)
  let ?f = "\<lambda>state. bindE (update_item ''log'' (update_each hex_entry) state) (update_item ''durable_log'' (update_each hex_entry))"
  have "\<exists>s'. ?f s = Inr s'" if s: "s \<in> set xs" for s
  proof -
    obtain out where "node_state s = Inr out" using xs(2) s mapE_ex_Inr by metis
    then obtain l dl es des where l: "getitem s ''log'' = Inr l" "log_entries l 1 = Inr es"
        "getitem s ''durable_log'' = Inr dl" "log_entries dl 1 = Inr des"
      by (auto simp: node_state_def bindE_eq_Inr)
    obtain s1 where s1: "update_item ''log'' (update_each hex_entry) s = Inr s1"
      using update_item_ok [where f = "update_each hex_entry", OF l(1) hex_log_ok [OF l(2)]] by blast
    have "getitem s1 ''durable_log'' = Inr dl" using getitem_update_item [OF s1] l(3) by simp
    from update_item_ok [where f = "update_each hex_entry", OF this hex_log_ok [OF l(4)]] s1 show ?thesis by simp
  qed
  then have "\<exists>ys. mapE ?f xs = Inr ys" unfolding mapE_ex_Inr by blast
  then obtain ys where "mapE ?f xs = Inr ys" ..
  then show ?thesis by (simp add: environment_def update_each_def xs(1))
qed

lemma packets_ok: "check_bag e k = Inr u \<Longrightarrow> \<exists>ps. packets e k = Inr ps"
  by (auto simp: check_bag_def observe_bag_eq_Inr bindE_eq_Inr packets_def iterate_def)

lemma apply_target_ok: "check_value (S ''apply'') v = Inr u \<Longrightarrow> \<exists>t. apply_target v = Inr t"
  by (auto simp: check_value_def apply_target_def require_eq_Inr str_guard)

lemma read_event_observed:
  assumes "read_event_ok n i e"
  obtains ss env where "getitem e ''states'' = Inr ss" and "environment ss = Inr env"
proof -
  obtain k p out where p: "project e = Inr p" "observation p = Inr out"
    using assms by (rule read_event_okE)
  obtain sts where sts: "observe_states p = Inr sts" using p(2) by (auto simp: observation_eq_Inr)
  then obtain ss where ss: "getitem p ''states'' = Inr ss" by (auto simp: observe_states_eq_Inr)
  have "getitem e ''states'' = Inr ss" using project_getitem(1) [OF p(1), of "''states''"] ss by simp
  with environment_ok [OF ss sts] that show thesis by blast
qed

lemma read_step_ok:
  assumes "read_event_ok n i e" and "read_event_ok n j previous"
  shows "\<exists>step. read_step previous e = Inr step"
proof -
  obtain k p out where flds: "Py_Values.fields e read_event_fields = Inr ()" and p: "project e = Inr p" "observation p = Inr out"
    and kind: "getitem e ''kind'' = Inr (S k)"
    using assms(1) by (rule read_event_okE)
  obtain reads sts where input: "read_event_input e (S k) = Inr ()"
    and reads: "getitem e ''reads'' = Inr (PList reads)" "mapE read_state reads = Inr sts"
    using assms(1) unfolding read_event_ok_def kind by auto
  obtain inp v where inp: "getitem e ''input'' = Inr inp" "\<exists>pkt. (if inp \<noteq> PNone then packet inp else Inr PNone) = Inr pkt"
    and v: "getitem e ''value'' = Inr v" "check_value (S k) v = Inr ()"
    and bags: "check_bag e ''pending'' = Inr ()" "check_bag e ''network'' = Inr ()"
    using input unfolding read_event_input_def bindE_eq_Inr by (auto split del: if_split)
  obtain node where node: "getitem e ''node'' = Inr node" using fields_getitem [OF flds, of "''node''"] by (auto simp: read_event_fields_def)
  obtain pc h where pc: "getitem e ''proposal_context'' = Inr pc" "payload pc = Inr h"
  proof -
    obtain pc where pc: "getitem e ''proposal_context'' = Inr pc"
      using fields_getitem [OF flds, of "''proposal_context''"] by (auto simp: read_event_fields_def)
    then have "getitem p ''proposal_context'' = Inr pc" using project_getitem(1) [OF p(1), of "''proposal_context''"] by simp
    then have "\<exists>h. payload pc = Inr h"
      using p(2) py_in_getitem by (fastforce simp: observation_eq_Inr observe_context_eq_Inr)
    with pc that show thesis by blast
  qed
  have command: "\<exists>h. payload v = Inr h" if propose: "k = ''propose''"
  proof -
    have "getitem p ''value'' = Inr v" using project_getitem(3) [OF p(1) kind] propose v(1) by (simp add: READ_EVENTS_def)
    then show ?thesis using p(2) by (auto simp: observation_eq_Inr observe_value_eq_Inr)
  qed
  have ctx: "\<exists>h. read_context v = Inr h" if "k = ''read''"
    using v(2) that by (auto simp: check_value_def bindE_eq_Inr)
  have target: "\<exists>t. apply_target v = Inr t" if "k = ''apply''" using apply_target_ok v(2) that by blast
  obtain ss env where ss: "getitem e ''states'' = Inr ss" "environment ss = Inr env" using read_event_observed [OF assms(1)] .
  obtain ss' env' where ss': "getitem previous ''states'' = Inr ss'" "environment ss' = Inr env'"
    using read_event_observed [OF assms(2)] .
  obtain ps ns where "packets e ''pending'' = Inr ps" "packets e ''network'' = Inr ns" using packets_ok bags by metis
  moreover obtain pkt where "(if inp \<noteq> PNone then packet inp else Inr PNone) = Inr pkt" using inp(2) by blast
  moreover obtain c where "(if is_lit (S k) ''read'' then read_context v else Inr []) = Inr c" using ctx by fastforce
  moreover obtain cmd where "(if is_lit (S k) ''propose'' then payload v else Inr []) = Inr cmd" using command by fastforce
  moreover obtain t where "(if is_lit (S k) ''apply'' then apply_target v else Inr 0) = Inr t" using target by fastforce
  ultimately show ?thesis
    unfolding read_step_def kind node inp(1) v(1) pc(1) ss(1) ss'(1) reads(1) bindE_simps pc(2) ss(2) ss'(2)
    by (simp add: iterate_def reads(2))
qed

lemma read_instructions_ok:
  assumes "read_trace_ok events"
  shows "\<exists>steps. read_instructions events = Inr steps \<and> length steps = length events"
proof -
  have ok: "read_event_ok (length events) i (events ! i)" if "i < length events" for i
    using assms that by (simp add: read_trace_ok_def)
  have ne: "events \<noteq> []" using assms by (auto simp: read_trace_ok_def)
  have "\<exists>step. read_step previous e = Inr step" if pe: "(previous, e) \<in> set (zip (hd events # events) events)" for previous e
  proof -
    obtain i where i: "i < length events" "previous = (hd events # events) ! i" "e = events ! i"
      using pe by (auto simp: in_set_conv_nth)
    have "previous = events ! (i - 1)" using i(2) ne by (cases i) (simp_all add: hd_conv_nth)
    with read_step_ok [OF ok ok] i show ?thesis by (metis less_imp_diff_less)
  qed
  then obtain steps where "read_instructions events = Inr steps"
    unfolding read_instructions_def using mapE_ex_Inr [of "\<lambda>(previous, event). read_step previous event"] by fastforce
  moreover from this have "length steps = length events" unfolding read_instructions_def by (auto dest: mapE_length)
  ultimately show ?thesis by blast
qed

end
