(* ===== verification/Read_Mutations.thy ===== *)
theory Read_Mutations
  imports Read_Trace_Facts
begin

text \<open>
  The mutated read traces of read_trace_check.py, each of which must be rejected: \<open>negatives\<close>,
  \<open>identity_negatives\<close> and \<open>stale_negatives\<close>.  They change events of a loaded trace, so the
  node of an event that has one is 1, 2 or 3.
\<close>

section \<open>Changing a loaded event\<close>

definition list_append :: "pyval \<Rightarrow> pyval \<Rightarrow> pyval res" where
  "list_append v obj = (case obj of PList xs \<Rightarrow> Inr (PList (xs @ [v])) | _ \<Rightarrow> Inl AttributeError)"

text \<open>\<open>obj[i]\<close> and \<open>e[field][e["node"]-1]\<close>, as a value and as the place of a change.\<close>

definition list_item :: "nat \<Rightarrow> pyval \<Rightarrow> pyval res" where
  "list_item i obj = (case obj of
      PList xs \<Rightarrow> if i < length xs then Inr (xs ! i) else Inl IndexError
    | PDict kvs \<Rightarrow> Inl (KeyError ''index'')
    | _ \<Rightarrow> Inl TypeError)"

definition node_index :: "pyval \<Rightarrow> nat res" where
  "node_index e = bindE (getitem e ''node'') (\<lambda>node. Inr (nat (the_int node - 1)))"

definition own :: "string \<Rightarrow> pyval \<Rightarrow> pyval res" where
  "own field e = bindE (node_index e) (\<lambda>i. bindE (getitem e field) (list_item i))"

definition update_own :: "string \<Rightarrow> (pyval \<Rightarrow> pyval res) \<Rightarrow> pyval \<Rightarrow> pyval res" where
  "update_own field f e = bindE (node_index e) (\<lambda>i. update_item field (update_list i f) e)"

definition update_last :: "(pyval \<Rightarrow> pyval res) \<Rightarrow> pyval \<Rightarrow> pyval res" where
  "update_last f obj = (case obj of PList xs \<Rightarrow> update_list (length xs - 1) f obj | _ \<Rightarrow> update_list 0 f obj)"

definition increment :: "pyval \<Rightarrow> pyval res" where
  "increment v = (case v of PInt i \<Rightarrow> Inr (PInt (i + 1)) | _ \<Rightarrow> Inl TypeError)"

text \<open>The first event that satisfies the condition is changed.\<close>

definition update_first :: "(pyval \<Rightarrow> bool res) \<Rightarrow> (pyval \<Rightarrow> pyval res) \<Rightarrow> pyval list \<Rightarrow> pyval list res" where
  "update_first p f events = bindE (first_index p events) (\<lambda>i. update_nth i f events)"

section \<open>negatives\<close>

definition input_context :: "pyval \<Rightarrow> bool res" where
  "input_context e = andE (kind_is ''receive'' e)
     (bindE (bindE (getitem e ''input'') (\<lambda>m. getitem m ''context'')) (\<lambda>c. Inr (truthy c)))"

text \<open>A heartbeat that raises the commit index of its receiver from 0.\<close>

definition heartbeat_commit :: "pyval list \<Rightarrow> nat \<Rightarrow> bool res" where
  "heartbeat_commit events i =
     (let e = events ! i in
     andE (kind_is ''receive'' e)
       (bindE (getitem e ''input'') (\<lambda>m.
        andE (kind_is ''heartbeat'' m)
          (andE (bindE (getitem m ''commit'') (\<lambda>c. Inr (0 < the_int c)))
            (bindE (node_index e) (\<lambda>n.
             bindE (getitem (events ! (if i = 0 then length events - 1 else i - 1)) ''states'') (\<lambda>ss.
             bindE (list_item n ss) (\<lambda>s.
             bindE (getitem s ''commit'') (\<lambda>c. Inr (eq_int c 0))))))))))"

definition apply_ahead :: "pyval \<Rightarrow> pyval res" where
  "apply_ahead e =
     bindE (own ''states'' e) (\<lambda>s.
     bindE (getitem s ''commit'') (\<lambda>commit.
     bindE (setitem ''value'' (PStr (dec_int (the_int commit + 1))) e) (\<lambda>e.
     update_own ''reads'' (setitem ''applied'' (PInt (the_int commit + 1))) e)))"

definition own_truthy :: "string \<Rightarrow> string \<Rightarrow> pyval \<Rightarrow> bool res" where
  "own_truthy kind field e = andE (kind_is kind e)
     (bindE (own ''reads'' e) (\<lambda>r. bindE (getitem r field) (\<lambda>v. Inr (truthy v))))"

definition duplicate_callback :: "pyval list \<Rightarrow> pyval list res" where
  "duplicate_callback events =
     update_nth (length events - 1) (update_item ''reads'' (update_list 0 (update_item ''completed'' (\<lambda>c.
       bindE (list_item 0 c) (\<lambda>x. list_append x c))))) events"

definition read_mutate :: "string \<Rightarrow> pyval list \<Rightarrow> pyval list res" where
  "read_mutate name events =
     (if name = ''premature-ready'' then
        update_first (kind_is ''read'') (\<lambda>e. bindE (getitem e ''value'') (\<lambda>v.
          update_own ''reads'' (update_item ''ready'' (list_append (mkdict [(''context'', v), (''index'', PInt 0)]))) e)) events
      else if name = ''forged-ack'' then
        update_first (\<lambda>e. andE (kind_is ''read'' e) (bindE (getitem e ''value'') (\<lambda>v. Inr (is_lit v ''batch-first''))))
          (update_item ''reads'' (update_list 0 (update_item ''pending'' (update_list 0 (update_item ''acks'' (list_append (PInt 2))))))) events
      else if name = ''wrong-context'' then
        update_first input_context (update_item ''input'' (setitem ''context'' (S ''forged''))) events
      else if name = ''wrong-index'' then
        update_first (kind_is ''read_ready'')
          (update_own ''reads'' (update_item ''tracked'' (update_list 0 (update_item ''index'' increment)))) events
      else if name = ''early-callback'' then
        update_first (kind_is ''complete_reads'')
          (update_item ''reads'' (update_list 0 (update_item ''completed'' (list_append
            (mkdict [(''context'', S ''deferred''), (''index'', PInt 0), (''value'', S '''')]))))) events
      else if name = ''duplicate-callback'' then duplicate_callback events
      else if name = ''apply-ahead'' then update_first (kind_is ''apply'') apply_ahead events
      else if name = ''heartbeat-commit'' then
        bindE (first_index (heartbeat_commit events) [0..<length events]) (\<lambda>i.
          update_nth i (update_own ''states'' (setitem ''commit'' (PInt 0))) events)
      else if name = ''wrong-register'' then
        update_first (own_truthy ''apply'' ''value'') (update_own ''reads'' (setitem ''value'' (S ''corrupted''))) events
      else if name = ''wrong-read-value'' then
        update_first (own_truthy ''complete_reads'' ''completed'')
          (update_own ''reads'' (update_item ''completed'' (update_list 0 (setitem ''value'' (S ''corrupted''))))) events
      else
        update_first (kind_is ''propose'')
          (update_own ''reads'' (update_item ''writes'' (update_last (setitem ''completed'' (PInt 1))))) events)"

definition read_mutation_names :: "string list" where
  "read_mutation_names = [''premature-ready'', ''forged-ack'', ''wrong-context'', ''wrong-index'', ''early-callback'',
     ''duplicate-callback'', ''apply-ahead'', ''heartbeat-commit'', ''wrong-register'', ''wrong-read-value'', ''early-write-callback'']"

text \<open>
  The loop all three functions share: mutate, write, validate, and expect \<open>ConformanceError\<close>;
  \<open>validator\<close> is \<open>validate\<close> with its environment.
\<close>

definition reject_mutation :: "(nat list \<Rightarrow> unit res) \<Rightarrow> pyval list res \<Rightarrow> unit res" where
  "reject_mutation validator changed =
     bindE changed (\<lambda>events. bindE (write_read_events events) (\<lambda>t. expect_conformance (validator t)))"

definition reject_all :: "(nat list \<Rightarrow> unit res) \<Rightarrow> (string \<Rightarrow> pyval list res) \<Rightarrow> string list \<Rightarrow> unit res" where
  "reject_all validator mutation names =
     bindE (mapE (\<lambda>name. reject_mutation validator (mutation name)) names) (\<lambda>_. Inr ())"

definition read_negatives ::
  "(nat list \<Rightarrow> pyval res) \<Rightarrow> (nat list \<Rightarrow> unit res) \<Rightarrow> (pyval \<Rightarrow> bool res) \<Rightarrow> (pyval \<Rightarrow> unit res) \<Rightarrow> nat list \<Rightarrow> unit res" where
  "read_negatives loads validator checker witnesses data =
     bindE (load_read loads data) (\<lambda>events.
     bindE (reject_all validator (\<lambda>name. read_mutate name events) read_mutation_names) (\<lambda>_.
     bindE (extract_history events) (\<lambda>history.
     bindE (run_negatives checker history) (\<lambda>_.
     run_regressions checker witnesses))))"

section \<open>identity_negatives\<close>

text \<open>The first two proposals, in order, with equal values and different contexts.\<close>

definition same_value :: "pyval \<Rightarrow> pyval \<Rightarrow> bool res" where
  "same_value a b =
     bindE (getitem a ''value'') (\<lambda>va. bindE (getitem b ''value'') (\<lambda>vb.
     andE (Inr (va = vb))
       (bindE (getitem a ''proposal_context'') (\<lambda>ca. bindE (getitem b ''proposal_context'') (\<lambda>cb. Inr (ca \<noteq> cb))))))"

fun find_res :: "('a \<Rightarrow> bool res) \<Rightarrow> 'a list \<Rightarrow> 'a option res" where
  "find_res p [] = Inr None"
| "find_res p (x # xs) = bindE (p x) (\<lambda>b. if b then Inr (Some x) else find_res p xs)"

fun find_pair :: "pyval list \<Rightarrow> (pyval \<times> pyval) option res" where
  "find_pair [] = Inr None"
| "find_pair (a # rest) =
     bindE (find_res (same_value a) rest) (\<lambda>found.
     case found of Some b \<Rightarrow> Inr (Some (a, b)) | None \<Rightarrow> find_pair rest)"

fun filter_res :: "('a \<Rightarrow> bool res) \<Rightarrow> 'a list \<Rightarrow> 'a list res" where
  "filter_res p [] = Inr []"
| "filter_res p (x # xs) = bindE (p x) (\<lambda>b. bindE (filter_res p xs) (\<lambda>ys. Inr (if b then x # ys else ys)))"

text \<open>
  \<open>writes[c]\<close> of the dict \<open>{w["context"]: w for w in \<dots>}\<close>: the last write with that context, as the
  index of an element of the list.
\<close>

definition write_index :: "pyval list \<Rightarrow> pyval \<Rightarrow> nat option res" where
  "write_index ws c =
     bindE (mapE (\<lambda>w. getitem w ''context'') ws) (\<lambda>cs.
     Inr (case filter (\<lambda>i. cs ! i = c) [0..<length cs] of [] \<Rightarrow> None | is \<Rightarrow> Some (last is)))"

definition completed_is :: "pyval \<Rightarrow> int \<Rightarrow> bool res" where
  "completed_is w n = bindE (getitem w ''completed'') (\<lambda>c. Inr (eq_int c n))"

text \<open>The exchange of two callbacks in one event, \<open>None\<close> when the event is not the boundary.\<close>

definition swap_callbacks :: "nat \<Rightarrow> pyval \<Rightarrow> pyval \<Rightarrow> pyval \<Rightarrow> pyval option res" where
  "swap_callbacks node first_id second_id e =
     bindE (bindE (bindE (getitem e ''reads'') (list_item node)) (\<lambda>r. bindE (getitem r ''writes'') iterate)) (\<lambda>ws.
     bindE (write_index ws first_id) (\<lambda>i.
     bindE (write_index ws second_id) (\<lambda>j.
     bindE (kind_is ''apply'' e) (\<lambda>applies.
     case (applies, i, j) of
       (True, Some i, Some j) \<Rightarrow>
         bindE (andE (completed_is (ws ! i) 1) (completed_is (ws ! j) 0)) (\<lambda>boundary.
         if boundary then
           bindE (update_item ''reads'' (update_list node (update_item ''writes'' (\<lambda>l.
             bindE (update_list i (setitem ''completed'' (PInt 0)) l) (update_list j (setitem ''completed'' (PInt 1)))))) e) (\<lambda>e'.
           Inr (Some e'))
         else Inr None)
     | _ \<Rightarrow> Inr None))))"

fun wrong_write_callback :: "nat \<Rightarrow> pyval \<Rightarrow> pyval \<Rightarrow> pyval list \<Rightarrow> pyval list res" where
  "wrong_write_callback node first_id second_id [] = Inl (RuntimeError ''Missing independent write completion boundary'')"
| "wrong_write_callback node first_id second_id (e # es) =
     bindE (swap_callbacks node first_id second_id e) (\<lambda>swapped.
     case swapped of
       Some e' \<Rightarrow> Inr (e' # es)
     | None \<Rightarrow> bindE (wrong_write_callback node first_id second_id es) (\<lambda>es'. Inr (e # es')))"

definition context_is :: "pyval \<Rightarrow> pyval \<Rightarrow> bool res" where
  "context_is c x = bindE (getitem x ''context'') (\<lambda>d. Inr (d = c))"

text \<open>The first element of the list at a path with the given context is changed.\<close>

definition update_context :: "pyval \<Rightarrow> (pyval \<Rightarrow> pyval res) \<Rightarrow> pyval \<Rightarrow> pyval res" where
  "update_context c f obj = bindE (iterate obj) (\<lambda>xs. bindE (first_index (context_is c) xs) (\<lambda>i. update_list i f obj))"

definition identity_mutate :: "pyval \<Rightarrow> pyval \<Rightarrow> string \<Rightarrow> pyval list \<Rightarrow> pyval list res" where
  "identity_mutate first second name events =
     bindE (getitem first ''proposal_context'') (\<lambda>first_id.
     bindE (getitem second ''proposal_context'') (\<lambda>second_id.
     bindE (node_index first) (\<lambda>node.
     if name = ''proposal-id-substitution'' then
       bindE (getitem second ''seq'') (\<lambda>seq. update_nth (nat (the_int seq)) (setitem ''proposal_context'' first_id) events)
     else if name = ''wrong-write-callback'' then wrong_write_callback node first_id second_id events
     else if name = ''duplicate-write-callback'' then
       update_nth (length events - 1) (update_item ''reads'' (update_list node (update_item ''writes''
         (update_context first_id (setitem ''completed'' (PInt 2)))))) events
     else
       update_nth (length events - 1) (update_item ''states'' (update_list node (update_item ''log''
         (update_context second_id (setitem ''context'' first_id))))) events)))"

definition identity_names :: "string list" where
  "identity_names = [''proposal-id-substitution'', ''wrong-write-callback'', ''duplicate-write-callback'', ''log-context-substitution'']"

definition identity_negatives :: "(nat list \<Rightarrow> pyval res) \<Rightarrow> (nat list \<Rightarrow> unit res) \<Rightarrow> nat list \<Rightarrow> unit res" where
  "identity_negatives loads validator data =
     bindE (load_read loads data) (\<lambda>events.
     bindE (filter_res (kind_is ''propose'') events) (\<lambda>proposals.
     bindE (find_pair proposals) (\<lambda>pair.
     case pair of
       None \<Rightarrow> Inl (ValueError ''Identity regressions require equal values with distinct proposal contexts'')
     | Some (first, second) \<Rightarrow>
         reject_all validator (\<lambda>name. identity_mutate first second name events) identity_names)))"

section \<open>stale_negatives\<close>

text \<open>A response of an old term at a leader whose oldest pending read neither names it nor counts its sender.\<close>

definition stale_event :: "pyval \<Rightarrow> bool res" where
  "stale_event e =
     andE (kind_is ''receive'' e)
       (bindE (getitem e ''input'') (\<lambda>m.
        andE (kind_is ''heartbeat_response'' m)
          (bindE (own ''states'' e) (\<lambda>s.
           andE (bindE (getitem s ''role'') (\<lambda>r. Inr (is_lit r ''leader'')))
             (andE (bindE (getitem m ''term'') (\<lambda>mt. bindE (getitem s ''term'') (\<lambda>st. Inr (the_int mt < the_int st))))
               (bindE (own ''reads'' e) (\<lambda>r.
                bindE (getitem r ''pending'') (\<lambda>ps.
                andE (Inr (truthy ps))
                  (bindE (list_item 0 ps) (\<lambda>p.
                   bindE (getitem m ''context'') (\<lambda>mc. bindE (getitem p ''context'') (\<lambda>pc.
                   andE (Inr (mc \<noteq> pc))
                     (bindE (getitem m ''from'') (\<lambda>src. bindE (getitem p ''acks'') (\<lambda>acks.
                      Inr (src \<notin> set (the_list acks)))))))))))))))))"

definition stale_boundary :: "pyval list \<Rightarrow> nat res" where
  "stale_boundary events = (case first_index stale_event events of
      Inl StopIteration \<Rightarrow> Inl (ValueError ''Stale regressions require an old-term response while a leader has a fresh pending read'')
    | r \<Rightarrow> r)"

text \<open>A completion attempt of the same node that tracks the read without an index.\<close>

definition unconfirmed :: "pyval \<Rightarrow> nat \<Rightarrow> pyval \<Rightarrow> pyval \<Rightarrow> bool res" where
  "unconfirmed node i ctx x =
     andE (kind_is ''complete_reads'' x)
       (andE (bindE (getitem x ''node'') (\<lambda>n. Inr (n = node)))
         (bindE (bindE (bindE (getitem x ''reads'') (list_item i)) (\<lambda>r. bindE (getitem r ''tracked'') iterate)) (\<lambda>ts.
          bindE (find_res (\<lambda>t. andE (context_is ctx t) (bindE (getitem t ''index'') (\<lambda>k. Inr (k = PNone)))) ts) (\<lambda>found.
          Inr (found \<noteq> None)))))"

definition complete_unconfirmed :: "nat \<Rightarrow> pyval \<Rightarrow> pyval \<Rightarrow> pyval res" where
  "complete_unconfirmed i ctx x =
     bindE (bindE (getitem x ''reads'') (list_item i)) (\<lambda>r.
     bindE (getitem r ''applied'') (\<lambda>applied.
     bindE (getitem r ''value'') (\<lambda>value.
     update_item ''reads'' (update_list i (update_item ''completed'' (list_append
       (mkdict [(''context'', ctx), (''index'', applied), (''value'', value)])))) x)))"

definition stale_mutate :: "nat \<Rightarrow> string \<Rightarrow> pyval list \<Rightarrow> pyval list res" where
  "stale_mutate boundary name events =
     (let e = events ! boundary in
     if name = ''stale-ack'' then
       bindE (bindE (getitem e ''input'') (\<lambda>m. getitem m ''from'')) (\<lambda>src.
       update_nth boundary (update_own ''reads'' (update_item ''pending'' (update_list 0 (update_item ''acks'' (list_append src))))) events)
     else if name = ''revived-read'' then
       bindE (bindE (getitem e ''input'') (\<lambda>m. getitem m ''context'')) (\<lambda>ctx.
       bindE (bindE (own ''states'' e) (\<lambda>s. getitem s ''commit'')) (\<lambda>commit.
       update_nth boundary (update_own ''reads'' (update_item ''ready''
         (list_append (mkdict [(''context'', ctx), (''index'', commit)])))) events))
     else
       bindE (bindE (own ''reads'' e) (\<lambda>r. bindE (getitem r ''pending'') (list_item 0))) (\<lambda>p.
       bindE (getitem p ''context'') (\<lambda>ctx.
       bindE (getitem e ''node'') (\<lambda>node.
       bindE (node_index e) (\<lambda>i.
       bindE (case first_index (unconfirmed node i ctx) (drop (boundary + 1) events) of
                Inl StopIteration \<Rightarrow> Inl (ValueError ''Missing unconfirmed read-completion attempt after stale response'')
              | r \<Rightarrow> r) (\<lambda>k.
       update_nth (boundary + 1 + k) (complete_unconfirmed i ctx) events))))))"

definition stale_names :: "string list" where
  "stale_names = [''stale-ack'', ''revived-read'', ''unconfirmed-callback'']"

definition stale_negatives :: "(nat list \<Rightarrow> pyval res) \<Rightarrow> (nat list \<Rightarrow> unit res) \<Rightarrow> nat list \<Rightarrow> unit res" where
  "stale_negatives loads validator data =
     bindE (load_read loads data) (\<lambda>events.
     bindE (stale_boundary events) (\<lambda>boundary.
     reject_all validator (\<lambda>name. stale_mutate boundary name events) stale_names))"

end
