(* ===== verification/Read_Trace_Properties.thy ===== *)
theory Read_Trace_Properties
  imports Read_Trace_Facts
begin

text \<open>
  The properties of the read trace checker, with a small accepted read trace as their witness.
\<close>

section \<open>A small read trace\<close>

lemma delitem_mkdict [dict_simps]:
  "delitem k (mkdict items) = (if map_of items k = None then Inl (KeyError k) else Inr (mkdict (filter (\<lambda>kv. fst kv \<noteq> k) items)))"
proof -
  have "dict_del (lit k) (map (\<lambda>(k, v). (lit k, v)) items) = map (\<lambda>(k, v). (lit k, v)) (filter (\<lambda>kv. fst kv \<noteq> k) items)"
    by (induction items) (auto simp: dict_del_def)
  then show ?thesis by (simp add: delitem_def mkdict_def has_key_def map_of_lit)
qed

lemma setitem_mkdict [dict_simps]: "setitem k v (mkdict items) = Inr (mkdict (AList.update k v items))"
proof -
  have "dict_set (lit k) v (map (\<lambda>(k, v). (lit k, v)) items) = map (\<lambda>(k, v). (lit k, v)) (AList.update k v items)"
    by (induction items) auto
  then show ?thesis by (simp add: setitem_def mkdict_def)
qed

text \<open>
  Node 1 reads the empty register, writes and reads the written value back; \<open>example_reads\<close> is a
  read state with the given completions and writes.
\<close>

definition example_reads :: "pyval list \<Rightarrow> pyval list \<Rightarrow> pyval" where
  "example_reads completions writes = mkdict [(''waiting'', PList []), (''pending'', PList []), (''ready'', PList []), (''tracked'', PList []),
     (''applied'', PInt 0), (''completed'', PList completions), (''value'', S ''''), (''writes'', PList writes)]"

definition read_done :: "string \<Rightarrow> string \<Rightarrow> pyval" where
  "read_done c v = mkdict [(''context'', S c), (''index'', PInt 0), (''value'', S v)]"

definition write_done :: "int \<Rightarrow> pyval" where
  "write_done n = mkdict [(''context'', S ''p''), (''value'', S ''x''), (''completed'', PInt n)]"

definition example_read_event :: "string \<Rightarrow> int \<Rightarrow> int \<Rightarrow> string \<Rightarrow> string \<Rightarrow> pyval list \<Rightarrow> pyval list \<Rightarrow> pyval" where
  "example_read_event kind seq node v ctx completions writes = mkdict [(''kind'', S kind), (''seq'', PInt seq), (''node'', PInt node),
     (''input'', PNone), (''value'', S v), (''states'', PList [example_node, example_node, example_node]),
     (''pending'', PList []), (''network'', PList []),
     (''reads'', PList [example_reads completions writes, example_reads [] [], example_reads [] []]), (''proposal_context'', S ctx)]"

definition example_read_trace :: "pyval list" where
  "example_read_trace =
     [example_read_event ''init'' 0 0 '''' '''' [] [], example_read_event ''campaign'' 1 1 '''' '''' [] [],
      example_read_event ''read'' 2 1 ''a'' '''' [] [], example_read_event ''complete_reads'' 3 1 '''' '''' [read_done ''a'' ''''] [],
      example_read_event ''propose'' 4 1 ''x'' ''p'' [read_done ''a'' ''''] [write_done 0],
      example_read_event ''apply'' 5 1 ''1'' '''' [read_done ''a'' ''''] [write_done 1],
      example_read_event ''read'' 6 1 ''b'' '''' [read_done ''a'' ''''] [write_done 1],
      example_read_event ''complete_reads'' 7 1 '''' '''' [read_done ''a'' '''', read_done ''b'' ''x''] [write_done 1],
      example_read_event ''end'' 8 0 '''' '''' [read_done ''a'' '''', read_done ''b'' ''x''] [write_done 1]]"

definition example_projected :: "string \<Rightarrow> int \<Rightarrow> int \<Rightarrow> string \<Rightarrow> string \<Rightarrow> pyval" where
  "example_projected kind seq node v ctx = mkdict [(''kind'', S kind), (''seq'', PInt seq), (''node'', PInt node), (''input'', PNone),
     (''value'', S v), (''states'', PList [example_node, example_node, example_node]), (''pending'', PList []), (''network'', PList []),
     (''proposal_context'', S ctx)]"

definition example_kinds :: "(string \<times> int \<times> string \<times> string) set" where
  "example_kinds = {(''init'', 0, '''', ''''), (''campaign'', 1, '''', ''''), (''propose'', 1, ''x'', ''p''), (''read'', 1, ''a'', ''''),
     (''read'', 1, ''b'', ''''), (''apply'', 1, ''1'', ''''), (''complete_reads'', 1, '''', ''''), (''end'', 0, '''', '''')}"

lemma example_project:
  assumes "(kind, node, v, ctx) \<in> example_kinds"
  shows "project (example_read_event kind seq node v ctx cs ws)
    = Inr (example_projected (projected_kind kind) seq node (if kind \<in> set READ_EVENTS then '''' else v) ctx)"
  using assms unfolding example_kinds_def
  by (elim insertE emptyE)
    (simp_all add: project_def example_read_event_def example_projected_def dict_simps in_set_def READ_EVENTS_def
      update_item_def update_each_def projected_kind_def)

lemma example_projected_observed:
  assumes "(kind, node, v, ctx) \<in> {(''init'', 0, '''', ''''), (''campaign'', 1, '''', ''''), (''propose'', 1, ''x'', ''p''), (''beat'', 1, '''', ''''),
    (''ready'', 1, '''', ''''), (''end'', 0, '''', '''')}"
  shows "observation (example_projected kind seq node v ctx) = Inr (example_observation [])"
  using assms
  by (elim insertE emptyE)
    (simp_all add: observation_def observe_context_def observe_node_def observe_states_def observe_input_def
      observe_value_def observe_bag_def example_projected_def example_observation_def dict_simps insert_commute in_set_def
      EVENTS_def valid_node_def bounded_bag_def example_node_state)

lemma example_reads_ok:
  assumes "length cs \<le> 16" and "set cs \<subseteq> {read_done ''a'' '''', read_done ''b'' ''x''}"
    and "length ws \<le> 16" and "set ws \<subseteq> {write_done 0, write_done 1}"
  shows "\<exists>out. read_state (example_reads cs ws) = Inr out"
proof -
  have "\<exists>ys. mapE (read_item ''completed'') cs = Inr ys"
    unfolding mapE_ex_Inr using assms(2)
    by (auto simp: read_done_def read_item_def item_fields_def dict_simps insert_commute read_context_def)
  moreover have "\<exists>ys. mapE read_write ws = Inr ys"
    unfolding mapE_ex_Inr using assms(4)
    by (auto simp: write_done_def read_write_def dict_simps insert_commute read_context_def)
  ultimately show ?thesis
    using assms(1,3) by (auto simp: read_state_def example_reads_def dict_simps insert_commute bounded_list_def read_items_def)
qed

definition example_reads_in :: "pyval list \<Rightarrow> pyval list \<Rightarrow> bool" where
  "example_reads_in cs ws \<longleftrightarrow> length cs \<le> 16 \<and> set cs \<subseteq> {read_done ''a'' '''', read_done ''b'' ''x''}
     \<and> length ws \<le> 16 \<and> set ws \<subseteq> {write_done 0, write_done 1}"

lemma example_read_event_ok:
  assumes "(kind, node, v, ctx) \<in> example_kinds" and "kind = ''init'' \<longleftrightarrow> i = 0" and "kind = ''end'' \<longleftrightarrow> Suc i = n"
    and "example_reads_in cs ws"
  shows "read_event_ok n i (example_read_event kind (int i) node v ctx cs ws)"
proof -
  let ?e = "example_read_event kind (int i) node v ctx cs ws"
  obtain p where p: "project ?e = Inr p" "\<exists>out. observation p = Inr out"
    using assms(1) example_projected_observed example_project [OF assms(1)]
    by (fastforce simp: example_kinds_def projected_kind_def READ_EVENTS_def)
  have known: "kind \<in> set (EVENTS @ READ_EVENTS) - {''restart''}"
    using assms(1) unfolding example_kinds_def by (elim insertE emptyE) (simp_all add: EVENTS_def READ_EVENTS_def)
  have "lit ''1'' \<in> set apply_targets" by (simp add: apply_targets_def upt_rec lit_def dec.simps)
  then have val: "check_value (S kind) (S v) = Inr ()"
    using assms(1) unfolding example_kinds_def
    by (elim insertE emptyE) (simp_all add: check_value_def read_context_def dict_simps in_set_def READ_EVENTS_def)
  have "read_event_input ?e (S kind) = Inr ()"
    by (simp add: read_event_input_def check_bag_def observe_bag_def bounded_bag_def example_read_event_def dict_simps val)
  moreover have "Py_Values.fields ?e read_event_fields = Inr ()"
    by (simp add: example_read_event_def read_event_fields_def dict_simps)
  moreover have "getitem ?e ''seq'' = Inr (PInt (int i))" "getitem ?e ''kind'' = Inr (S kind)"
    "getitem ?e ''reads'' = Inr (PList [example_reads cs ws, example_reads [] [], example_reads [] []])"
    by (simp_all add: example_read_event_def dict_simps)
  moreover have "\<exists>sts. mapE read_state [example_reads cs ws, example_reads [] [], example_reads [] []] = Inr sts"
    using example_reads_ok [of cs ws] example_reads_ok [of "[]" "[]"] assms(4) by (auto simp: example_reads_in_def)
  ultimately show ?thesis unfolding read_event_ok_def using known assms(2,3) p by simp
qed

lemma example_read_trace_ok: "read_trace_ok example_read_trace"
proof -
  have len: "length example_read_trace = 9" by (simp add: example_read_trace_def)
  have "read_event_ok 9 i (example_read_trace ! i)" if i: "i < 9" for i
  proof -
    have cases: "i = 0 \<or> i = 1 \<or> i = 2 \<or> i = 3 \<or> i = 4 \<or> i = 5 \<or> i = 6 \<or> i = 7 \<or> i = 8" using i by linarith
    show ?thesis using cases
      by (elim disjE) (simp_all add: example_read_trace_def example_kinds_def example_reads_in_def
        example_read_event_ok [where i = 0, simplified] example_read_event_ok [where i = 1, simplified]
        example_read_event_ok [where i = 2, simplified] example_read_event_ok [where i = 3, simplified]
        example_read_event_ok [where i = 4, simplified] example_read_event_ok [where i = 5, simplified]
        example_read_event_ok [where i = 6, simplified] example_read_event_ok [where i = 7, simplified]
        example_read_event_ok [where i = 8, simplified])
  qed
  moreover have "\<exists>e \<in> set example_read_trace. kind_is ''read'' e = Inr True"
    "\<exists>e \<in> set example_read_trace. kind_is ''complete_reads'' e = Inr True"
    by (auto simp: example_read_trace_def example_read_event_def kind_is_def dict_simps)
  ultimately show ?thesis by (simp add: read_trace_ok_def len)
qed

lemma example_read_loaded: "load_read_rows (READ_HEADER # example_read_trace @ [terminal_row 9]) = Inr example_read_trace"
proof -
  have "length example_read_trace = 9" by (simp add: example_read_trace_def)
  with example_read_trace_ok show ?thesis unfolding load_read_rows_split by simp
qed

section \<open>Properties\<close>

lemma wf_READ_HEADER: "wf_pyval READ_HEADER"
  by (simp add: READ_HEADER_def HEADER_def dict_with_def mkdict_def wf_pstr_lit)

lemma wf_example_read_rows: "list_all wf_pyval (READ_HEADER # example_read_trace @ [terminal_row 9])"
  by (simp add: wf_READ_HEADER wf_headers example_read_trace_def example_read_event_def example_reads_def read_done_def write_done_def example_node_def
      wf_mkdict wf_pstr_lit)

text \<open>
  \<open>load\<close> of the read checker accepts exactly the header of a register application (up to the
  order of its keys), 2 to 1000 numbered read events from \<open>init\<close> to \<open>end\<close> with a \<open>read\<close> and a
  \<open>complete_reads\<close> among them, each with three valid read states, contextual messages and a
  consensus projection that satisfies the schema, and the matching terminal row.
\<close>

lemma load_read_rows_iff:
  assumes "list_all wf_pyval rows"
  shows "load_read_rows rows = Inr events \<longleftrightarrow> (\<exists>header terminal. rows = header # events @ [terminal]
     \<and> canon header = canon READ_HEADER \<and> canon terminal = canon (terminal_row (length events)) \<and> read_trace_ok events)"
proof -
  have "key header = key READ_HEADER \<longleftrightarrow> canon header = canon READ_HEADER" if "wf_pyval header" for header
    using key_eq_iff [OF that wf_READ_HEADER] .
  moreover have "key terminal = key (terminal_row n) \<longleftrightarrow> canon terminal = canon (terminal_row n)" if "wf_pyval terminal" for terminal n
    using key_eq_iff [OF that wf_headers(3)] .
  ultimately show ?thesis unfolding load_read_rows_eq_Inr using assms by auto
qed

text \<open>
  C27: the steps of the read model exist for every loaded read trace, one per event: no check of
  \<open>instructions\<close> can fail once \<open>load\<close> has passed.
\<close>

theorem read_instructions_total:
  assumes "load_read_rows rows = Inr events"
  shows "\<exists>steps. read_instructions events = Inr steps \<and> length steps = length events"
  using assms by (intro read_instructions_ok) (auto simp: load_read_rows_eq_Inr)

theorem read_instructions_total_witness:
  "\<exists>steps. read_instructions example_read_trace = Inr steps \<and> length steps = length example_read_trace"
  by (rule read_instructions_total [OF example_read_loaded])

text \<open>
  Writing a read trace back and reading it again is the identity on loaded traces.
\<close>

lemma load_read_rows_write:
  assumes "load_read_rows rows = Inr events"
  shows "\<exists>rows'. write_read_rows events = Inr rows' \<and> load_read_rows rows' = Inr events"
proof -
  have ok: "read_trace_ok events" using assms by (auto simp: load_read_rows_eq_Inr)
  then have "numbered events" using read_trace_numbered by blast
  then have "renumber events = Inr events" by (intro renumber_same) (simp add: numbered_def)
  then have "write_read_rows events = Inr (READ_HEADER # events @ [terminal_row (length events)])"
    by (simp add: write_read_rows_def)
  with ok show ?thesis using load_read_rows_split by blast
qed

text \<open>
  C29: on the register history of a loaded read trace both mutations of \<open>negatives\<close> destroy
  linearizability, whatever the values written, so \<open>check\<close> can never answer \<open>True\<close> on them: the
  schema rules out the empty writes that would keep a mutation linearizable.
\<close>

theorem read_negatives_refuted:
  assumes "load_read_rows rows = Inr events" and "extract_history events = Inr history"
    and "history_mutations history = Inr cases"
  shows "list_all (\<lambda>(name, mutated). \<not> linearizable (history_of (PList mutated))
    \<and> check_history uword loads classpath tlc (PList mutated) \<noteq> Inr True) cases"
proof -
  have ok: "read_trace_ok events" using assms(1) by (auto simp: load_read_rows_eq_Inr)
  note facts = extract_history_writes [OF conjunct1 [OF read_trace_numbered [OF ok]] conjunct2 [OF read_trace_numbered [OF ok]]
      read_trace_proposes [OF ok] assms(2)]
  have "\<not> linearizable (history_of (PList mutated))" if m: "(name, mutated) \<in> set cases" for name mutated
    using mutations_not_linearizable [OF facts(1,2) facts(3) assms(3) m] .
  then show ?thesis using check_history_sound by (fastforce simp: list_all_iff)
qed

definition example_read_history :: "pyval list" where
  "example_read_history =
     [mkdict [(''id'', PStr (lit ''read'' @ lit '':'' @ hex (lit ''a''))), (''kind'', S ''read''), (''value'', S ''''), (''result'', S ''''),
        (''invoked'', PInt 2), (''returned'', PInt 3)],
      mkdict [(''id'', PStr (lit ''write'' @ lit '':'' @ hex (lit ''p''))), (''kind'', S ''write''), (''value'', PStr (hex (lit ''x''))), (''result'', S ''''),
        (''invoked'', PInt 4), (''returned'', PInt 5)],
      mkdict [(''id'', PStr (lit ''read'' @ lit '':'' @ hex (lit ''b''))), (''kind'', S ''read''), (''value'', S ''''), (''result'', PStr (hex (lit ''x''))),
        (''invoked'', PInt 6), (''returned'', PInt 7)]]"

lemma example_read_extracted: "extract_history example_read_trace = Inr example_read_history"
  by (simp add: example_read_trace_def example_read_event_def example_reads_def read_done_def write_done_def
      example_read_history_def extract_eval)

theorem read_negatives_refuted_witness:
  "list_all (\<lambda>(name, mutated). \<not> linearizable (history_of (PList mutated))
      \<and> check_history (\<lambda>_. False) (\<lambda>_. Inr PNone) (Inr []) exhausting_tlc (PList mutated) \<noteq> Inr True)
    [(''future-value'', set_result (operation_of (example_read_history ! 0)) (hex (lit ''x'')) example_read_history),
     (''stale-value'', set_result (operation_of (example_read_history ! 2)) [] example_read_history)]"
  by (rule read_negatives_refuted [OF example_read_loaded example_read_extracted])
    (simp add: example_read_history_def history_eval history_mutations_def early_read_def late_read_def history_reads_def history_writes_def)

end
