(* ===== verification/Trace_Files.thy ===== *)
theory Trace_Files
  imports Trace_Runs Read_Trace_Properties Json_Bytes
begin

text \<open>
  Trace files as bytes: the loaders with \<open>json.loads\<close> itself in place of their parameter.  The
  locale \<open>trace_format\<close> is the contract between a loader and its writer; both checkers satisfy
  it, and the file-level facts are proved once for both.
\<close>

section \<open>Lines\<close>

definition file_text :: "pyval list \<Rightarrow> nat list" where
  "file_text rows = concat (map (\<lambda>row. dumps False row @ [10]) rows)"

definition one_line :: "nat list \<Rightarrow> bool" where
  "one_line l \<longleftrightarrow> 10 \<notin> set l \<and> 13 \<notin> set l"

lemma splitlines_from_line:
  "one_line l \<Longrightarrow> splitlines_from acc (l @ 10 # rest) = (rev acc @ l) # splitlines_from [] rest"
  by (induction l arbitrary: acc) (auto simp: one_line_def)

lemma splitlines_lines:
  "list_all one_line ls \<Longrightarrow> splitlines (concat (map (\<lambda>l. l @ [10]) ls) @ rest) = ls @ splitlines rest"
  by (induction ls) (auto simp: splitlines_def splitlines_from_line)

lemma splitlines_Nil [simp]: "splitlines [] = []"
  by (simp add: splitlines_def)

lemma dumps_one_line: "json_ok fr v \<Longrightarrow> one_line (dumps False v)"
  using dumps_ascii [of fr v] by (fastforce simp: one_line_def)

lemma splitlines_file_text:
  assumes "list_all (json_ok fr) rows"
  shows "splitlines (file_text rows) = map (dumps False) rows"
proof -
  have "list_all one_line (map (dumps False) rows)"
    using assms dumps_one_line by (auto simp: list_all_iff)
  from splitlines_lines [OF this, of "[]"] show ?thesis by (simp add: file_text_def comp_def)
qed

lemma mapE_map: "mapE f (map g xs) = mapE (\<lambda>x. f (g x)) xs"
  by (induction xs) auto

lemma loads_file_text:
  assumes "list_all (json_ok fr) rows"
  shows "mapE (json_loads fr od) (splitlines (file_text rows)) = Inr rows"
proof -
  have "mapE (\<lambda>v. json_loads fr od (dumps False v)) rows = Inr (map id rows)"
    by (rule mapE_Inr_map) (use assms json_loads_dumps in \<open>auto simp: list_all_iff\<close>)
  then show ?thesis by (simp add: splitlines_file_text [OF assms] mapE_map)
qed

lemma file_text_ends: "rows \<noteq> [] \<Longrightarrow> file_text rows \<noteq> [] \<and> last (file_text rows) = 10"
  by (induction rows rule: rev_induct) (auto simp: file_text_def)

section \<open>Strict UTF-8 files\<close>

text \<open>
  A file whose lines are UTF-8 without a byte order mark, without a zero among the first bytes
  of a line and without encoded surrogates.
\<close>

definition utf8_line :: "nat list \<Rightarrow> bool" where
  "utf8_line b \<longleftrightarrow> plain_utf8 b \<and> (case decode_utf8 b of Inr s \<Rightarrow> no_surrogates s | Inl _ \<Rightarrow> False)"

definition utf8_file :: "nat list \<Rightarrow> bool" where
  "utf8_file data \<longleftrightarrow> list_all utf8_line (splitlines data)"

lemma json_loads_good:
  assumes "float_printer fr" and "utf8_line b" and "json_loads fr od b = Inr v"
  shows "good fr v"
proof -
  obtain s where s: "plain_utf8 b" "decode_utf8 b = Inr s" "no_surrogates s"
    using assms(2) by (auto simp: utf8_line_def split: sum.splits)
  with assms(3) obtain r where "scan_value (unique_object, fr) (skip s) = Inr (v, r)"
    by (auto simp: json_loads_def decode_text_def bindE_eq_Inr json_error_def split: if_splits)
  moreover have "no_surrogates (skip s)" using no_surrogates_mono [OF s(3) set_skip] .
  ultimately show ?thesis using unique.scan_wf(1) [of "(unique_object, fr)" "skip s" v r] assms(1) by simp
qed

lemma utf8_file_good:
  assumes "float_printer fr" and "utf8_file data" and "mapE (json_loads fr od) (splitlines data) = Inr rows"
  shows "list_all (good fr) rows"
  unfolding list_all_iff
proof
  fix v assume "v \<in> set rows"
  then obtain b where "b \<in> set (splitlines data)" "json_loads fr od b = Inr v" using mapE_set [OF assms(3)] by metis
  with assms(1,2) json_loads_good show "good fr v" by (fastforce simp: utf8_file_def list_all_iff)
qed

lemma utf8_line_ascii: "(\<And>c. c \<in> set b \<Longrightarrow> 32 \<le> c \<and> c < 127) \<Longrightarrow> utf8_line b"
  using plain_utf8_text [of b] decode_utf8_ascii [of b]
  by (fastforce simp: utf8_line_def no_surrogates_def is_surrogate_def list_all_iff)

lemma utf8_file_text:
  assumes "list_all (json_ok fr) rows"
  shows "utf8_file (file_text rows)"
  using assms dumps_ascii utf8_line_ascii
  by (auto simp: utf8_file_def splitlines_file_text [OF assms] list_all_iff)

section \<open>Loading and writing a file\<close>

text \<open>The common frame of both loaders.\<close>

definition load_with :: "(pyval list \<Rightarrow> pyval list res) \<Rightarrow> (nat list \<Rightarrow> pyval res) \<Rightarrow> nat list \<Rightarrow> pyval list res" where
  "load_with check loads data =
     bindE (require (0 < length data \<and> length data \<le> 16000000 \<and> last data = 10)
              ''Empty, oversized or truncated trace'') (\<lambda>_.
     bindE (mapE loads (splitlines data)) check)"

lemma load_frames: "load = load_with load_rows" "load_read = load_with load_read_rows"
  by (simp_all add: fun_eq_iff load_with_def load_def load_read_def)

lemma load_with_eq_Inr:
  "load_with check loads data = Inr events \<longleftrightarrow> data \<noteq> [] \<and> length data \<le> 16000000 \<and> last data = 10
     \<and> (\<exists>rows. mapE loads (splitlines data) = Inr rows \<and> check rows = Inr events)"
  by (auto simp: load_with_def bindE_eq_Inr require_eq_Inr)

locale trace_format =
  fixes check_rows :: "pyval list \<Rightarrow> pyval list res"
    and rows_of :: "pyval list \<Rightarrow> pyval list res"
  assumes write_back: "check_rows rows = Inr events \<Longrightarrow> list_all (json_ok fr) rows \<Longrightarrow>
    \<exists>rows'. rows_of events = Inr rows' \<and> check_rows rows' = Inr events \<and> rows' \<noteq> [] \<and> list_all (json_ok fr) rows'"
begin

lemma file_roundtrip:
  assumes fr: "float_printer fr" and utf8: "utf8_file data" and "load_with check_rows (json_loads fr od) data = Inr events"
  shows "\<exists>rows. rows_of events = Inr rows
    \<and> (load_with check_rows (json_loads fr od) (file_text rows) = Inr events \<longleftrightarrow> length (file_text rows) \<le> 16000000)"
proof -
  obtain rows where rows: "mapE (json_loads fr od) (splitlines data) = Inr rows" "check_rows rows = Inr events"
    using assms(3) by (auto simp: load_with_eq_Inr)
  have "list_all (json_ok fr) rows"
    using utf8_file_good [OF fr utf8 rows(1)] by (auto simp: list_all_iff good_def)
  then obtain rows' where rows': "rows_of events = Inr rows'" "check_rows rows' = Inr events" "rows' \<noteq> []" "list_all (json_ok fr) rows'"
    using write_back [OF rows(2)] by blast
  then show ?thesis
    using file_text_ends [OF rows'(3)] loads_file_text [OF rows'(4)] by (auto simp: load_with_eq_Inr)
qed

end

lemma json_ok_mkdict: "json_ok fr (mkdict items) \<longleftrightarrow> distinct (map fst items) \<and> list_all (json_ok fr \<circ> snd) items"
proof -
  have "map fst (map (\<lambda>(k, v :: pyval). (lit k, v)) items) = map lit (map fst items)" by auto
  then have "distinct (map fst (map (\<lambda>(k, v :: pyval). (lit k, v)) items)) \<longleftrightarrow> distinct (map fst items)"
    using inj_on_subset [OF inj_lit subset_UNIV] by (simp only: distinct_map [of lit]) simp
  then show ?thesis by (auto simp: mkdict_def list_all_iff wf_pstr_lit)
qed

lemma json_ok_headers: "json_ok fr HEADER" "json_ok fr CONTEXT_HEADER" "json_ok fr READ_HEADER"
proof -
  show "json_ok fr HEADER" by (simp add: HEADER_def json_ok_mkdict wf_pstr_lit dec.simps)
  show "json_ok fr CONTEXT_HEADER" "json_ok fr READ_HEADER"
    by (simp_all add: CONTEXT_HEADER_def READ_HEADER_def HEADER_def dict_with_def mkdict_def wf_pstr_lit dec.simps)
qed

lemma json_ok_terminal: "n \<le> 1000 \<Longrightarrow> json_ok fr (terminal_row n)"
  using length_dec [of n 4] by (simp add: terminal_row_def json_ok_mkdict wf_pstr_lit)

interpretation trace: trace_format load_rows write_rows
proof
  fix rows events fr
  assume load: "load_rows rows = Inr events" and json: "list_all (json_ok fr) rows"
  obtain rows' where rows': "write_rows events = Inr rows'" "load_rows rows' = Inr events"
    using load_rows_write [OF load] by blast
  obtain contextual where ok: "trace_ok contextual events" using load by (auto simp: load_rows_eq_Inr)
  have "length events \<le> 1000" using ok by (simp add: trace_ok_def)
  moreover have "list_all (json_ok fr) events" using load json by (auto simp: load_rows_eq_Inr)
  ultimately have "rows' \<noteq> [] \<and> list_all (json_ok fr) rows'"
    using rows'(1) write_rows_numbered [OF ok] json_ok_headers json_ok_terminal by auto
  with rows' show "\<exists>rows'. write_rows events = Inr rows' \<and> load_rows rows' = Inr events \<and> rows' \<noteq> [] \<and> list_all (json_ok fr) rows'"
    by blast
qed

interpretation read: trace_format load_read_rows write_read_rows
proof
  fix rows events fr
  assume load: "load_read_rows rows = Inr events" and json: "list_all (json_ok fr) rows"
  obtain rows' where rows': "write_read_rows events = Inr rows'" "load_read_rows rows' = Inr events"
    using load_read_rows_write [OF load] by blast
  have "length events \<le> 1000" using load by (auto simp: load_read_rows_eq_Inr read_trace_ok_def)
  moreover have "list_all (json_ok fr) events" using load json by (auto simp: load_read_rows_eq_Inr)
  moreover obtain events' where "rows' = READ_HEADER # events' @ [terminal_row (length events')]"
    using rows'(1) by (auto simp: write_read_rows_def bindE_eq_Inr)
  then have "rows' = READ_HEADER # events @ [terminal_row (length events)]"
    using rows'(2) by (auto simp: load_read_rows_split)
  ultimately have "rows' \<noteq> [] \<and> list_all (json_ok fr) rows'"
    using json_ok_headers json_ok_terminal by auto
  with rows' show "\<exists>rows'. write_read_rows events = Inr rows' \<and> load_read_rows rows' = Inr events \<and> rows' \<noteq> [] \<and> list_all (json_ok fr) rows'"
    by blast
qed

section \<open>The size of printed values\<close>

text \<open>An upper bound on the printed length, for the size limit of a file.\<close>

fun print_bound :: "pyval \<Rightarrow> nat" where
  "print_bound PNone = 4"
| "print_bound (PBool b) = 5"
| "print_bound (PInt i) = nat \<bar>i\<bar> + 2"
| "print_bound (PFloat t) = length t"
| "print_bound (PStr s) = 12 * length s + 2"
| "print_bound (PList xs) = 2 + sum_list (map (\<lambda>x. print_bound x + 2) xs)"
| "print_bound (PDict kvs) = 2 + sum_list (map (\<lambda>(k, v). 12 * length k + print_bound v + 6) kvs)"

lemma length_dec_le: "length (dec n) \<le> n + 1"
proof (induction n rule: dec.induct)
  case (1 n)
  then show ?case by (cases "n < 10") (auto simp: dec.simps [of n])
qed

lemma length_json_string: "length (json_string s) \<le> 12 * length s + 2"
proof (induction s)
  case (Cons c s)
  have esc: "length (esc_unit u) \<le> 6" for u by (simp add: esc_unit_def)
  have "length (concat (map esc_unit (units16 c))) \<le> 12"
    using esc by (auto simp: units16_def intro: add_mono [of _ 6 _ 6, simplified] order_trans [of _ 6 12])
  then show ?case using Cons.IH by (simp add: json_string_def)
qed (simp add: json_string_def)

lemma length_join: "length (join sep xs) \<le> sum_list (map (\<lambda>x. length x + length sep) xs)"
  by (induction sep xs rule: join.induct) auto

lemma length_dumps: "length (dumps False v) \<le> print_bound v"
proof (induction v)
  case (PInt i)
  then show ?case using length_dec_le [of "nat \<bar>i\<bar>"] by (auto simp: dec_int_def)
next
  case (PStr s)
  then show ?case using length_json_string by simp
next
  case (PList xs)
  have "sum_list (map (\<lambda>x. length (dumps False x) + 2) xs) \<le> sum_list (map (\<lambda>x. print_bound x + 2) xs)"
    using PList by (intro sum_list_mono) auto
  then show ?case using length_join [of "lit '', ''" "map (dumps False) xs"] by (simp add: comp_def)
next
  case (PDict kvs)
  have "sum_list (map (\<lambda>(k, v). length (json_string k) + (length (dumps False v) + 4)) kvs)
      \<le> sum_list (map (\<lambda>(k, v). 12 * length k + print_bound v + 6) kvs)"
  proof (rule sum_list_mono, clarify)
    fix k v assume "(k, v) \<in> set kvs"
    then have "length (dumps False v) \<le> print_bound v" using PDict by fastforce
    then show "length (json_string k) + (length (dumps False v) + 4) \<le> 12 * length k + print_bound v + 6"
      using length_json_string [of k] by simp
  qed
  then show ?case
    using length_join [of "[44, 32]" "map (\<lambda>(k, v). json_string k @ [58, 32] @ dumps False v) kvs"]
    unfolding dumps_PDict print_bound.simps
    by (simp add: comp_def case_prod_unfold eval_nat_numeral del: dumps.simps)
qed auto

lemma length_file_text: "length (file_text rows) \<le> sum_list (map (\<lambda>r. print_bound r + 1) rows)"
  by (induction rows) (auto simp: file_text_def intro: add_mono length_dumps)

lemma print_bound_mkdict: "print_bound (mkdict items) = 2 + sum_list (map (\<lambda>(k, v). 12 * length k + print_bound v + 6) items)"
  by (simp add: mkdict_def comp_def case_prod_unfold)

section \<open>Files that are loaded\<close>

text \<open>A float printer, and the files of the example traces.\<close>

definition one_float :: "pstr \<Rightarrow> pstr" where
  "one_float t = lit ''1.0''"

lemma float_printer_one: "float_printer one_float"
  by (simp add: float_printer_def one_float_def wf_float_def number_text_def float_literals_def lit_def scan_integer_def
    scan_natural_def scan_digits_def is_digit_def scan_fraction_def scan_exponent_def delim_def)

definition no_other :: "nat list \<Rightarrow> pstr res" where
  "no_other b = Inl (ValueError ''UnicodeDecodeError'')"

definition example_file :: "nat list" where
  "example_file = file_text (HEADER # example_trace @ [terminal_row 4])"

definition example_read_file :: "nat list" where
  "example_read_file = file_text (READ_HEADER # example_read_trace @ [terminal_row 9])"

lemma example_rows_json: "list_all (json_ok fr) (HEADER # example_trace @ [terminal_row 4])"
  by (simp add: json_ok_headers json_ok_terminal example_trace_def example_event_def example_node_def example_vote_def
      json_ok_mkdict wf_pstr_lit dec.simps)

lemma example_read_rows_json: "list_all (json_ok fr) (READ_HEADER # example_read_trace @ [terminal_row 9])"
  by (simp add: json_ok_headers json_ok_terminal example_read_trace_def example_read_event_def example_reads_def
      read_done_def write_done_def example_node_def json_ok_mkdict wf_pstr_lit dec.simps)

lemma example_file_size: "length example_file \<le> 16000000"
  unfolding example_file_def
  by (rule order_trans [OF length_file_text])
    (simp add: HEADER_def terminal_row_def example_trace_def example_event_def example_node_def example_vote_def print_bound_mkdict)

lemma example_read_file_size: "length example_read_file \<le> 16000000"
  unfolding example_read_file_def
  by (rule order_trans [OF length_file_text])
    (simp add: READ_HEADER_def HEADER_def dict_with_def mkdict_def terminal_row_def example_read_trace_def example_read_event_def
      example_node_def example_reads_def read_done_def write_done_def)

lemma load_file_text:
  assumes "check rows = Inr events" and "rows \<noteq> []" and "list_all (json_ok fr) rows" and "length (file_text rows) \<le> 16000000"
  shows "load_with check (json_loads fr od) (file_text rows) = Inr events"
  using assms file_text_ends loads_file_text [OF assms(3)] by (simp add: load_with_eq_Inr)

lemma example_file_loaded: "load (json_loads one_float no_other) example_file = Inr example_trace"
  using load_file_text [where check = load_rows, OF example_rows_loaded _ example_rows_json] example_file_size
  by (simp add: load_frames example_file_def)

lemma example_read_file_loaded: "load_read (json_loads one_float no_other) example_read_file = Inr example_read_trace"
  using load_file_text [where check = load_read_rows, OF example_read_loaded _ example_read_rows_json] example_read_file_size
  by (simp add: load_frames example_read_file_def)

lemma example_files_utf8: "utf8_file example_file" "utf8_file example_read_file"
  unfolding example_file_def example_read_file_def
  by (rule utf8_file_text [OF example_rows_json], rule utf8_file_text [OF example_read_rows_json])

text \<open>
  C3: a strict UTF-8 file is accepted by \<open>load\<close> exactly when it has at most 16 000 000 bytes, ends in
  a newline, and its lines are JSON objects: a supported header and the matching terminal row (up
  to the order of their keys) around 2 to 1000 numbered events that satisfy the schema, from
  \<open>init\<close> to \<open>end\<close>, with a campaign and a proposal.
\<close>

theorem load_file_iff:
  assumes "float_printer fr" and "utf8_file data"
  shows "load (json_loads fr od) data = Inr events \<longleftrightarrow> data \<noteq> [] \<and> length data \<le> 16000000 \<and> last data = 10
     \<and> (\<exists>header terminal contextual. mapE (json_loads fr od) (splitlines data) = Inr (header # events @ [terminal])
       \<and> canon header = canon (if contextual then CONTEXT_HEADER else HEADER)
       \<and> canon terminal = canon (terminal_row (length events)) \<and> trace_ok contextual events)"
proof (cases "mapE (json_loads fr od) (splitlines data)")
  case (Inr rows)
  then have "list_all wf_pyval rows" using utf8_file_good [OF assms Inr] by (auto simp: good_def list_all_iff)
  from load_rows_iff [OF this] show ?thesis by (simp add: load_frames load_with_eq_Inr Inr)
qed (simp add: load_frames load_with_eq_Inr)

theorem load_file_iff_witness:
  "example_file \<noteq> [] \<and> length example_file \<le> 16000000 \<and> last example_file = 10
     \<and> (\<exists>header terminal contextual. mapE (json_loads one_float no_other) (splitlines example_file) = Inr (header # example_trace @ [terminal])
       \<and> canon header = canon (if contextual then CONTEXT_HEADER else HEADER)
       \<and> canon terminal = canon (terminal_row (length example_trace)) \<and> trace_ok contextual example_trace)"
  using load_file_iff [OF float_printer_one example_files_utf8(1)] example_file_loaded by blast

text \<open>
  C26: a strict UTF-8 file is accepted by the read checker's \<open>load\<close> exactly when it has at most
  16 000 000 bytes, ends in a newline, and its lines are JSON objects: the header of a register
  application, the matching terminal row, and between them a read trace.
\<close>

theorem read_load_file_iff:
  assumes "float_printer fr" and "utf8_file data"
  shows "load_read (json_loads fr od) data = Inr events \<longleftrightarrow> data \<noteq> [] \<and> length data \<le> 16000000 \<and> last data = 10
     \<and> (\<exists>header terminal. mapE (json_loads fr od) (splitlines data) = Inr (header # events @ [terminal])
       \<and> canon header = canon READ_HEADER \<and> canon terminal = canon (terminal_row (length events)) \<and> read_trace_ok events)"
proof (cases "mapE (json_loads fr od) (splitlines data)")
  case (Inr rows)
  then have "list_all wf_pyval rows" using utf8_file_good [OF assms Inr] by (auto simp: good_def list_all_iff)
  from load_read_rows_iff [OF this] show ?thesis by (simp add: load_frames load_with_eq_Inr Inr)
qed (simp add: load_frames load_with_eq_Inr)

theorem read_load_file_iff_witness:
  "example_read_file \<noteq> [] \<and> length example_read_file \<le> 16000000 \<and> last example_read_file = 10
     \<and> (\<exists>header terminal. mapE (json_loads one_float no_other) (splitlines example_read_file) = Inr (header # example_read_trace @ [terminal])
       \<and> canon header = canon READ_HEADER \<and> canon terminal = canon (terminal_row (length example_read_trace))
       \<and> read_trace_ok example_read_trace)"
  using read_load_file_iff [OF float_printer_one example_files_utf8(2)] example_read_file_loaded by blast

text \<open>
  C16: writing a loaded trace to a file and loading that file is the identity: \<open>write_events\<close>
  succeeds on every trace \<open>load\<close> accepted, and \<open>load\<close> reads the written file back to the same
  events exactly when escaping has not pushed it over the size limit.
\<close>

theorem trace_file_roundtrip:
  assumes "float_printer fr" and "utf8_file data" and "load (json_loads fr od) data = Inr events"
  shows "\<exists>t. write_events events = Inr t
    \<and> (load (json_loads fr od) t = Inr events \<longleftrightarrow> length t \<le> 16000000)"
  using trace.file_roundtrip [OF assms [unfolded load_frames]]
  by (auto simp: write_events_def load_frames file_text_def)

theorem trace_file_roundtrip_witness:
  "\<exists>t. write_events example_trace = Inr t
    \<and> (load (json_loads one_float no_other) t = Inr example_trace \<longleftrightarrow> length t \<le> 16000000)"
  by (rule trace_file_roundtrip [OF float_printer_one example_files_utf8(1) example_file_loaded])

text \<open>
  C28: the same round trip for read traces.
\<close>

theorem read_trace_file_roundtrip:
  assumes "float_printer fr" and "utf8_file data" and "load_read (json_loads fr od) data = Inr events"
  shows "\<exists>t. write_read_events events = Inr t
    \<and> (load_read (json_loads fr od) t = Inr events \<longleftrightarrow> length t \<le> 16000000)"
  using read.file_roundtrip [OF assms [unfolded load_frames]]
  by (auto simp: write_read_events_def load_frames file_text_def)

theorem read_trace_file_roundtrip_witness:
  "\<exists>t. write_read_events example_read_trace = Inr t
    \<and> (load_read (json_loads one_float no_other) t = Inr example_read_trace \<longleftrightarrow> length t \<le> 16000000)"
  by (rule read_trace_file_roundtrip [OF float_printer_one example_files_utf8(2) example_read_file_loaded])

end
