(* ===== verification/Trace_Negatives.thy ===== *)
theory Trace_Negatives
  imports Trace_Files
begin

text \<open>
  The malformed files that \<open>negatives\<close> derives from an accepted trace file: cut, extended, without
  its terminal line or with an unknown event.  Each of them is rejected by \<open>load\<close> with an exception
  \<open>negatives\<close> expects.
\<close>

section \<open>Lines of a file that ends in a newline\<close>

lemma splitlines_from_last:
  assumes "bs \<noteq> []" and "last bs = 10" and "one_line acc"
  shows "\<exists>ls l pre brk. splitlines_from acc bs = ls @ [l] \<and> rev acc @ bs = pre @ l @ brk
    \<and> one_line l \<and> brk \<in> {[10], [13, 10]}"
  using assms
proof (induction acc bs rule: splitlines_from.induct)
  case (2 acc b bs)
  have acc: "one_line (rev acc)" using "2.prems"(3) by (simp add: one_line_def)
  have lift: "\<exists>ls' l' pre' brk'. x # lines = ls' @ [l'] \<and> y @ t = pre' @ l' @ brk' \<and> one_line l' \<and> brk' \<in> {[10], [13, 10]}"
    if "\<exists>ls l pre brk. lines = ls @ [l] \<and> rev [] @ t = pre @ l @ brk \<and> one_line l \<and> brk \<in> {[10], [13, 10]}"
    for x y t and lines :: "nat list list"
    using that by (metis append.assoc append_Cons append_Nil rev.simps(1))
  consider (nl) "b = 10" "bs = []" | (nl_more) "b = 10" "bs \<noteq> []" | (cr) "b = 13" | (other) "b \<noteq> 10" "b \<noteq> 13" by blast
  then show ?case
  proof cases
    case nl
    with acc have "splitlines_from acc (b # bs) = [] @ [rev acc] \<and> rev acc @ b # bs = [] @ rev acc @ [10]" by simp
    with acc show ?thesis by blast
  next
    case nl_more
    with "2.prems" have "\<exists>ls l pre brk. splitlines_from [] bs = ls @ [l] \<and> rev [] @ bs = pre @ l @ brk \<and> one_line l \<and> brk \<in> {[10], [13, 10]}"
      by (intro "2.IH"(1)) (auto simp: one_line_def)
    from lift [OF this, of "rev acc" "rev acc @ [b]"] nl_more show ?thesis by simp
  next
    case cr
    then obtain c cs where bs: "bs = c # cs" using "2.prems"(2) by (cases bs) auto
    show ?thesis
    proof (cases "c = 10")
      case c: True
      show ?thesis
      proof (cases "cs = []")
        case True
        with cr bs c have "splitlines_from acc (b # bs) = [] @ [rev acc] \<and> rev acc @ b # bs = [] @ rev acc @ [13, 10]" by simp
        with acc show ?thesis by blast
      next
        case False
        with "2.prems" cr bs c have "\<exists>ls l pre brk. splitlines_from [] cs = ls @ [l] \<and> rev [] @ cs = pre @ l @ brk \<and> one_line l \<and> brk \<in> {[10], [13, 10]}"
          by (intro "2.IH"(2)) (auto simp: one_line_def)
        from lift [OF this, of "rev acc" "rev acc @ [b, c]"] cr bs c show ?thesis by simp
      qed
    next
      case False
      with "2.prems" cr bs have "\<exists>ls l pre brk. splitlines_from [] bs = ls @ [l] \<and> rev [] @ bs = pre @ l @ brk \<and> one_line l \<and> brk \<in> {[10], [13, 10]}"
        by (intro "2.IH"(3)) (auto simp: one_line_def)
      from lift [OF this, of "rev acc" "rev acc @ [b]"] cr bs False show ?thesis by simp
    qed
  next
    case other
    then have ne: "bs \<noteq> []" using "2.prems"(2) by auto
    with "2.prems" other have "\<exists>ls l pre brk. splitlines_from (b # acc) bs = ls @ [l] \<and> rev (b # acc) @ bs = pre @ l @ brk \<and> one_line l \<and> brk \<in> {[10], [13, 10]}"
      by (intro "2.IH"(4)) (auto simp: one_line_def)
    with other show ?thesis by simp
  qed
qed simp

lemma splitlines_from_append:
  "bs \<noteq> [] \<Longrightarrow> last bs = 10 \<Longrightarrow> splitlines_from acc (bs @ rest) = splitlines_from acc bs @ splitlines_from [] rest"
proof (induction acc bs rule: splitlines_from.induct)
  case (2 acc b bs)
  show ?case
  proof (cases "b = 13")
    case True
    with "2.prems" obtain c cs where "bs = c # cs" by (cases bs) auto
    with 2 True show ?thesis by (cases "c = 10"; cases "cs = []") auto
  next
    case False
    with 2 show ?thesis by (cases "bs = []") auto
  qed
qed simp

lemma splitlines_append: "bs \<noteq> [] \<Longrightarrow> last bs = 10 \<Longrightarrow> splitlines (bs @ rest) = splitlines bs @ splitlines rest"
  by (simp add: splitlines_def splitlines_from_append)

lemma splitlines_from_one_line: "one_line acc \<Longrightarrow> list_all one_line (splitlines_from acc bs)"
  by (induction acc bs rule: splitlines_from.induct) (auto simp: one_line_def split: list.splits)

lemma splitlines_one_line: "list_all one_line (splitlines bs)"
  by (simp add: splitlines_def splitlines_from_one_line one_line_def)

lemma join_lines: "ls \<noteq> [] \<Longrightarrow> join [10] ls @ [10] = concat (map (\<lambda>l. l @ [10]) ls)"
  by (induction "[10 :: nat]" ls rule: join.induct) auto

lemma splitlines_join: "list_all one_line ls \<Longrightarrow> ls \<noteq> [] \<Longrightarrow> splitlines (join [10] ls @ [10]) = ls"
  using splitlines_lines [of ls "[]"] by (simp add: join_lines)

lemma truncated_line:
  assumes "data \<noteq> []" and "last data = 10" and "5 \<le> length (last (splitlines data))"
  shows "last (take (length data - 5) data) \<noteq> 10"
proof -
  obtain ls l pre brk where l: "splitlines data = ls @ [l]" "data = pre @ l @ brk" "one_line l" "brk \<in> {[10], [13, 10]}"
    using splitlines_from_last [OF assms(1,2), of "[]"] by (auto simp: splitlines_def one_line_def)
  let ?n = "length l - (5 - length brk)"
  have len: "5 \<le> length l" using assms(3) l(1) by simp
  have "take (length data - 5) data = pre @ take ?n l"
    using l(2,4) len by auto
  moreover have "take ?n l \<noteq> []" using len l(4) by auto
  moreover have "set (take ?n l) \<subseteq> set l" by (rule set_take_subset)
  ultimately show ?thesis using l(3) unfolding one_line_def by (metis last_appendR last_in_set subsetD)
qed

section \<open>The shortest object with a member\<close>

lemma scan_members_length: "scan_members fr kvs s = Inr (kvs', r) \<Longrightarrow> 5 \<le> length s"
proof -
  assume run: "scan_members fr kvs s = Inr (kvs', r)"
  obtain c q where s: "s = c # q" using run by (cases s) (auto simp: scan_members.simps json_error_def)
  have c: "c = 34" using run s by (auto simp: scan_members.simps json_error_def split: if_splits)
  note run = run [unfolded s c scan_members_eq]
  obtain k r1 where k: "scan_string q = Inr (k, r1)" using run by (auto simp: bindE_eq_Inr)
  obtain d r2 where d: "skip r1 = d # r2" using run k by (cases "skip r1") (auto simp: json_error_def)
  obtain v r3 where v: "scan_value fr (skip r2) = Inr (v, r3)"
    using run k d by (auto simp: bindE_eq_Inr json_error_def split: if_splits)
  have "skip r3 \<noteq> []" using run k d v by (auto simp: json_error_def split: if_splits)
  then have "1 \<le> length r3" using length_skip [of r3] by (cases r3) auto
  then show ?thesis
    using s scan_string_shorter [OF k] scan_shorter(1) [OF v] length_skip [of r1] length_skip [of r2] d by simp
qed

lemma scan_dict_length:
  assumes "scan_value (unique_object, fr) s = Inr (PDict (kv # kvs), r)"
  shows "6 \<le> length s"
proof -
  obtain c q where s: "s = c # q" using assms by (cases s) (auto simp: scan_value.simps json_error_def)
  note run = assms [unfolded s scan_value_Cons]
  have "\<exists>kvs' rest. scan_members (unique_object, fr) [] (skip q) = Inr (kvs', rest)"
    using run scan_atom_dict by (auto simp: bindE_eq_Inr json_error_def unique_object_def split: if_splits list.splits)
  then have "5 \<le> length (skip q)" using scan_members_length by blast
  with s length_skip [of q] show ?thesis by simp
qed

lemma utf8_line_length:
  assumes "utf8_line b" and "json_loads fr od b = Inr (PDict (kv # kvs))"
  shows "6 \<le> length b"
proof -
  obtain s where s: "plain_utf8 b" "decode_utf8 b = Inr s"
    using assms(1) by (auto simp: utf8_line_def split: sum.splits)
  with assms(2) obtain r where "scan_value (unique_object, fr) (skip s) = Inr (PDict (kv # kvs), r)"
    by (auto simp: json_loads_def decode_text_def bindE_eq_Inr json_error_def split: if_splits)
  then have "6 \<le> length s" using scan_dict_length length_skip [of s] order_trans by blast
  moreover have "concat (map utf8_pass s) = b" "list_all (\<lambda>c. c < 0x110000) s"
    using s(2) by (auto simp: decode_utf8_def Let_def split: if_splits)
  moreover have "1 \<le> length (utf8_pass c)" if "c < 0x110000" for c
    using that by (auto simp: utf8_pass_def utf8_char_def is_surrogate_def)
  then have "list_all (\<lambda>c. c < 0x110000) s \<Longrightarrow> length s \<le> length (concat (map utf8_pass s))" for s
    by (induction s) force+
  ultimately show ?thesis by fastforce
qed

section \<open>Malformed rows\<close>

definition malformed :: "'a res \<Rightarrow> bool" where
  "malformed r \<longleftrightarrow> (\<exists>e. r = Inl e \<and> is_value_error e)"

lemma malformed_bindI: "malformed m \<Longrightarrow> malformed (bindE m f)"
  by (auto simp: malformed_def)

lemma malformed_bindE: "m = Inr x \<Longrightarrow> malformed (f x) \<Longrightarrow> malformed (bindE m f)"
  by simp

lemma malformed_require: "(c \<Longrightarrow> malformed (f ())) \<Longrightarrow> malformed (bindE (require c msg) f)"
  by (cases c) (auto simp: malformed_def require_def is_value_error_def)

lemma malformed_fields: "Py_Values.fields v names \<noteq> Inr () \<Longrightarrow> malformed (Py_Values.fields v names)"
  by (auto simp: malformed_def Py_Values.fields_def guardE_def is_value_error_def split: if_splits)

lemma malformed_load:
  assumes "mapE loads (splitlines data) = Inr rows" and "malformed (load_rows rows)"
  shows "malformed (load loads data)"
  unfolding load_def using assms by (intro malformed_require) simp

lemma malformed_terminal:
  assumes "Py_Values.fields (last rows) [''kind'', ''events''] \<noteq> Inr ()"
  shows "malformed (load_rows rows)"
  unfolding load_rows_def Let_def using malformed_fields [OF assms] by (intro malformed_require malformed_bindI)

lemma mapE_first_error:
  assumes "\<And>x. x \<in> set xs \<Longrightarrow> \<exists>y. f x = Inr y" and "f x = Inl e"
  shows "mapE f (xs @ x # zs) = Inl e"
  using assms(1) by (induction xs) (auto simp: assms(2) bindE_eq_Inl)

lemma mapE_append: "mapE f (xs @ ys) = bindE (mapE f xs) (\<lambda>as. bindE (mapE f ys) (\<lambda>bs. Inr (as @ bs)))"
proof (induction xs)
  case Nil
  then show ?case by (cases "mapE f ys") auto
qed (auto simp: bindE_assoc)

lemma mapE_snoc_eq_Inr:
  "mapE f xs = Inr (ys @ [y]) \<longleftrightarrow> (\<exists>front x. xs = front @ [x] \<and> mapE f front = Inr ys \<and> f x = Inr y)"
proof
  assume run: "mapE f xs = Inr (ys @ [y])"
  then obtain front x where "xs = front @ [x]" by (cases xs rule: rev_cases) auto
  with run show "\<exists>front x. xs = front @ [x] \<and> mapE f front = Inr ys \<and> f x = Inr y"
    by (auto simp: mapE_append bindE_eq_Inr)
qed (auto simp: mapE_append)

lemma event_not_terminal:
  assumes "load_event_ok c n i e"
  shows "Py_Values.fields e [''kind'', ''events''] \<noteq> Inr ()"
proof
  assume "Py_Values.fields e [''kind'', ''events''] = Inr ()"
  then obtain kvs where e: "e = PDict kvs" "fst ` set kvs = lit ` set [''kind'', ''events'']" by (auto simp: fields_eq_Inr)
  have "map_of kvs (lit ''seq'') \<noteq> None" using assms e(1) by (auto simp: load_event_ok_def getitem_eq_Inr)
  then have "lit ''seq'' \<in> lit ` set [''kind'', ''events'']" using e(2) by (metis map_of_eq_None_iff)
  then show False unfolding lit_in_image by simp
qed

lemma transfer_rejected:
  assumes "load_event_ok c n i e" and "kind_is ''campaign'' e = Inr True" and "setitem ''kind'' (S ''transfer'') e = Inr e'"
  shows "load_event c n (int i, e') = Inl (ValueError ''Unknown event'')"
proof -
  obtain kvs where e: "e = PDict kvs" and kind: "map_of kvs (lit ''kind'') = Some (S ''campaign'')"
    using assms(2) by (auto simp: kind_is_def bindE_eq_Inr getitem_eq_Inr is_lit_def split: pyval.splits)
  then have e': "e' = PDict (dict_set (lit ''kind'') (S ''transfer'') kvs)" using assms(3) by (simp add: setitem_def)
  have look: "getitem e' k = (if k = ''kind'' then Inr (S ''transfer'') else getitem e k)" for k
    using getitem_setitem [OF assms(3)] by simp
  have keys: "fst ` set (dict_set (lit ''kind'') (S ''transfer'') kvs) = fst ` set kvs"
    using kind by (metis dict_set_keys domI dom_map_of_conv_image_fst insert_absorb)
  have "py_in k e' = py_in k e" if "k \<noteq> ''kind''" for k
    using that by (simp add: py_in_def e e' has_key_def map_of_dict_set)
  moreover have "Py_Values.fields e' names = Inr () \<longleftrightarrow> Py_Values.fields e names = Inr ()" for names
    unfolding fields_eq_Inr by (simp add: e e' keys)
  moreover have "getitem e ''kind'' = Inr (S ''campaign'')" using kind by (simp add: e getitem_def)
  moreover have "dict_get e' ''seq'' PNone = Inr (PInt (int i))"
    using assms(1) look by (simp add: dict_get_PInt load_event_ok_def)
  moreover obtain b where "observe_context e = Inr b" using assms(1) by (auto simp: load_event_ok_def observation_def bindE_eq_Inr)
  then have "observe_context e' = Inr b"
    using calculation look by (auto simp: observe_context_def bindE_eq_Inr require_eq_Inr split: if_splits)
  moreover have "observe_node e' = Inl (ValueError ''Unknown event'')"
    using look by (simp add: observe_node_def in_set_def EVENTS_def require_def)
  moreover have "i \<noteq> 0" "Suc i \<noteq> n" using assms(1) calculation(3) by (auto simp: load_event_ok_def kind_is_def)
  then have "i \<noteq> 0" "int i \<noteq> int n - 1" by linarith+
  ultimately show ?thesis
    using assms(1) look
    by (simp add: load_event_def load_event_ok_def kind_is_def observation_def require_def)
qed

lemma first_index_found:
  assumes "\<And>x. x \<in> set xs \<Longrightarrow> \<exists>b. p x = Inr b" and "\<exists>x \<in> set xs. p x = Inr True"
  shows "\<exists>i < length xs. first_index p xs = Inr i \<and> p (xs ! i) = Inr True"
  using assms
proof (induction xs)
  case (Cons x xs)
  obtain b where b: "p x = Inr b" using Cons.prems(1) by auto
  show ?case
  proof (cases b)
    case False
    then obtain i where "i < length xs" "first_index p xs = Inr i" "p (xs ! i) = Inr True" using Cons b by auto
    with b False show ?thesis by (intro exI [of _ "Suc i"]) simp
  qed (use b in auto)
qed simp

lemma json_ok_setitem: "json_ok fr e \<Longrightarrow> wf_pstr (lit k) \<Longrightarrow> json_ok fr v \<Longrightarrow> setitem k v e = Inr e' \<Longrightarrow> json_ok fr e'"
proof (cases e)
  case (PDict kvs)
  assume *: "json_ok fr e" "wf_pstr (lit k)" "json_ok fr v" "setitem k v e = Inr e'"
  have "list_all P kvs \<Longrightarrow> P (lit k, v) \<Longrightarrow> list_all P (dict_set (lit k) v kvs)" if "\<And>k v v'. P (k, v) \<Longrightarrow> True" for P
    by (induction kvs) auto
  then show ?thesis using * PDict by (auto simp: setitem_def dict_set_distinct)
qed (auto simp: setitem_def)

lemma malformed_event:
  assumes "2 \<le> length mid" "length mid \<le> 1000"
    and "kind_is ''init'' (hd mid) = Inr True" "kind_is ''end'' (last mid) = Inr True"
    and "mapE (load_event c (length mid)) (enum_from 0 mid) = Inl (ValueError msg)"
  shows "malformed (load_rows ((if c then CONTEXT_HEADER else HEADER) # mid @ [terminal_row (length mid)]))"
proof -
  have "Py_Values.fields (terminal_row (length mid)) [''kind'', ''events''] = Inr ()" by (simp add: terminal_row_def dict_simps)
  then show ?thesis using assms headers_differ
    by (cases c) (simp_all add: load_rows_def Let_def require_def andE_def butlast_append malformed_def is_value_error_def)
qed

lemma trace_ends:
  assumes "trace_ok c events"
  shows "kind_is ''init'' (hd events) = Inr True" "kind_is ''end'' (last events) = Inr True"
    and "py_in ''proposal_context'' (hd events) = Inr c"
proof -
  have ne: "events \<noteq> []" and len: "length events - 1 < length events" using assms by (auto simp: trace_ok_def)
  have "load_event_ok c (length events) 0 (hd events)" "load_event_ok c (length events) (length events - 1) (last events)"
    using assms ne len unfolding trace_ok_def hd_conv_nth [OF ne] last_conv_nth [OF ne] by simp_all
  then show "kind_is ''init'' (hd events) = Inr True" "kind_is ''end'' (last events) = Inr True"
    "py_in ''proposal_context'' (hd events) = Inr c"
    using ne by (auto simp: load_event_ok_def)
qed

text \<open>The trace with an unknown event: it can be written, and is rejected when it is loaded.\<close>

lemma unsupported_rejected:
  assumes ok: "trace_ok c events" and json: "list_all (json_ok fr) events"
  shows "\<exists>changed rows. unsupported events = Inr changed \<and> write_rows changed = Inr rows \<and> list_all (json_ok fr) rows
    \<and> malformed (load_rows rows)"
proof -
  have each: "load_event_ok c (length events) i (events ! i)" if "i < length events" for i
    using ok that by (simp add: trace_ok_def)
  have "\<exists>k. kind_is ''campaign'' e = Inr k" if "e \<in> set events" for e
    using that each by (fastforce simp: in_set_conv_nth load_event_ok_def kind_is_eq_Inr)
  then obtain i where i: "i < length events" "first_index (kind_is ''campaign'') events = Inr i"
    "kind_is ''campaign'' (events ! i) = Inr True"
    using first_index_found [of events] ok unfolding trace_ok_def by blast
  obtain e' where e': "setitem ''kind'' (S ''transfer'') (events ! i) = Inr e'"
    using i(3) by (auto simp: kind_is_def bindE_eq_Inr getitem_eq_Inr setitem_def)
  let ?changed = "events[i := e']"
  have ends: "i \<noteq> 0" "Suc i \<noteq> length events"
    using each [OF i(1)] i(3) by (auto simp: load_event_ok_def kind_is_eq_Inr is_lit_def split: pyval.splits)
  have changed: "unsupported events = Inr ?changed" by (simp add: unsupported_def i update_nth_def e')
  have "renumber ?changed = Inr ?changed"
  proof (rule renumber_same)
    fix k assume "k < length ?changed"
    then show "getitem (?changed ! k) ''seq'' = Inr (PInt (int k))"
      using each [of k] getitem_setitem [OF e', of "''seq''"] by (cases "k = i") (auto simp: load_event_ok_def)
  qed
  moreover have hd: "hd ?changed = hd events" "last ?changed = last events"
    using ends i(1) last_list_update [of events i e'] by (cases events; cases i; fastforce)+
  ultimately have rows: "write_rows ?changed = Inr ((if c then CONTEXT_HEADER else HEADER) # ?changed @ [terminal_row (length events)])"
    using i(1) trace_ends(3) [OF ok] by (auto simp: write_rows_def)
  have "json_ok fr e'" using json i(1) by (intro json_ok_setitem [OF _ _ _ e']) (simp_all add: list_all_length wf_pstr_lit)
  then have json': "list_all (json_ok fr) ?changed"
    using json i(1) unfolding list_all_length by (metis length_list_update nth_list_update_eq nth_list_update_neq)
  have "mapE (load_event c (length events)) (enum_from 0 ?changed) = Inl (ValueError ''Unknown event'')"
    unfolding upd_conv_take_nth_drop [OF i(1)] enum_from_append enum_from.simps
  proof (rule mapE_first_error)
    show "load_event c (length events) (0 + int (length (take i events)), e') = Inl (ValueError ''Unknown event'')"
      using transfer_rejected [OF each [OF i(1)] i(3) e'] i(1) by simp
    fix p assume "p \<in> set (enum_from 0 (take i events))"
    then obtain k where "k < i" "p = (int k, events ! k)" using i(1) by (auto dest!: set_enum_from)
    then show "\<exists>y. load_event c (length events) p = Inr y" using each [of k] i(1) load_event_eq_Inr by auto
  qed
  then have "malformed (load_rows ((if c then CONTEXT_HEADER else HEADER) # ?changed @ [terminal_row (length ?changed)]))"
    using ok hd trace_ends [OF ok] by (intro malformed_event) (auto simp: trace_ok_def)
  with changed rows json' show ?thesis
    using ok json_ok_headers json_ok_terminal by (auto simp: trace_ok_def)
qed

section \<open>Malformed files\<close>

text \<open>
  C35: every malformed file \<open>negatives\<close> makes from an accepted strict UTF-8 trace file is rejected
  with a \<open>ValueError\<close>, so that part of \<open>negatives\<close> passes for every accepted trace: the empty
  file, the file without its last five bytes, without its terminal line, with an unknown event
  (which can always be written), and with an extra line.
\<close>

theorem structural_negatives_rejected:
  assumes "float_printer fr" and "utf8_file data" and "load (json_loads fr od) data = Inr events"
  shows "\<exists>changed t. unsupported events = Inr changed \<and> write_events changed = Inr t
    \<and> list_all (\<lambda>(name, bytes). malformed (load (json_loads fr od) bytes)) (structural_cases data t)"
proof -
  let ?loads = "json_loads fr od"
  obtain rows where data: "data \<noteq> []" "last data = 10" "mapE ?loads (splitlines data) = Inr rows" "load_rows rows = Inr events"
    using assms(3) by (auto simp: load_frames load_with_eq_Inr)
  then obtain header terminal c where rows: "rows = header # events @ [terminal]" and ok: "trace_ok c events"
    and terminal: "Py_Values.fields terminal [''kind'', ''events''] = Inr ()"
    by (auto simp: load_rows_eq_Inr)
  have json: "list_all (json_ok fr) events"
    using utf8_file_good [OF assms(1,2) data(3)] rows by (auto simp: list_all_iff good_def)
  have empty: "malformed (load ?loads [])" by (simp add: load_def require_def malformed_def is_value_error_def)
  obtain changed crows where unsup: "unsupported events = Inr changed" "write_rows changed = Inr crows"
      "list_all (json_ok fr) crows" "malformed (load_rows crows)"
    using unsupported_rejected [OF ok json] by blast
  have unsupported: "malformed (load ?loads (file_text crows))"
    using malformed_load [OF loads_file_text [OF unsup(3)] unsup(4)] .
  obtain front line where lines: "splitlines data = front @ [line]" "mapE ?loads front = Inr (header # events)" "?loads line = Inr terminal"
    using data(3) mapE_snoc_eq_Inr [of ?loads "splitlines data" "header # events" terminal] by (auto simp: rows)
  obtain members where "terminal = PDict members" "fst ` set members = lit ` set [''kind'', ''events'']"
    using terminal unfolding fields_eq_Inr by blast
  then obtain kv kvs where "terminal = PDict (kv # kvs)" by (cases members) auto
  with lines have "6 \<le> length line"
    using assms(2) by (intro utf8_line_length [of line fr od kv kvs]) (auto simp: utf8_file_def)
  then have "last (take (length data - 5) data) \<noteq> 10" using lines by (intro truncated_line data) simp
  then have truncated: "malformed (load ?loads (take (length data - 5) data))"
    by (auto simp: load_def require_def malformed_def is_value_error_def)
  have "front \<noteq> []" using lines(2) by auto
  then have "splitlines (join [10] front @ [10]) = front"
    using splitlines_one_line [of data] lines(1) by (intro splitlines_join) auto
  moreover have "Py_Values.fields (last (header # events)) [''kind'', ''events''] \<noteq> Inr ()"
    using event_not_terminal [of c "length events" "length events - 1" "last events"] ok
    by (auto simp: trace_ok_def last_conv_nth split: if_splits)
  ultimately have missing: "malformed (load ?loads (join [10] (butlast (splitlines data)) @ [10]))"
    using malformed_load [of ?loads _ "header # events"] malformed_terminal lines by simp
  have "mapE ?loads (splitlines (data @ lit ''{}'' @ [10])) = Inr (rows @ [PDict []])"
    using data loads_file_text [of fr "[PDict []]" od] by (simp add: splitlines_append mapE_append file_text_def dumps_PDict lit_def)
  then have suffix: "malformed (load ?loads (data @ lit ''{}'' @ [10]))"
    by (rule malformed_load) (intro malformed_terminal, simp add: fields_eq_Inr)
  show ?thesis
    using unsup(1,2) empty truncated missing unsupported suffix
    by (auto simp: write_events_def structural_cases_def file_text_def)
qed

theorem structural_negatives_rejected_witness:
  "\<exists>changed t. unsupported example_trace = Inr changed \<and> write_events changed = Inr t
    \<and> list_all (\<lambda>(name, bytes). malformed (load (json_loads one_float no_other) bytes)) (structural_cases example_file t)"
  by (rule structural_negatives_rejected [OF float_printer_one example_files_utf8(1) example_file_loaded])

end
