(* ===== verification/Read_Validation.thy ===== *)
theory Read_Validation
  imports Trace_Negatives
begin

text \<open>
  The verdicts of \<open>validate\<close> in both trace checkers: what a pass establishes about the trace in
  the file, and that a \<open>ConformanceError\<close> is a verdict of TLC and not a malformed trace.
\<close>

section \<open>Projections can be written and read back\<close>

lemma json_ok_getitem: "json_ok fr obj \<Longrightarrow> getitem obj k = Inr v \<Longrightarrow> json_ok fr v"
  by (auto simp: getitem_eq_Inr list_all_iff dest!: map_of_SomeD)

lemma json_ok_delitem: "json_ok fr obj \<Longrightarrow> delitem k obj = Inr obj' \<Longrightarrow> json_ok fr obj'"
  by (auto simp: delitem_def dict_del_def list_all_iff distinct_map_filter split: pyval.splits if_splits)

lemma json_ok_update_item:
  assumes "json_ok fr obj" and "update_item k f obj = Inr obj'"
    and "\<And>v v'. getitem obj k = Inr v \<Longrightarrow> f v = Inr v' \<Longrightarrow> json_ok fr v'"
  shows "json_ok fr obj'"
proof -
  obtain v v' where v: "getitem obj k = Inr v" "f v = Inr v'" "setitem k v' obj = Inr obj'"
    using assms(2) by (auto simp: update_item_def bindE_eq_Inr)
  then show ?thesis using assms(3) by (intro json_ok_setitem [OF assms(1) wf_pstr_lit _ v(3)]) blast
qed

lemma json_ok_update_each:
  assumes "json_ok fr obj" and "update_each f obj = Inr obj'" and "\<And>v v'. json_ok fr v \<Longrightarrow> f v = Inr v' \<Longrightarrow> json_ok fr v'"
  shows "json_ok fr obj'"
proof (cases obj)
  case (PList xs)
  then obtain ys where ys: "mapE f xs = Inr ys" "obj' = PList ys" using assms(2) by (auto simp: update_each_def bindE_eq_Inr)
  have "json_ok fr y" if "y \<in> set ys" for y
    using mapE_set [OF ys(1) that] assms(1,3) PList by (metis json_ok.simps(4) list_all_iff)
  then show ?thesis by (simp add: ys(2) list_all_iff)
qed (use assms(1,2) in \<open>auto simp: update_each_def bindE_eq_Inr split: if_splits\<close>)

lemma json_ok_uncontext:
  assumes "json_ok fr obj" and "update_item k (update_each (delitem ''context'')) obj = Inr obj'"
  shows "json_ok fr obj'"
  using assms
proof (rule json_ok_update_item)
  fix v v'
  assume "getitem obj k = Inr v" and each: "update_each (delitem ''context'') v = Inr v'"
  then have "json_ok fr v" using assms(1) json_ok_getitem by blast
  then show "json_ok fr v'" using each by (rule json_ok_update_each) (rule json_ok_delitem)
qed

lemma json_ok_project:
  assumes e: "json_ok fr e" and p: "project e = Inr p"
  shows "json_ok fr p"
proof -
  obtain r1 kind reading r2 r3 r4 where steps: "delitem ''reads'' e = Inr r1"
    "(if reading then bindE (setitem ''kind'' (if is_lit kind ''read'' then S ''beat'' else S ''ready'') r1) (setitem ''value'' (S ''''))
      else Inr r1) = Inr r2"
    "update_item ''pending'' (update_each (delitem ''context'')) r2 = Inr r3"
    "update_item ''network'' (update_each (delitem ''context'')) r3 = Inr r4"
    "update_item ''input'' (\<lambda>inp. if inp \<noteq> PNone then delitem ''context'' inp else Inr inp) r4 = Inr p"
    using p unfolding project_def bindE_eq_Inr by blast
  have r1: "json_ok fr r1" using json_ok_delitem [OF e steps(1)] .
  have lit: "json_ok fr (S s)" for s by (simp add: wf_pstr_lit)
  have "json_ok fr r2"
  proof (cases reading)
    case True
    then obtain r where r: "setitem ''kind'' (if is_lit kind ''read'' then S ''beat'' else S ''ready'') r1 = Inr r"
      "setitem ''value'' (S '''') r = Inr r2" using steps(2) by (auto simp: bindE_eq_Inr)
    have "json_ok fr r" by (rule json_ok_setitem [OF r1 wf_pstr_lit _ r(1)]) (simp add: wf_pstr_lit)
    then show ?thesis by (rule json_ok_setitem [OF _ wf_pstr_lit lit r(2)])
  qed (use r1 steps(2) in simp)
  then have "json_ok fr r3" using steps(3) by (rule json_ok_uncontext)
  then have r4: "json_ok fr r4" using steps(4) by (rule json_ok_uncontext)
  show ?thesis using r4 steps(5)
  proof (rule json_ok_update_item)
    fix v v'
    assume v: "getitem r4 ''input'' = Inr v" and i: "(if v \<noteq> PNone then delitem ''context'' v else Inr v) = Inr v'"
    have "json_ok fr v" using json_ok_getitem [OF r4 v] .
    then show "json_ok fr v'" using i json_ok_delitem by (cases "v = PNone") auto
  qed
qed

section \<open>A pass of the consensus checker\<close>

text \<open>TLC accepted the instructions of these events.\<close>

definition conforms :: "(pstr \<Rightarrow> pstr \<Rightarrow> pstr \<Rightarrow> tlc_run option) \<Rightarrow> pstr \<Rightarrow> pyval list \<Rightarrow> bool" where
  "conforms tlc cp events \<longleftrightarrow> (\<exists>steps run. instructions events = Inr steps \<and> tlc cp (steps_ndjson steps) config = Some run
     \<and> completed (tlc_returncode run) (tlc_text run) (length steps))"

lemma conclude_eq_Inr: "conclude run n = Inr u \<longleftrightarrow> completed (tlc_returncode run) (tlc_text run) n"
  by (auto simp: conclude_def)

lemma conclude_read_eq_Inr: "conclude_read run n = Inr u \<longleftrightarrow> completed (tlc_returncode run) (tlc_text run) n"
  by (auto simp: conclude_read_def)

lemma case_tlc_eq_Inr: "(case x of None \<Rightarrow> Inl e | Some y \<Rightarrow> f y) = Inr u \<longleftrightarrow> (\<exists>y. x = Some y \<and> f y = Inr u)"
  by (cases x) auto

lemma validate_eq_Inr:
  "validate loads cp tlc data = Inr u \<longleftrightarrow> (\<exists>events c. load loads data = Inr events \<and> cp = Inr c \<and> conforms tlc c events)"
  unfolding validate_def bindE_eq_Inr case_tlc_eq_Inr conclude_eq_Inr conforms_def by blast

text \<open>The rows of the consensus trace \<open>validate\<close> writes for a loaded read trace.\<close>

definition consensus_rows :: "pyval list \<Rightarrow> pyval list" where
  "consensus_rows projected = CONTEXT_HEADER # projected @ [terminal_row (length projected)]"

lemma projection_written:
  assumes ok: "read_trace_ok events" and projected: "mapE project events = Inr projected"
  shows "write_events projected = Inr (file_text (consensus_rows projected))"
    and "load_rows (consensus_rows projected) = Inr projected \<longleftrightarrow> has_kind ''campaign'' events \<and> has_kind ''propose'' events"
proof -
  obtain projected' where projected': "mapE project events = Inr projected'" "length projected' = length events"
    and live: "trace_ok True projected' \<longleftrightarrow> has_kind ''campaign'' events \<and> has_kind ''propose'' events"
    and each: "\<forall>i < length projected'. load_event_ok True (length projected') i (projected' ! i)"
    using projected_trace [OF ok] .
  then have same: "projected' = projected" using projected by simp
  have "projected \<noteq> []" using projected'(2) same ok by (auto simp: read_trace_ok_def)
  then have "write_rows projected = Inr (consensus_rows projected)"
    using write_rows_events [OF each] same by (simp add: consensus_rows_def)
  then show "write_events projected = Inr (file_text (consensus_rows projected))"
    by (simp add: write_events_def file_text_def)
  have "Py_Values.fields (terminal_row (length projected)) [''kind'', ''events''] = Inr ()"
    by (simp add: terminal_row_def dict_simps)
  then show "load_rows (consensus_rows projected) = Inr projected \<longleftrightarrow> has_kind ''campaign'' events \<and> has_kind ''propose'' events"
    unfolding consensus_rows_def load_rows_split live [symmetric] same using headers_differ by auto
qed

lemma consensus_rows_json:
  assumes "read_trace_ok events" and "list_all (json_ok fr) events" and projected: "mapE project events = Inr projected"
  shows "list_all (json_ok fr) (consensus_rows projected)"
proof -
  have "list_all (json_ok fr) projected"
    using assms(2) mapE_set [OF projected] json_ok_project by (metis list_all_iff)
  moreover have "length projected \<le> 1000" using assms(1) mapE_length [OF projected] by (simp add: read_trace_ok_def)
  ultimately show ?thesis using json_ok_headers json_ok_terminal by (simp add: consensus_rows_def)
qed

lemma written_projection:
  assumes fr: "float_printer fr" and utf8: "utf8_file data" and load: "load_read (json_loads fr od) data = Inr events"
    and projected: "mapE project events = Inr projected" and w: "write_events projected = Inr t"
    and load': "load (json_loads fr od) t = Inr events'"
  shows "events' = projected"
proof -
  obtain rows where rows: "mapE (json_loads fr od) (splitlines data) = Inr rows" "load_read_rows rows = Inr events"
    using load by (auto simp: load_frames load_with_eq_Inr)
  have ok: "read_trace_ok events" and events: "list_all (json_ok fr) events"
    using rows(2) utf8_file_good [OF fr utf8 rows(1)] by (auto simp: load_read_rows_eq_Inr list_all_iff good_def)
  have "mapE (json_loads fr od) (splitlines t) = Inr (consensus_rows projected)"
    using loads_file_text [OF consensus_rows_json [OF ok events projected]] w projection_written(1) [OF ok projected] by simp
  then show ?thesis using load' by (auto simp: load_frames load_with_eq_Inr load_rows_split consensus_rows_def)
qed

text \<open>
  C25: the consensus projection of a read trace is a consensus trace: every event of a read trace
  loaded from a UTF-8 file has a projection, \<open>write_events\<close> writes the projections to a file, and the
  consensus checker's \<open>load\<close> accepts that file, with the same events, exactly when the read trace
  has a campaign and a proposal and the written file has at most 16 000 000 bytes.
\<close>

theorem projection_accepted:
  assumes "float_printer fr" and "utf8_file data" and "load_read (json_loads fr od) data = Inr events"
  shows "\<exists>projected t. mapE project events = Inr projected \<and> write_events projected = Inr t
    \<and> (load (json_loads fr od) t = Inr projected \<longleftrightarrow>
        has_kind ''campaign'' events \<and> has_kind ''propose'' events \<and> length t \<le> 16000000)"
proof -
  obtain rows where rows: "mapE (json_loads fr od) (splitlines data) = Inr rows" "load_read_rows rows = Inr events"
    using assms(3) by (auto simp: load_frames load_with_eq_Inr)
  have ok: "read_trace_ok events" and events: "list_all (json_ok fr) events"
    using rows(2) utf8_file_good [OF assms(1,2) rows(1)] by (auto simp: load_read_rows_eq_Inr list_all_iff good_def)
  obtain projected where projected: "mapE project events = Inr projected" using projected_trace [OF ok] by blast
  let ?t = "file_text (consensus_rows projected)"
  have "mapE (json_loads fr od) (splitlines ?t) = Inr (consensus_rows projected)"
    by (rule loads_file_text [OF consensus_rows_json [OF ok events projected]])
  moreover have "?t \<noteq> [] \<and> last ?t = 10" using file_text_ends [of "consensus_rows projected"] by (simp add: consensus_rows_def)
  ultimately have "load (json_loads fr od) ?t = Inr projected \<longleftrightarrow>
      length ?t \<le> 16000000 \<and> load_rows (consensus_rows projected) = Inr projected"
    by (auto simp: load_frames load_with_eq_Inr)
  then show ?thesis using projected projection_written [OF ok projected] by blast
qed

theorem projection_accepted_witness:
  "\<exists>projected t. mapE project example_read_trace = Inr projected \<and> write_events projected = Inr t
    \<and> (load (json_loads one_float no_other) t = Inr projected \<longleftrightarrow>
        has_kind ''campaign'' example_read_trace \<and> has_kind ''propose'' example_read_trace \<and> length t \<le> 16000000)"
  by (rule projection_accepted [OF float_printer_one example_files_utf8(2) example_read_file_loaded])

lemma validate_read_accepts:
  assumes "float_printer fr" and "utf8_file data"
    and "validate_read uword (json_loads fr od) cp tlc_trace tlc_read tlc_history data = Inr ()"
  shows "\<exists>events projected steps history c run. load_read (json_loads fr od) data = Inr events
    \<and> mapE project events = Inr projected \<and> cp = Inr c \<and> conforms tlc_trace c projected
    \<and> read_instructions events = Inr steps \<and> tlc_read c (steps_ndjson steps) read_cfg = Some run
    \<and> completed (tlc_returncode run) (tlc_text run) (length events)
    \<and> extract_history events = Inr history \<and> linearizable (history_of (PList history))"
proof -
  obtain events c projected t steps run history where v: "load_read (json_loads fr od) data = Inr events" "cp = Inr c"
    "mapE project events = Inr projected" "write_events projected = Inr t" "validate (json_loads fr od) cp tlc_trace t = Inr ()"
    "read_instructions events = Inr steps" "tlc_read c (steps_ndjson steps) read_cfg = Some run"
    "completed (tlc_returncode run) (tlc_text run) (length steps)" "extract_history events = Inr history"
    "check_history uword (json_loads fr od) cp tlc_history (PList history) = Inr True"
    using assms(3) unfolding validate_read_def bindE_eq_Inr case_tlc_eq_Inr conclude_read_eq_Inr
    by (auto split: if_splits)
  obtain events' where "load (json_loads fr od) t = Inr events'" and "conforms tlc_trace c events'"
    using v(2,5) by (auto simp: validate_eq_Inr)
  moreover have "length steps = length events"
    using v(6) by (auto simp: read_instructions_def dest!: mapE_length)
  ultimately show ?thesis
    using v written_projection [OF assms(1,2) v(1,3,4)] check_history_sound by metis
qed

text \<open>
  C5: a read trace file passes only if its register history is linearizable: the checker then has
  loaded the events of the file, TLC has accepted the consensus instructions of exactly their
  projections and the steps of the read model, and the history extracted from them has a
  linearization, whatever the TLC run on it printed.
\<close>

theorem validate_read_sound:
  assumes "float_printer fr" and "utf8_file data"
    and "validate_read uword (json_loads fr od) cp tlc_trace tlc_read tlc_history data = Inr ()"
  shows "\<exists>events projected steps history c run. load_read (json_loads fr od) data = Inr events
    \<and> mapE project events = Inr projected \<and> cp = Inr c \<and> conforms tlc_trace c projected
    \<and> read_instructions events = Inr steps \<and> tlc_read c (steps_ndjson steps) read_cfg = Some run
    \<and> completed (tlc_returncode run) (tlc_text run) (length events)
    \<and> extract_history events = Inr history \<and> linearizable (history_of (PList history))"
  using assms by (rule validate_read_accepts)

text \<open>
  A run on the example read trace: TLC accepts the consensus instructions and the read steps, and
  dumps the run of the history model that selects the three operations in order.
\<close>

definition accepting_log :: "nat \<Rightarrow> pstr" where
  "accepting_log n = marker ''RAFTZ_TRACE_COMPLETE'' n @ 10 # exhausted_log"

definition accepting_tlc :: "nat \<Rightarrow> pstr \<Rightarrow> pstr \<Rightarrow> pstr \<Rightarrow> tlc_run option" where
  "accepting_tlc n cp ndjson cfg = Some \<lparr>tlc_returncode = 0, tlc_text = accepting_log n, tlc_witness = None\<rparr>"

lemma accepting_log_completed: "completed 0 (accepting_log n) n"
proof -
  have "10 \<notin> set (marker ''RAFTZ_TRACE_COMPLETE'' n)"
    using digits_no_newline [of n] by (simp add: marker_def lit_def)
  moreover have "summary_line (marker ''RAFTZ_TRACE_COMPLETE'' n) = None"
    by (simp add: summary_line_def digits_then_def marker_def lit_def is_digit_def)
  ultimately have "summaries (accepting_log n) = summaries exhausted_log"
    by (simp add: summaries_def accepting_log_def tlc_lines_append map_filter_simps)
  moreover have "contains (marker ''RAFTZ_TRACE_COMPLETE'' n) (accepting_log n)"
    using containsI [of _ "[]"] by (simp add: accepting_log_def)
  moreover have "contains no_error_text (accepting_log n)"
    using containsI [of no_error_text "marker ''RAFTZ_TRACE_COMPLETE'' n @ [10]"] by (simp add: accepting_log_def exhausted_log_def)
  ultimately show ?thesis using exhausted_log_facts(2) by (simp add: completed_def undec_def lit_def)
qed

definition example_projections :: "pyval list" where
  "example_projections =
     [example_projected ''init'' 0 0 '''' '''', example_projected ''campaign'' 1 1 '''' '''', example_projected ''beat'' 2 1 '''' '''',
      example_projected ''ready'' 3 1 '''' '''', example_projected ''propose'' 4 1 ''x'' ''p'', example_projected ''ready'' 5 1 '''' '''',
      example_projected ''beat'' 6 1 '''' '''', example_projected ''ready'' 7 1 '''' '''', example_projected ''end'' 8 0 '''' '''']"

lemma example_projections: "mapE project example_read_trace = Inr example_projections"
  by (simp add: example_read_trace_def example_projections_def example_project example_kinds_def projected_kind_def READ_EVENTS_def)

lemma example_projected_items:
  "getitem (example_projected kind seq node v ctx) ''kind'' = Inr (S kind)"
  "getitem (example_projected kind seq node v ctx) ''seq'' = Inr (PInt seq)"
  "getitem (example_projected kind seq node v ctx) ''node'' = Inr (PInt node)"
  "getitem (example_projected kind seq node v ctx) ''pending'' = Inr (PList [])"
  "getitem (example_projected kind seq node v ctx) ''value'' = Inr (S v)"
  "dict_get (example_projected kind seq node v ctx) ''proposal_context'' d = Inr (S ctx)"
  "node_of (example_projected kind seq node v ctx) 1 = Inr example_node"
proof -
  show "dict_get (example_projected kind seq node v ctx) ''proposal_context'' d = Inr (S ctx)"
    by (simp add: example_projected_def dict_get_def mkdict_def)
qed (simp_all add: example_projected_def dict_simps node_of_def)

lemma step_groups_total:
  assumes "\<forall>p \<in> insert q (set es). \<forall>e \<in> set es. \<exists>steps. event_steps (Some p) e = Inr steps"
  shows "\<exists>gs. step_groups (Some q) es = Inr gs"
  using assms
proof (induction es arbitrary: q)
  case (Cons e es)
  have "\<exists>steps. event_steps (Some q) e = Inr steps" and "\<exists>gs. step_groups (Some e) es = Inr gs"
    using Cons.prems Cons.IH [of e] by simp_all
  then show ?case by auto
qed simp

definition example_steps_in :: "(string \<times> int \<times> string \<times> string) set" where
  "example_steps_in = {(''campaign'', 1, '''', ''''), (''propose'', 1, ''x'', ''p''), (''beat'', 1, '''', ''''), (''ready'', 1, '''', ''''), (''end'', 0, '''', '''')}"

lemma example_projected_steps:
  assumes "(kind, node, v, ctx) \<in> example_steps_in"
  shows "\<exists>steps. event_steps (Some (example_projected kind' seq' node' v' ctx')) (example_projected kind seq node v ctx) = Inr steps"
  using assms unfolding example_steps_in_def
  by (elim insertE emptyE)
    (simp_all add: event_steps_def example_projected_items example_projected_observed kind_steps_def add_steps_def add_step_def
      sends_def example_observation_def dict_simps in_set_def)

lemma example_projections_instructions: "\<exists>steps. instructions example_projections = Inr steps"
proof -
  have "\<exists>steps. event_steps None (example_projected ''init'' 0 0 '''' '''') = Inr steps"
    by (simp add: event_steps_first [OF example_projected_observed example_projected_items(2,1)] example_projected_items)
  moreover have "\<exists>gs. step_groups (Some (hd example_projections)) (tl example_projections) = Inr gs"
    by (rule step_groups_total) (simp add: example_projections_def example_projected_steps example_steps_in_def)
  ultimately show ?thesis by (auto simp: instructions_groups example_projections_def)
qed

definition linearize_action :: "int \<Rightarrow> pyval" where
  "linearize_action i = mkdict [(''name'', S ''Linearize''), (''location'', mkdict []), (''context'', mkdict [(''i'', PInt i)]),
     (''parameters'', PList [S ''i''])]"

definition history_state :: "int \<Rightarrow> pyval list \<Rightarrow> pstr \<Rightarrow> pyval" where
  "history_state p indices v = PList [PInt p, mkdict [(''done'', PList indices), (''value'', PStr v)]]"

definition example_dump_states :: "pyval list" where
  "example_dump_states = [history_state 1 [] [], history_state 2 [PInt 1] [], history_state 3 [PInt 1, PInt 2] (hex (lit ''x'')),
     history_state 4 [PInt 1, PInt 2, PInt 3] (hex (lit ''x''))]"

definition example_dump :: pyval where
  "example_dump = mkdict [(''counterexample'', mkdict [(''state'', PList example_dump_states),
      (''action'', PList (map (\<lambda>i. PList [example_dump_states ! i, linearize_action (int (Suc i)), example_dump_states ! Suc i]) [0, 1, 2]))]),
     (''vars'', PList [S ''done'', S ''value''])]"

definition dumping_tlc :: "pstr \<Rightarrow> pstr \<Rightarrow> pstr \<Rightarrow> tlc_run option" where
  "dumping_tlc cp ndjson cfg = Some \<lparr>tlc_returncode = 12, tlc_text = goal_log 3, tlc_witness = Some (dumps False example_dump)\<rparr>"

lemma history_state_shown:
  "shows_state (history_state p (map (PInt \<circ> int) sel) v) p (set sel) (PStr v)" if "distinct sel"
  unfolding shows_state_def
  by (rule exI [of _ sel]) (use that in \<open>simp add: shows_vars_def history_state_def dict_simps\<close>)

lemma linearize_action_shown: "shows_action before i after (PList [before, linearize_action (int i), after])"
  by (simp add: verify_edge_iff [symmetric] verify_edge_def linearize_action_def dict_simps insert_commute)

lemma example_hex: "hex (lit ''x'') = lit ''78''" "hex (lit ''a'') = lit ''61''" "hex (lit ''b'') = lit ''62''" "hex (lit ''p'') = lit ''70''"
  by code_simp+

lemma example_history_valid: "validate_history (PList example_read_history) = Inr ()"
  by (simp add: example_read_history_def example_hex validate_history_eq_Inr typed_operation_def is_int_def operation_ok_def
      op_completed_def history_eval register_value_ascii register_value_Nil insert_commute)

lemma example_dump_json: "json_ok fr example_dump"
  by (simp add: example_dump_def example_dump_states_def history_state_def linearize_action_def example_hex json_ok_mkdict wf_pstr_lit dec.simps)

lemma example_dump_size: "0 < length (dumps False example_dump)" "length (dumps False example_dump) \<le> 4000000"
proof -
  show "0 < length (dumps False example_dump)" by (simp add: example_dump_def mkdict_def dumps_PDict)
  show "length (dumps False example_dump) \<le> 4000000"
    by (rule order_trans [OF length_dumps])
      (simp add: example_dump_def example_dump_states_def history_state_def linearize_action_def example_hex print_bound_mkdict lit_def)
qed

lemma example_history_linearization:
  "linearization (history_of (PList example_read_history)) (map (Ops (history_of (PList example_read_history))) [1, 2, 3])"
  by (auto simp: example_read_history_def Ops_def example_hex history_eval linearization_eval)

lemma example_dump_shown: "shows_dump (history_of (PList example_read_history)) [1, 2, 3] example_dump"
proof -
  let ?ops = "history_of (PList example_read_history)"
  have ids: "{1, 2, 3} \<subseteq> Ids ?ops" by (simp add: Ids_def history_of_def example_read_history_def)
  have shown: "shows_state (history_state 1 [] []) 1 {} (PStr [])" "shows_state (history_state 2 [PInt 1] []) 2 {1} (PStr [])"
    "shows_state (history_state 3 [PInt 1, PInt 2] v) 3 {2, 1} (PStr v)"
    "shows_state (history_state 4 [PInt 1, PInt 2, PInt 3] v) 4 {3, 1, 2} (PStr v)" for v
    using history_state_shown [of "[]"] history_state_shown [of "[1]"] history_state_shown [of "[1, 2]"]
      history_state_shown [of "[1, 2, 3]"] by (simp_all add: insert_commute)
  have vals: "map PStr (tl (register_values [] (map (Ops ?ops) [1, 2, 3]))) = [PStr [], PStr (hex (lit ''x'')), PStr (hex (lit ''x''))]"
    by (simp add: example_read_history_def Ops_def example_hex history_eval register_after_def)
  have "shows_run ?ops example_dump_states
      (map (\<lambda>i. PList [example_dump_states ! i, linearize_action (int (Suc i)), example_dump_states ! Suc i]) [0, 1, 2])
      [] (tl example_dump_states) [1, 2, 3] [PStr [], PStr (hex (lit ''x'')), PStr (hex (lit ''x''))]"
    using shown ids linearize_action_shown [where i = 1] linearize_action_shown [where i = 2] linearize_action_shown [where i = 3]
    by (simp add: example_dump_states_def insert_commute)
  then show ?thesis using shown(1) unfolding shows_dump_def vals example_dump_def
    by (simp add: dict_simps insert_commute example_dump_states_def)
qed

lemma example_history_checked:
  "check_history uword (json_loads one_float no_other) (Inr c) dumping_tlc (PList example_read_history) = Inr True"
proof -
  have "length (filter op_completed (history_of (PList example_read_history))) = 3"
    by (simp add: example_read_history_def history_eval op_completed_def)
  then show ?thesis
    using example_dump_size json_loads_dumps [OF example_dump_json]
      verify_raw_complete [OF example_history_valid example_dump_shown example_history_linearization]
    by (simp add: check_history_eq_Inr verify_witness_def example_history_valid dumping_tlc_def goal_log_verdict)
qed

lemma example_consensus_loaded: "load (json_loads one_float no_other) (file_text (consensus_rows example_projections)) = Inr example_projections"
proof -
  have live: "has_kind ''campaign'' example_read_trace" "has_kind ''propose'' example_read_trace"
    by (auto simp: has_kind_def example_read_trace_def example_read_event_def kind_is_def dict_simps)
  have json: "list_all (json_ok one_float) (consensus_rows example_projections)"
    using consensus_rows_json [OF example_read_trace_ok _ example_projections] example_read_rows_json by simp
  have "length (file_text (consensus_rows example_projections)) \<le> 16000000"
    by (rule order_trans [OF length_file_text])
      (simp add: consensus_rows_def CONTEXT_HEADER_def HEADER_def dict_with_def mkdict_def terminal_row_def example_projections_def
        example_projected_def example_node_def)
  then show ?thesis
    using load_file_text [where check = load_rows, OF _ _ json] projection_written(2) [OF example_read_trace_ok example_projections] live
    by (simp add: load_frames consensus_rows_def)
qed

definition example_consensus_tlc :: "pstr \<Rightarrow> pstr \<Rightarrow> pstr \<Rightarrow> tlc_run option" where
  "example_consensus_tlc = accepting_tlc (length (projr (instructions example_projections)))"

lemma example_consensus_validated:
  "validate (json_loads one_float no_other) (Inr c) example_consensus_tlc (file_text (consensus_rows example_projections)) = Inr ()"
  using example_projections_instructions
  by (auto simp: validate_eq_Inr example_consensus_loaded conforms_def example_consensus_tlc_def accepting_tlc_def accepting_log_completed)

lemma example_validated:
  "validate_read uword (json_loads one_float no_other) (Inr c) example_consensus_tlc (accepting_tlc 9) dumping_tlc example_read_file = Inr ()"
proof -
  obtain steps where "read_instructions example_read_trace = Inr steps" "length steps = 9"
    using read_instructions_ok [OF example_read_trace_ok] by (auto simp: example_read_trace_def)
  then show ?thesis
    by (simp add: validate_read_def example_consensus_validated example_read_file_loaded example_projections projection_written(1) [OF example_read_trace_ok example_projections]
        accepting_tlc_def conclude_read_def accepting_log_completed example_read_extracted example_history_checked)
qed

theorem validate_read_sound_witness:
  "\<exists>events projected steps history c run. load_read (json_loads one_float no_other) example_read_file = Inr events
    \<and> mapE project events = Inr projected \<and> (Inr [] :: pstr res) = Inr c \<and> conforms example_consensus_tlc c projected
    \<and> read_instructions events = Inr steps \<and> accepting_tlc 9 c (steps_ndjson steps) read_cfg = Some run
    \<and> completed (tlc_returncode run) (tlc_text run) (length events)
    \<and> extract_history events = Inr history \<and> linearizable (history_of (PList history))"
  by (rule validate_read_sound [OF float_printer_one example_files_utf8(2) example_validated])

end
