(* ===== verification/Json_Updates.thy ===== *)
theory Json_Updates
  imports Read_Mutations Read_Validation
begin

text \<open>
  In-place changes of JSON documents keep them printable: what \<open>json.loads\<close> returned and the
  checkers changed is written by \<open>json.dumps\<close> as text that \<open>json.loads\<close> reads back.
\<close>

definition keeps_json :: "(pstr \<Rightarrow> pstr) \<Rightarrow> (pyval \<Rightarrow> pyval res) \<Rightarrow> bool" where
  "keeps_json fr f \<longleftrightarrow> (\<forall>v v'. json_ok fr v \<longrightarrow> f v = Inr v' \<longrightarrow> json_ok fr v')"

named_theorems json_intros \<open>changes that keep a document printable\<close>

lemma keeps_jsonD: "keeps_json fr f \<Longrightarrow> f v = Inr v' \<Longrightarrow> json_ok fr v \<Longrightarrow> json_ok fr v'"
  by (simp add: keeps_json_def)

lemma keeps_jsonI: "(\<And>v v'. json_ok fr v \<Longrightarrow> f v = Inr v' \<Longrightarrow> json_ok fr v') \<Longrightarrow> keeps_json fr f"
  by (simp add: keeps_json_def)

lemma keeps_bindE [json_intros]: "keeps_json fr f \<Longrightarrow> keeps_json fr g \<Longrightarrow> keeps_json fr (\<lambda>v. bindE (f v) g)"
  by (rule keeps_jsonI) (auto simp: bindE_eq_Inr dest: keeps_jsonD)

lemma keeps_setitem [json_intros]: "json_ok fr v \<Longrightarrow> keeps_json fr (setitem k v)"
  by (rule keeps_jsonI) (rule json_ok_setitem [OF _ wf_pstr_lit])

lemma keeps_update_item [json_intros]: "keeps_json fr f \<Longrightarrow> keeps_json fr (update_item k f)"
proof (rule keeps_jsonI)
  fix v v' assume f: "keeps_json fr f" and v: "json_ok fr v" "update_item k f v = Inr v'"
  show "json_ok fr v'" using v
    by (rule json_ok_update_item) (rule keeps_jsonD [OF f], assumption, rule json_ok_getitem [OF v(1)])
qed

lemma json_ok_update_nth:
  assumes "keeps_json fr f" and "list_all (json_ok fr) xs" and "update_nth i f xs = Inr ys"
  shows "list_all (json_ok fr) ys"
proof -
  obtain v where v: "i < length xs" "f (xs ! i) = Inr v" "ys = xs[i := v]"
    using assms(3) by (auto simp: update_nth_def bindE_eq_Inr split: if_splits)
  then have "json_ok fr v" using assms(2) keeps_jsonD [OF assms(1)] by (auto simp: list_all_length)
  then show ?thesis using assms(2) set_update_subset_insert [of xs i v] by (auto simp: v(3) list_all_iff)
qed

lemma keeps_update_list [json_intros]: "keeps_json fr f \<Longrightarrow> keeps_json fr (update_list i f)"
proof (rule keeps_jsonI)
  fix v v' assume f: "keeps_json fr f" and v: "json_ok fr v" "update_list i f v = Inr v'"
  obtain xs ys where xs: "v = PList xs" "update_nth i f xs = Inr ys" "v' = PList ys"
    using v(2) by (cases v) (auto simp: update_list_def bindE_eq_Inr)
  then show "json_ok fr v'" using json_ok_update_nth [OF f _ xs(2)] v(1) by simp
qed

lemma keeps_update_last [json_intros]: "keeps_json fr f \<Longrightarrow> keeps_json fr (update_last f)"
proof (rule keeps_jsonI)
  fix v v' assume f: "keeps_json fr f" and v: "json_ok fr v" "update_last f v = Inr v'"
  obtain i where "update_list i f v = Inr v'" using v(2) by (cases v) (auto simp: update_last_def)
  then show "json_ok fr v'" using keeps_jsonD [OF keeps_update_list [OF f]] v(1) by blast
qed

lemma keeps_list_append [json_intros]: "json_ok fr v \<Longrightarrow> keeps_json fr (list_append v)"
  by (rule keeps_jsonI) (auto simp: list_append_def split: pyval.splits)

lemma json_ok_lit [json_intros]: "json_ok fr (S s)"
  by (simp add: wf_pstr_lit)

end
