(* ===== verification/Witness_Negatives.thy ===== *)
theory Witness_Negatives
  imports Json_Indent Json_Updates
begin

text \<open>
  \<open>witness_negatives\<close> of history_check.py: the dump TLC wrote for the overlapping regression case and
  the order it shows are corrupted in four ways, each of which must be refused for its own reason.
  The theorem says when this raises no false alarm: on a dump that \<open>verify_witness\<close> accepts for that
  case, all four corruptions are refused for the stated reason exactly when the corrupted copies
  stay within the size limit of \<open>verify_witness\<close>.
\<close>

section \<open>Definitions\<close>

definition pop_last :: "pyval \<Rightarrow> pyval res" where
  "pop_last obj = (case obj of
      PList xs \<Rightarrow> if xs = [] then Inl IndexError else Inr (PList (butlast xs))
    | PDict _ \<Rightarrow> Inl TypeError
    | _ \<Rightarrow> Inl AttributeError)"

text \<open>\<open>wrong_value\<close> and \<open>incomplete\<close>: changes of the last state and of the last transition.\<close>

definition unwritten :: "pyval \<Rightarrow> pyval res" where
  "unwritten state = update_list 1 (setitem ''value'' (S ''unwritten'')) state"

definition wrong_value :: "pyval \<Rightarrow> pyval res" where
  "wrong_value raw =
     update_item ''counterexample'' (\<lambda>trace.
       bindE (update_item ''state'' (update_last unwritten) trace)
         (update_item ''action'' (update_last (update_list 2 unwritten)))) raw"

definition incomplete :: "pyval \<Rightarrow> pyval res" where
  "incomplete raw =
     update_item ''counterexample'' (\<lambda>trace.
       bindE (update_item ''state'' pop_last trace) (update_item ''action'' pop_last)) raw"

definition witness_cases :: "pyval \<Rightarrow> pyval \<Rightarrow> (string \<times> pyval \<times> string) list res" where
  "witness_cases raw witness =
     bindE (wrong_value raw) (\<lambda>wrong.
     bindE (incomplete raw) (\<lambda>partial.
     bindE (getitem witness ''order'') (\<lambda>order.
     let ids = the_list order in
     Inr [(''wrong-register'', wrong, ''independent replay''),
          (''missing-completion'', partial, ''omits a completed''),
          (''reversed-realtime'', PList (rev ids), ''real-time''),
          (''duplicate-operation'', PList (butlast ids @ take 1 ids), ''Unknown or repeated'')])))"

text \<open>
  \<open>str(error)\<close>: the text of the source with the interpolated value, which \<open>py_str\<close> prints.  The
  texts of the codecs are Python's own and hold none of the reasons.
\<close>

definition error_text :: "(pyval \<Rightarrow> pstr) \<Rightarrow> exc \<Rightarrow> pstr" where
  "error_text py_str e = (case e of ValueError m \<Rightarrow> lit m | ValueErrorArg m v \<Rightarrow> lit m @ py_str v | _ \<Rightarrow> [])"

definition expect_reason :: "(pyval \<Rightarrow> pstr) \<Rightarrow> string \<Rightarrow> 'a res \<Rightarrow> unit res" where
  "expect_reason py_str reason r = (case r of
      Inl e \<Rightarrow> if is_value_error e \<and> contains (lit reason) (error_text py_str e) then Inr () else Inl e
    | Inr _ \<Rightarrow> Inl (RuntimeError ''Witness mutation unexpectedly accepted''))"

definition witness_case :: "(pyval \<Rightarrow> pstr) \<Rightarrow> (nat list \<Rightarrow> pyval res) \<Rightarrow> pyval \<Rightarrow> string \<times> pyval \<times> string \<Rightarrow> unit res" where
  "witness_case py_str loads operations c = (case c of (name, data, reason) \<Rightarrow>
     expect_reason py_str reason
       (case data of
          PList _ \<Rightarrow> replay operations data
        | _ \<Rightarrow> verify_witness loads operations (indented 0 data @ [10])))"

text \<open>\<open>data\<close> are the bytes of witness.raw.json in the run directory.\<close>

definition witness_negatives ::
  "(pyval \<Rightarrow> pstr) \<Rightarrow> (pstr \<Rightarrow> pstr) \<Rightarrow> (nat list \<Rightarrow> pyval res) \<Rightarrow> pyval \<Rightarrow> nat list \<Rightarrow> unit res" where
  "witness_negatives py_str fr loads operations data =
     bindE (bindE (text_of data) (json_loads_text fr)) (\<lambda>raw.
     bindE (verify_witness loads operations data) (\<lambda>witness.
     bindE (witness_cases raw witness) (\<lambda>cases.
     bindE (mapE (witness_case py_str loads operations) cases) (\<lambda>_. Inr ()))))"

section \<open>Changing a dict without changing its fields\<close>

lemma setitem_fields:
  assumes "Py_Values.fields obj names = Inr ()" and "k \<in> set names"
  shows "\<exists>obj'. setitem k v obj = Inr obj' \<and> Py_Values.fields obj' names = Inr ()"
  using assms by (auto simp: fields_eq_Inr setitem_def dict_set_keys)

lemma sort_key_fst_unique:
  assumes "distinct (map fst xs)" and "distinct (map fst ys)" and "set xs = set ys"
  shows "sort_key fst xs = sort_key fst (ys :: (pstr \<times> pyval) list)"
proof (rule map_sorted_distinct_set_unique [of fst])
  show "inj_on fst (set (sort_key fst xs) \<union> set (sort_key fst ys))" using assms by (simp add: distinct_map)
  show "distinct (map fst (sort_key fst xs))" "distinct (map fst (sort_key fst ys))" using assms(1,2) by (simp_all add: distinct_map)
qed (use assms(3) in simp_all)

lemma canon_dict_set:
  assumes "distinct (map fst kvs)" and "distinct (map fst kvs')" and "canon (PDict kvs) = canon (PDict kvs')"
  shows "canon (PDict (dict_set k v kvs)) = canon (PDict (dict_set k v kvs'))"
proof -
  define c where "c = map (\<lambda>(k, v). (k :: pstr, canon v))"
  have keys: "map fst (c l) = map fst l" for l by (simp add: c_def comp_def case_prod_unfold)
  have look: "map_of (c l) x = map_option canon (map_of l x)" for l x by (induction l) (auto simp: c_def)
  have entries: "set (c l) = {(x, y). map_option canon (map_of l x) = Some y}" if "distinct (map fst l)" for l
    using that by (auto simp: look [symmetric] keys map_of_eq_Some_iff [of "c l"])
  have "set (sort_key fst (c kvs)) = set (sort_key fst (c kvs'))" using assms(3) by (simp add: c_def)
  then have "set (c kvs) = set (c kvs')" by simp
  then have "map_of (c kvs) = map_of (c kvs')" using assms(1,2) by (intro map_of_inject_set [THEN iffD2]) (simp_all add: keys)
  then have same: "map_option canon (map_of kvs x) = map_option canon (map_of kvs' x)" for x using look by metis
  have "map_option canon (((map_of kvs)(k \<mapsto> v)) x) = map_option canon (((map_of kvs')(k \<mapsto> v)) x)" for x using same by simp
  then have "set (c (dict_set k v kvs)) = set (c (dict_set k v kvs'))"
    unfolding entries [OF dict_set_distinct [OF assms(1)]] entries [OF dict_set_distinct [OF assms(2)]] map_of_dict_set
    by presburger
  then show ?thesis
    using sort_key_fst_unique [of "c (dict_set k v kvs)" "c (dict_set k v kvs')"] assms(1,2) dict_set_distinct
    by (simp add: keys) (simp add: c_def)
qed

section \<open>Runs shown by a prefix of a dump\<close>

lemma shows_run_snocD:
  "shows_run ops states edges is (rest @ [s]) js vs \<Longrightarrow>
     \<exists>js' j vs' v. js = js' @ [j] \<and> vs = vs' @ [v] \<and> shows_run ops states edges is rest js' vs'
      \<and> j \<in> Ids ops - set (is @ js') \<and> shows_state s (int (length is + length rest) + 2) (insert j (set (is @ js'))) v
      \<and> shows_action (states ! (length is + length rest)) j s (edges ! (length is + length rest))"
proof (induction rest arbitrary: "is" js vs)
  case Nil
  then obtain j v where "js = [] @ [j]" "vs = [] @ [v]" "j \<in> Ids ops - set is" "shows_state s (int (length is) + 2) (insert j (set is)) v"
      "shows_action (states ! length is) j s (edges ! length is)"
    by (auto simp: shows_run_Cons shows_run_Nil)
  then show ?case by (intro exI [of _ "[]"] exI [of _ j] exI [of _ v]) simp
next
  case (Cons t rest)
  then obtain k ks w ws where k: "js = k # ks" "vs = w # ws" "k \<in> Ids ops - set is" "shows_state t (int (length is) + 2) (insert k (set is)) w"
      "shows_action (states ! length is) k t (edges ! length is)" and tail: "shows_run ops states edges (is @ [k]) (rest @ [s]) ks ws"
    by (auto simp: shows_run_Cons)
  from Cons.IH [OF tail] obtain js' j vs' v where ih: "ks = js' @ [j]" "ws = vs' @ [v]" "shows_run ops states edges (is @ [k]) rest js' vs'"
      "j \<in> Ids ops - set ((is @ [k]) @ js')" "shows_state s (int (length (is @ [k]) + length rest) + 2) (insert j (set ((is @ [k]) @ js'))) v"
      "shows_action (states ! (length (is @ [k]) + length rest)) j s (edges ! (length (is @ [k]) + length rest))"
    by blast
  then show ?case using k by (intro exI [of _ "k # js'"] exI [of _ j] exI [of _ "w # vs'"] exI [of _ v]) (simp add: ac_simps)
qed

lemma shows_run_snocI:
  assumes "shows_run ops states edges is rest js vs" and "j \<in> Ids ops - set (is @ js)"
    and "shows_state s (int (length is + length rest) + 2) (insert j (set (is @ js))) v"
    and "shows_action (states ! (length is + length rest)) j s (edges ! (length is + length rest))"
  shows "shows_run ops states edges is (rest @ [s]) (js @ [j]) (vs @ [v])"
  using assms
proof (induction rest arbitrary: "is" js vs)
  case (Cons t rest)
  then obtain k ks w ws where k: "js = k # ks" "vs = w # ws" "k \<in> Ids ops - set is" "shows_state t (int (length is) + 2) (insert k (set is)) w"
      "shows_action (states ! length is) k t (edges ! length is)" and tail: "shows_run ops states edges (is @ [k]) rest ks ws"
    by (auto simp: shows_run_Cons)
  have "shows_run ops states edges (is @ [k]) (rest @ [s]) (ks @ [j]) (ws @ [v])"
    by (rule Cons.IH [OF tail]) (use Cons.prems(2-4) k(1) in \<open>simp_all add: ac_simps\<close>)
  then show ?case using k by simp
qed (auto simp: shows_run_Nil)

lemma shows_run_cong:
  assumes "\<And>i. length is \<le> i \<Longrightarrow> i < length is + length rest \<Longrightarrow> states ! i = states' ! i \<and> edges ! i = edges' ! i"
  shows "shows_run ops states edges is rest js vs \<longleftrightarrow> shows_run ops states' edges' is rest js vs"
  using assms
proof (induction rest arbitrary: "is" js vs)
  case (Cons s rest)
  have "states ! length is = states' ! length is \<and> edges ! length is = edges' ! length is" using Cons.prems [of "length is"] by simp
  moreover have "shows_run ops states edges (is @ [j]) rest js' vs' \<longleftrightarrow> shows_run ops states' edges' (is @ [j]) rest js' vs'" for j js' vs'
    by (rule Cons.IH) (use Cons.prems in simp)
  ultimately show ?case by (simp add: shows_run_Cons)
qed (simp add: shows_run_Nil)

text \<open>A dump with these states and transitions.\<close>

definition dump_with :: "pyval list \<Rightarrow> pyval list \<Rightarrow> pyval \<Rightarrow> bool" where
  "dump_with states edges raw \<longleftrightarrow> (\<exists>trace.
     Py_Values.fields raw [''counterexample'', ''vars''] = Inr ()
     \<and> getitem raw ''vars'' = Inr (PList [S ''done'', S ''value''])
     \<and> getitem raw ''counterexample'' = Inr trace \<and> Py_Values.fields trace [''state'', ''action''] = Inr ()
     \<and> getitem trace ''state'' = Inr (PList states) \<and> getitem trace ''action'' = Inr (PList edges))"

lemma shows_dump_with:
  "shows_dump ops is raw \<longleftrightarrow> (\<exists>first rest edges. dump_with (first # rest) edges raw
     \<and> rest \<noteq> [] \<and> length edges = length rest \<and> shows_state first 1 {} (PStr [])
     \<and> shows_run ops (first # rest) edges [] rest is (map PStr (tl (register_values [] (map (Ops ops) is)))))"
  unfolding shows_dump_def dump_with_def by blast

lemma verify_raw_dump:
  assumes "dump_with (first # rest) edges raw" and "rest \<noteq> []" and "length edges = length rest"
    and "shows_state first 1 {} (PStr [])" and run: "shows_run (history_of operations) (first # rest) edges [] rest js vs"
  shows "verify_raw operations raw =
    bindE (replay operations (PList (map (PStr \<circ> (op_id \<circ> Ops (history_of operations))) js))) (\<lambda>witness.
    bindE (getitem witness ''values'') (\<lambda>expected.
    bindE (require (PList (PStr [] # vs) = expected) ''TLC witness values disagree with independent replay'') (\<lambda>_. Inr witness)))"
proof -
  let ?ops = "history_of operations"
  have "length rest \<le> length ?ops" "1 \<le> length rest"
    using shows_run_indices [OF run] length_indices [of js ?ops] assms(2) by (auto simp: Suc_le_eq)
  moreover have "foldE (verify_state ?ops (first # rest) edges) ({}, [], []) (enum_from 1 (first # rest))
      = Inr (int ` set js, map (op_id \<circ> Ops ?ops) js, PStr [] # vs)"
    unfolding verify_states using assms(4) run by blast
  ultimately show ?thesis
    using assms(1,3) by (auto simp: dump_with_def verify_raw_def Let_def simp del: enum_from.simps foldE.simps)
qed

lemma dump_update:
  assumes dump: "dump_with states edges raw" and f: "f (PList states) = Inr (PList states')" and g: "g (PList edges) = Inr (PList edges')"
  shows "\<exists>raw'. update_item ''counterexample'' (\<lambda>trace. bindE (update_item ''state'' f trace) (update_item ''action'' g)) raw = Inr raw'
    \<and> dump_with states' edges' raw'"
proof -
  obtain trace where raw: "Py_Values.fields raw [''counterexample'', ''vars''] = Inr ()"
      "getitem raw ''vars'' = Inr (PList [S ''done'', S ''value''])" "getitem raw ''counterexample'' = Inr trace"
    and trace: "Py_Values.fields trace [''state'', ''action''] = Inr ()"
      "getitem trace ''state'' = Inr (PList states)" "getitem trace ''action'' = Inr (PList edges)"
    using dump by (auto simp: dump_with_def)
  obtain t1 where t1: "setitem ''state'' (PList states') trace = Inr t1" "Py_Values.fields t1 [''state'', ''action''] = Inr ()"
    using setitem_fields [OF trace(1), of "''state''"] by auto
  obtain t2 where t2: "setitem ''action'' (PList edges') t1 = Inr t2" "Py_Values.fields t2 [''state'', ''action''] = Inr ()"
    using setitem_fields [OF t1(2), of "''action''"] by auto
  obtain raw' where raw': "setitem ''counterexample'' t2 raw = Inr raw'" "Py_Values.fields raw' [''counterexample'', ''vars''] = Inr ()"
    using setitem_fields [OF raw(1), of "''counterexample''"] by auto
  have "dump_with states' edges' raw'"
    unfolding dump_with_def using raw'(2) t2(2) raw(2)
      getitem_setitem [OF raw'(1)] getitem_setitem [OF t2(1)] getitem_setitem [OF t1(1)] by simp
  moreover have "getitem t1 ''action'' = Inr (PList edges)" using getitem_setitem [OF t1(1)] trace(3) by simp
  ultimately show ?thesis by (simp add: update_item_def raw(3) trace f g t1(1) t2(1) raw'(1))
qed

section \<open>The corrupted dumps\<close>

lemma unwritten_state:
  assumes "shows_state s p A v"
  obtains s' where "unwritten s = Inr s'" and "shows_state s' p A (S ''unwritten'')"
proof -
  obtain sel vars where s: "distinct sel" "set sel = A" "s = PList [PInt p, vars]" "Py_Values.fields vars [''done'', ''value''] = Inr ()"
      "getitem vars ''done'' = Inr (PList (map (PInt \<circ> int) sel))"
    using assms by (auto simp: shows_state_def shows_vars_def)
  obtain vars' where vars': "setitem ''value'' (S ''unwritten'') vars = Inr vars'" "Py_Values.fields vars' [''done'', ''value''] = Inr ()"
    using setitem_fields [OF s(4), of "''value''"] by auto
  have "shows_state (PList [PInt p, vars']) p A (S ''unwritten'')"
    unfolding shows_state_def shows_vars_def using s(1,2,5) vars'(2) getitem_setitem [OF vars'(1)] by auto
  then show thesis using that s(3) vars'(1) by (simp add: unwritten_def update_list_def update_nth_def)
qed

text \<open>The same change of two equal JSON values gives equal JSON values.\<close>

lemma unwritten_key:
  assumes "key b = key s" and "wf_pyval b" and "wf_pyval s" and "unwritten s = Inr s'"
  shows "\<exists>b'. unwritten b = Inr b' \<and> key b' = key s'"
proof -
  let ?set = "dict_set (lit ''value'') (S ''unwritten'')"
  obtain xs kvs where s: "s = PList xs" "1 < length xs" "xs ! 1 = PDict kvs" "s' = PList (xs[1 := PDict (?set kvs)])"
    using assms(4) by (auto simp: unwritten_def update_list_def update_nth_def setitem_def bindE_eq_Inr split: pyval.splits if_splits)
  have "canon b = canon s" using assms(1-3) key_eq_iff by blast
  then obtain ys where b: "b = PList ys" "map canon ys = map canon xs" using s(1) by (cases b) auto
  have len: "length ys = length xs" using b(2) by (metis length_map)
  then have same: "canon (ys ! 1) = canon (PDict kvs)" using b(2) s(2,3) by (metis nth_map)
  then obtain kvs' where kvs': "ys ! 1 = PDict kvs'" by (cases "ys ! 1") auto
  have wf: "distinct (map fst kvs)" "distinct (map fst kvs')"
    using assms(2,3) b(1) s(1-3) kvs' len by (auto simp: list_all_length dest!: spec [of _ 1])
  have "canon (PDict (?set kvs')) = canon (PDict (?set kvs))"
    using canon_dict_set [OF wf(2,1)] same kvs' by simp
  then have "canon (PList (ys[1 := PDict (?set kvs')])) = canon s'"
    using b(2) by (simp add: s(4) map_update)
  then have "key (PList (ys[1 := PDict (?set kvs')])) = key s'" by (simp add: key_def dumps_canon [symmetric] del: dumps.simps canon.simps)
  moreover have "unwritten b = Inr (PList (ys[1 := PDict (?set kvs')]))"
    using s(2) len kvs' by (simp add: b(1) unwritten_def update_list_def update_nth_def setitem_def)
  ultimately show ?thesis by blast
qed

lemma unwritten_edge:
  assumes "shows_action prior j s edge" and "wf_pyval edge" and "wf_pyval s" and "unwritten s = Inr s'"
  shows "\<exists>edge'. update_list 2 unwritten edge = Inr edge' \<and> shows_action prior j s' edge'"
proof -
  obtain a act b where edge: "edge = PList [a, act, b]" "key a = key prior" "key b = key s"
    using assms(1) by (auto simp: shows_action_def)
  obtain b' where b': "unwritten b = Inr b'" "key b' = key s'" using unwritten_key [OF edge(3)] assms edge(1) by auto
  have "shows_action prior j s' (PList [a, act, b'])"
    using assms(1) edge b'(2) by (simp add: shows_action_def)
  then show ?thesis using b'(1) by (simp add: edge(1) update_list_def update_nth_def)
qed

text \<open>What is read from a strict UTF-8 file is well-formed, so every part of it is.\<close>

lemma wf_getitem: "wf_pyval obj \<Longrightarrow> getitem obj k = Inr v \<Longrightarrow> wf_pyval v"
  by (auto simp: getitem_eq_Inr list_all_iff dest!: map_of_SomeD)

text \<open>The last state and transition of a dump; what was shown before does not depend on them.\<close>

lemma shows_run_before:
  assumes "length edges = length rest"
  shows "shows_run ops (first # rest @ ss) (edges @ es) [] rest js vs \<longleftrightarrow> shows_run ops (first # rest @ ss') (edges @ es') [] rest js vs"
proof (rule shows_run_cong)
  fix i assume "i < length ([] :: nat list) + length rest"
  then show "(first # rest @ ss) ! i = (first # rest @ ss') ! i \<and> (edges @ es) ! i = (edges @ es') ! i"
    using assms by (cases i) (auto simp: nth_append)
qed

lemma dump_last:
  assumes "shows_dump ops is raw"
  obtains first rest s edges edge js j vs v where "dump_with (first # rest @ [s]) (edges @ [edge]) raw" and "length edges = length rest"
    and "shows_state first 1 {} (PStr [])" and "is = js @ [j]" and "shows_run ops (first # rest @ [s]) (edges @ [edge]) [] rest js vs"
    and "j \<in> Ids ops - set js" and "shows_state s (int (length rest) + 2) (insert j (set js)) v"
    and "shows_action ((first # rest) ! length rest) j s edge" and "map PStr (tl (register_values [] (map (Ops ops) is))) = vs @ [v]"
proof -
  obtain first all all_edges where d: "dump_with (first # all) all_edges raw" "all \<noteq> []" "length all_edges = length all" "shows_state first 1 {} (PStr [])"
    and run: "shows_run ops (first # all) all_edges [] all is (map PStr (tl (register_values [] (map (Ops ops) is))))"
    using assms unfolding shows_dump_with by blast
  obtain rest s where rest: "all = rest @ [s]" using d(2) by (cases all rule: rev_cases) auto
  obtain edges edge where edges: "all_edges = edges @ [edge]" using d(2,3) by (cases all_edges rule: rev_cases) auto
  have n: "length edges = length rest" using d(3) rest edges by simp
  have pos: "(edges @ [edge]) ! length rest = edge" "(first # rest @ [s]) ! length rest = (first # rest) ! length rest"
    using n by (simp_all add: nth_append nth_Cons')
  from shows_run_snocD [OF run [unfolded rest]] show thesis
    using that [OF d(1) [unfolded rest edges] n d(4)] by (auto simp: edges pos)
qed

lemma wrong_value_refused:
  assumes valid: "validate_history operations = Inr ()" and dump: "shows_dump (history_of operations) is raw" and wf: "wf_pyval raw"
    and lin: "linearization (history_of operations) (map (Ops (history_of operations)) is)"
    and written: "lit ''unwritten'' \<notin> set (register_values [] (map (Ops (history_of operations)) is))"
  shows "\<exists>raw'. wrong_value raw = Inr raw'
    \<and> verify_raw operations raw' = Inl (ValueError ''TLC witness values disagree with independent replay'')"
proof -
  let ?ops = "history_of operations"
  let ?w = "witness_dict ?ops (map (Ops ?ops) is)"
  obtain first rest s edges edge js j vs v where d: "dump_with (first # rest @ [s]) (edges @ [edge]) raw" "length edges = length rest"
      "shows_state first 1 {} (PStr [])" "is = js @ [j]" "shows_run ?ops (first # rest @ [s]) (edges @ [edge]) [] rest js vs"
      "j \<in> Ids ?ops - set js" "shows_state s (int (length rest) + 2) (insert j (set js)) v"
      "shows_action ((first # rest) ! length rest) j s edge"
    using dump by (rule dump_last)
  obtain s' where s': "unwritten s = Inr s'" "shows_state s' (int (length rest) + 2) (insert j (set js)) (S ''unwritten'')"
    using d(7) by (rule unwritten_state)
  obtain trace where trace: "getitem raw ''counterexample'' = Inr trace" "getitem trace ''state'' = Inr (PList (first # rest @ [s]))"
      "getitem trace ''action'' = Inr (PList (edges @ [edge]))" using d(1) by (auto simp: dump_with_def)
  have "wf_pyval (PList (first # rest @ [s]))" "wf_pyval (PList (edges @ [edge]))"
    using wf_getitem [OF wf_getitem [OF wf trace(1)]] trace(2,3) by blast+
  then obtain edge' where edge': "update_list 2 unwritten edge = Inr edge'" "shows_action ((first # rest) ! length rest) j s' edge'"
    using unwritten_edge [OF d(8) _ _ s'(1)] by auto
  let ?states = "first # rest @ [s']" and ?edges = "edges @ [edge']"
  have "update_last unwritten (PList (first # rest @ [s])) = Inr (PList ?states)"
    "update_last (update_list 2 unwritten) (PList (edges @ [edge])) = Inr (PList ?edges)"
    using s'(1) edge'(1) by (simp_all add: update_last_def update_list_def update_nth_def nth_append)
  then obtain raw' where raw': "wrong_value raw = Inr raw'" "dump_with ?states ?edges raw'"
    using dump_update [OF d(1)] unfolding wrong_value_def by blast
  have pos: "?states ! length rest = (first # rest) ! length rest" "?edges ! length rest = edge'"
    using d(2) by (simp_all add: nth_append nth_Cons')
  have "shows_run ?ops ?states ?edges [] rest js vs" using d(5) shows_run_before [OF d(2)] by blast
  then have run: "shows_run ?ops ?states ?edges [] (rest @ [s']) is (vs @ [S ''unwritten''])"
    unfolding d(4) by (rule shows_run_snocI) (use d(6) s'(2) edge'(2) pos in simp_all)
  have "replay operations (PList (map (PStr \<circ> (op_id \<circ> Ops ?ops)) is)) = Inr ?w"
    using replay_indices [OF valid, of "is" ?w] shows_run_indices [OF run] lin by simp
  moreover have "getitem ?w ''values'' = Inr (PList (map PStr (register_values [] (map (Ops ?ops) is))))"
    by (simp add: witness_dict_def dict_simps)
  moreover have "PStr [] # vs @ [S ''unwritten''] \<noteq> map PStr (register_values [] (map (Ops ?ops) is))"
  proof
    assume "PStr [] # vs @ [S ''unwritten''] = map PStr (register_values [] (map (Ops ?ops) is))"
    then have "S ''unwritten'' \<in> set (map PStr (register_values [] (map (Ops ?ops) is)))" by (metis in_set_conv_decomp append_Cons)
    then show False using written by auto
  qed
  ultimately have "verify_raw operations raw' = Inl (ValueError ''TLC witness values disagree with independent replay'')"
    using verify_raw_dump [OF raw'(2) _ _ d(3) run] d(2) by (simp add: require_def guardE_def del: map_map)
  with raw'(1) show ?thesis by blast
qed

lemma incomplete_dump:
  assumes "shows_dump (history_of operations) (js @ [j]) raw" and "js \<noteq> []"
  shows "\<exists>raw' vs. incomplete raw = Inr raw' \<and> verify_raw operations raw' =
    bindE (replay operations (PList (map (PStr \<circ> (op_id \<circ> Ops (history_of operations))) js))) (\<lambda>witness.
    bindE (getitem witness ''values'') (\<lambda>expected.
    bindE (require (PList (PStr [] # vs) = expected) ''TLC witness values disagree with independent replay'') (\<lambda>_. Inr witness)))"
proof -
  let ?ops = "history_of operations"
  obtain first rest s edges edge vs where d: "dump_with (first # rest @ [s]) (edges @ [edge]) raw" "length edges = length rest"
      "shows_state first 1 {} (PStr [])" "shows_run ?ops (first # rest @ [s]) (edges @ [edge]) [] rest js vs"
    using dump_last [OF assms(1)] by (metis append1_eq_conv)
  have run: "shows_run ?ops (first # rest) edges [] rest js vs"
    using d(4) shows_run_before [OF d(2), of ?ops first "[s]" "[edge]" js vs "[]" "[]"] by simp
  have "rest \<noteq> []" using shows_run_indices [OF run] assms(2) by auto
  have "pop_last (PList (first # rest @ [s])) = Inr (PList (first # rest))" "pop_last (PList (edges @ [edge])) = Inr (PList edges)"
    by (simp_all add: pop_last_def)
  then obtain raw' where "incomplete raw = Inr raw'" "dump_with (first # rest) edges raw'"
    using dump_update [OF d(1)] unfolding incomplete_def by blast
  then show ?thesis using verify_raw_dump [OF _ \<open>rest \<noteq> []\<close> d(2,3) run] by blast
qed

section \<open>The overlapping case has one linearization\<close>

definition overlapping_operations :: "operation list" where
  "overlapping_operations =
     [\<lparr>op_id = lit ''a'', op_kind = OpWrite, op_value = [65], op_result = [], op_invoked = 0, op_returned = 5\<rparr>,
      \<lparr>op_id = lit ''b'', op_kind = OpWrite, op_value = [66], op_result = [], op_invoked = 1, op_returned = 5\<rparr>,
      \<lparr>op_id = lit ''ra'', op_kind = OpRead, op_value = [], op_result = [65], op_invoked = 2, op_returned = 3\<rparr>,
      \<lparr>op_id = lit ''rb'', op_kind = OpRead, op_value = [], op_result = [66], op_invoked = 6, op_returned = 7\<rparr>]"

lemma overlapping_history: "history_of (PList overlapping) = overlapping_operations"
  by (simp add: history_of_def overlapping_def overlapping_operations_def operation_of_def regression_op_def item_def dict_simps)
    (simp add: lit_def)

lemma overlapping_orders:
  "list_all (\<lambda>js. distinct js \<longrightarrow> legal [] (map (\<lambda>i. overlapping_operations ! (i - 1)) js)
      \<longrightarrow> respects_real_time (map (\<lambda>i. overlapping_operations ! (i - 1)) js) \<longrightarrow> js = [1, 3, 2, 4])
    (product_lists (replicate 4 [1, 2, 3, 4]))"
  by code_simp

lemma overlapping_unique:
  assumes sub: "set js \<subseteq> Ids overlapping_operations" and lin: "linearization overlapping_operations (map (Ops overlapping_operations) js)"
  shows "js = [1, 3, 2, 4]"
proof -
  let ?ops = overlapping_operations
  have "distinct (map (Ops ?ops) js)" "set (map (Ops ?ops) js) = set ?ops"
    using lin by (auto simp: linearization_def overlapping_operations_def op_completed_def)
  moreover have "card (set ?ops) = 4" by (simp add: overlapping_operations_def lit_def)
  ultimately have len: "length js = 4" by (metis distinct_card length_map)
  have "set js \<subseteq> {1, 2, 3, 4}" using sub by (auto simp: Ids_def overlapping_operations_def)
  then have "js ! i \<in> {1, 2, 3, 4}" if "i < length js" for i using nth_mem [OF that] by blast
  then have "js \<in> set (product_lists (replicate 4 [1, 2, 3, 4]))"
    using len by (simp add: product_lists_set list_all2_conv_all_nth)
  moreover have "distinct js" using \<open>distinct (map (Ops ?ops) js)\<close> by (simp add: distinct_map)
  moreover have "legal [] (map (\<lambda>i. ?ops ! (i - 1)) js)" "respects_real_time (map (\<lambda>i. ?ops ! (i - 1)) js)"
    using lin by (simp_all add: linearization_def Ops_def [abs_def])
  ultimately show ?thesis using overlapping_orders unfolding list_all_iff by blast
qed

section \<open>Written dumps are read back\<close>

lemma keeps_pop_last [json_intros]: "keeps_json fr pop_last"
  by (auto simp: keeps_json_def pop_last_def list_all_iff split: pyval.splits if_splits dest!: in_set_butlastD)

lemma keeps_unwritten [json_intros]: "keeps_json fr unwritten"
  unfolding unwritten_def [abs_def] by (intro json_intros)

lemma json_ok_corrupted:
  assumes "json_ok fr raw" and "wrong_value raw = Inr doc \<or> incomplete raw = Inr doc"
  shows "json_ok fr doc"
proof -
  have "keeps_json fr wrong_value" "keeps_json fr incomplete"
    unfolding wrong_value_def [abs_def] incomplete_def [abs_def] by (intro json_intros)+
  then show ?thesis using assms keeps_jsonD by blast
qed

section \<open>Every corruption is refused for its reason\<close>

lemma overlapping_replays:
  "replay (PList overlapping) (PList (map S [''a'', ''ra'', ''b''])) = Inl (ValueError ''Witness omits a completed operation'')"
  "replay (PList overlapping) (PList (map S [''rb'', ''b'', ''ra'', ''a''])) = Inl (ValueError ''Witness violates real-time precedence'')"
  "replay (PList overlapping) (PList (map S [''a'', ''ra'', ''b'', ''a''])) = Inl (ValueError ''Unknown or repeated witness operation'')"
  by (simp_all add: replay_def overlapping_valid overlapping_history replay_step_def by_id_def overlapping_operations_def Let_def
      require_def guardE_def lit_def)

lemma expect_reason_ValueError: "contains (lit reason) (lit m) \<Longrightarrow> expect_reason py_str reason (Inl (ValueError m)) = Inr ()"
  by (simp add: expect_reason_def error_text_def is_value_error_def)

lemma reasons:
  "contains (lit ''independent replay'') (lit ''TLC witness values disagree with independent replay'')"
  "contains (lit ''omits a completed'') (lit ''Witness omits a completed operation'')"
  "contains (lit ''real-time'') (lit ''Witness violates real-time precedence'')"
  "contains (lit ''Unknown or repeated'') (lit ''Unknown or repeated witness operation'')"
  "\<not> contains (lit ''independent replay'') (lit ''Empty or oversized witness'')"
  "\<not> contains (lit ''omits a completed'') (lit ''Empty or oversized witness'')"
  by code_simp+

lemma update_item_dict: "update_item k f obj = Inr doc \<Longrightarrow> \<exists>kvs. doc = PDict kvs"
  by (cases obj) (auto simp: update_item_def bindE_eq_Inr setitem_def)

text \<open>A corrupted dump is refused for its own reason unless its indented text is too long for \<open>verify_witness\<close>.\<close>

lemma corrupted_case:
  assumes "validate_history operations = Inr ()" and "json_ok fr raw" and corrupted: "wrong_value raw = Inr doc \<or> incomplete raw = Inr doc"
    and "verify_raw operations doc = Inl (ValueError m)"
    and "contains (lit reason) (lit m)" and "\<not> contains (lit reason) (lit ''Empty or oversized witness'')"
  shows "witness_case py_str (json_loads fr od) operations (name, doc, reason) = Inr () \<longleftrightarrow> length (indented 0 doc) < 4000000"
proof -
  obtain kvs where doc: "doc = PDict kvs"
    using corrupted update_item_dict unfolding wrong_value_def incomplete_def by blast
  have "verify_witness (json_loads fr od) operations (indented 0 doc @ [10])
      = Inl (ValueError (if length (indented 0 doc) < 4000000 then m else ''Empty or oversized witness''))"
    using json_loads_indented [OF json_ok_corrupted [OF assms(2) corrupted]] assms(1,4)
    by (simp add: verify_witness_def require_def guardE_def del: indented.simps)
  then show ?thesis using assms(5,6)
    by (simp add: witness_case_def doc expect_reason_def error_text_def is_value_error_def del: indented.simps)
qed

lemma utf8_line_text: "utf8_line b \<Longrightarrow> plain_utf8 b \<and> (\<exists>t. text_of b = Inr t)"
  by (auto simp: utf8_line_def text_of_def no_surrogates_def list_ex_iff list_all_iff split: sum.splits)

text \<open>What the four corruptions are on an accepted dump, and how \<open>verify_witness\<close> and \<open>replay\<close> see them.\<close>

lemma overlapping_cases:
  assumes wf: "wf_pyval raw" and ok: "verify_raw (PList overlapping) raw = Inr w"
  obtains wrong partial where "wrong_value raw = Inr wrong" and "incomplete raw = Inr partial"
    and "verify_raw (PList overlapping) wrong = Inl (ValueError ''TLC witness values disagree with independent replay'')"
    and "verify_raw (PList overlapping) partial = Inl (ValueError ''Witness omits a completed operation'')"
    and "witness_cases raw w = Inr
      [(''wrong-register'', wrong, ''independent replay''), (''missing-completion'', partial, ''omits a completed''),
       (''reversed-realtime'', PList (map S [''rb'', ''b'', ''ra'', ''a'']), ''real-time''),
       (''duplicate-operation'', PList (map S [''a'', ''ra'', ''b'', ''a'']), ''Unknown or repeated'')]"
proof -
  let ?ops = "history_of (PList overlapping)"
  obtain js where dump: "shows_dump ?ops js raw" and sub: "set js \<subseteq> Ids ?ops" and lin: "linearization ?ops (map (Ops ?ops) js)"
    and w: "w = witness_dict ?ops (map (Ops ?ops) js)"
    using verify_raw_sound [OF overlapping_valid ok] by blast
  have js: "js = [1, 3, 2] @ [4]" using overlapping_unique sub lin by (simp add: overlapping_history)
  have "lit ''unwritten'' \<notin> set (register_values [] (map (Ops ?ops) js))"
    by (simp add: js overlapping_history overlapping_operations_def Ops_def register_after_def lit_def)
  then obtain wrong where wrong: "wrong_value raw = Inr wrong"
      "verify_raw (PList overlapping) wrong = Inl (ValueError ''TLC witness values disagree with independent replay'')"
    using wrong_value_refused [OF overlapping_valid dump wf lin] by blast
  have "map (PStr \<circ> (op_id \<circ> Ops ?ops)) [1, 3, 2] = map S [''a'', ''ra'', ''b'']"
    by (simp add: overlapping_history overlapping_operations_def Ops_def)
  then obtain partial where partial: "incomplete raw = Inr partial"
      "verify_raw (PList overlapping) partial = Inl (ValueError ''Witness omits a completed operation'')"
    using incomplete_dump [OF dump [unfolded js]] overlapping_replays(1) by auto
  have "getitem w ''order'' = Inr (PList (map S [''a'', ''ra'', ''b'', ''rb'']))"
    by (simp add: w js witness_dict_def dict_simps overlapping_history overlapping_operations_def Ops_def)
  with wrong partial show thesis by (intro that) (simp_all add: witness_cases_def)
qed

text \<open>
  C21: on a dump that \<open>verify_witness\<close> accepts for the overlapping regression case, given as UTF-8
  without encoded surrogates and carriage returns, \<open>witness_negatives\<close> passes exactly when the
  indented texts of its two corrupted dumps stay below 4 000 000 bytes.  Then the wrong register
  value, the missing completion, the reversed order and the repeated operation are each refused with
  the message the suite looks for; a longer copy is refused for its size, and the suite fails.
\<close>

theorem witness_negatives_iff:
  assumes "float_printer fr" and "utf8_line data" and "13 \<notin> set data"
    and verified: "verify_witness (json_loads fr od) (PList overlapping) data = Inr w"
  shows "witness_negatives py_str fr (json_loads fr od) (PList overlapping) data = Inr () \<longleftrightarrow>
    (\<exists>raw wrong partial. json_loads fr od data = Inr raw \<and> wrong_value raw = Inr wrong \<and> incomplete raw = Inr partial
      \<and> length (indented 0 wrong) < 4000000 \<and> length (indented 0 partial) < 4000000)"
proof -
  let ?loads = "json_loads fr od"
  obtain raw where raw: "?loads data = Inr raw" and ok: "verify_raw (PList overlapping) raw = Inr w"
    using verified by (auto simp: verify_witness_def bindE_eq_Inr)
  have good: "wf_pyval raw" "json_ok fr raw" using json_loads_good [OF assms(1,2) raw] by (simp_all add: good_def)
  have parsed: "bindE (text_of data) (json_loads_text fr) = Inr raw"
    using utf8_line_text [OF assms(2)] loads_as_text [OF raw _ _ assms(3)] by auto
  obtain wrong partial where docs: "wrong_value raw = Inr wrong" "incomplete raw = Inr partial"
    and refused: "verify_raw (PList overlapping) wrong = Inl (ValueError ''TLC witness values disagree with independent replay'')"
      "verify_raw (PList overlapping) partial = Inl (ValueError ''Witness omits a completed operation'')"
    and cases: "witness_cases raw w = Inr
      [(''wrong-register'', wrong, ''independent replay''), (''missing-completion'', partial, ''omits a completed''),
       (''reversed-realtime'', PList (map S [''rb'', ''b'', ''ra'', ''a'']), ''real-time''),
       (''duplicate-operation'', PList (map S [''a'', ''ra'', ''b'', ''a'']), ''Unknown or repeated'')]"
    using overlapping_cases [OF good(1) ok] .
  note sizes = corrupted_case [OF overlapping_valid good(2) disjI1 [OF docs(1)] refused(1) reasons(1,5)]
    corrupted_case [OF overlapping_valid good(2) disjI2 [OF docs(2)] refused(2) reasons(2,6)]
  have "witness_case py_str ?loads (PList overlapping) (''reversed-realtime'', PList (map S [''rb'', ''b'', ''ra'', ''a'']), ''real-time'') = Inr ()"
    "witness_case py_str ?loads (PList overlapping) (''duplicate-operation'', PList (map S [''a'', ''ra'', ''b'', ''a'']), ''Unknown or repeated'') = Inr ()"
    unfolding witness_case_def prod.case pyval.case overlapping_replays by (simp_all only: expect_reason_ValueError reasons)
  then have "witness_negatives py_str fr ?loads (PList overlapping) data = Inr () \<longleftrightarrow>
      length (indented 0 wrong) < 4000000 \<and> length (indented 0 partial) < 4000000"
    unfolding witness_negatives_def parsed verified cases bindE_simps mapE.simps
    by (simp add: bindE_eq_Inr sizes del: indented.simps)
  then show ?thesis by (simp add: raw docs)
qed

text \<open>The dump of the run on the overlapping case.\<close>

definition overlapping_states :: "pyval list" where
  "overlapping_states = [history_state 1 [] [], history_state 2 [PInt 1] [65], history_state 3 [PInt 1, PInt 3] [65],
     history_state 4 [PInt 1, PInt 3, PInt 2] [66], history_state 5 [PInt 1, PInt 3, PInt 2, PInt 4] [66]]"

definition overlapping_dump :: pyval where
  "overlapping_dump = mkdict [(''counterexample'', mkdict [(''state'', PList overlapping_states),
      (''action'', PList (map (\<lambda>(i, j). PList [overlapping_states ! i, linearize_action (int j), overlapping_states ! Suc i])
         [(0, 1), (1, 3), (2, 2), (3, 4)]))]),
     (''vars'', PList [S ''done'', S ''value''])]"

lemma overlapping_dump_shown: "shows_dump overlapping_operations [1, 3, 2, 4] overlapping_dump"
proof -
  let ?ops = overlapping_operations
  have ids: "{1, 2, 3, 4} \<subseteq> Ids ?ops" by (simp add: Ids_def overlapping_operations_def)
  have shown: "shows_state (history_state 1 [] []) 1 {} (PStr [])" "shows_state (history_state 2 [PInt 1] v) 2 {1} (PStr v)"
    "shows_state (history_state 3 [PInt 1, PInt 3] v) 3 {3, 1} (PStr v)"
    "shows_state (history_state 4 [PInt 1, PInt 3, PInt 2] v) 4 {2, 1, 3} (PStr v)"
    "shows_state (history_state 5 [PInt 1, PInt 3, PInt 2, PInt 4] v) 5 {4, 1, 3, 2} (PStr v)" for v
    using history_state_shown [of "[]"] history_state_shown [of "[1]"] history_state_shown [of "[1, 3]"]
      history_state_shown [of "[1, 3, 2]"] history_state_shown [of "[1, 3, 2, 4]"] by (simp_all add: insert_commute)
  have vals: "map PStr (tl (register_values [] (map (Ops ?ops) [1, 3, 2, 4]))) = [PStr [65], PStr [65], PStr [66], PStr [66]]"
    by (simp add: overlapping_operations_def Ops_def register_after_def)
  have "shows_run ?ops overlapping_states
      (map (\<lambda>(i, j). PList [overlapping_states ! i, linearize_action (int j), overlapping_states ! Suc i]) [(0, 1), (1, 3), (2, 2), (3, 4)])
      [] (tl overlapping_states) [1, 3, 2, 4] [PStr [65], PStr [65], PStr [66], PStr [66]]"
    using shown ids linearize_action_shown [where i = 1] linearize_action_shown [where i = 2] linearize_action_shown [where i = 3]
      linearize_action_shown [where i = 4]
    by (simp add: overlapping_states_def insert_commute)
  then show ?thesis using shown(1) unfolding shows_dump_def vals overlapping_dump_def
    by (simp add: dict_simps insert_commute overlapping_states_def)
qed

text \<open>A bound on the length of the indented text.\<close>

fun indent_bound :: "nat \<Rightarrow> pyval \<Rightarrow> nat" where
  "indent_bound n (PList xs) = 2 * n + 5 + sum_list (map (\<lambda>x. indent_bound (Suc n) x + (2 * n + 4)) xs)"
| "indent_bound n (PDict kvs) = 2 * n + 5 + sum_list (map (\<lambda>(k, v). 12 * length k + indent_bound (Suc n) v + (2 * n + 8)) kvs)"
| "indent_bound n v = print_bound v"

lemma length_line_start: "length (line_start n) = 2 * n + 1"
  by (simp add: line_start_def)

lemma join_nonempty: "xs \<noteq> [] \<Longrightarrow> length (join sep xs) + length sep \<le> sum_list (map (\<lambda>x. length x + length sep) xs)"
  by (induction sep xs rule: join.induct) auto

lemma length_indented: "length (indented n v) \<le> indent_bound n v"
proof (induction v arbitrary: n)
  case (PList xs)
  have "sum_list (map (\<lambda>x. length (indented (Suc n) x) + (2 * n + 4)) xs) \<le> sum_list (map (\<lambda>x. indent_bound (Suc n) x + (2 * n + 4)) xs)"
    using PList by (intro sum_list_mono) auto
  moreover have "length (join (44 # line_start (Suc n)) (map (indented (Suc n)) xs)) + (2 * n + 4)
      \<le> sum_list (map (\<lambda>x. length (indented (Suc n) x) + (2 * n + 4)) xs)" if "xs \<noteq> []"
    using join_nonempty [of "map (indented (Suc n)) xs" "44 # line_start (Suc n)"] that
    by (simp add: comp_def length_line_start eval_nat_numeral)
  ultimately show ?case by (cases "xs = []") (simp_all add: length_line_start)
next
  case (PDict kvs)
  have "sum_list (map (\<lambda>(k, v). length (json_string k) + (length (indented (Suc n) v) + (2 * n + 6))) kvs)
      \<le> sum_list (map (\<lambda>(k, v). 12 * length k + indent_bound (Suc n) v + (2 * n + 8)) kvs)"
  proof (rule sum_list_mono, clarify)
    fix k v assume "(k, v) \<in> set kvs"
    then have "length (indented (Suc n) v) \<le> indent_bound (Suc n) v" using PDict by fastforce
    then show "length (json_string k) + (length (indented (Suc n) v) + (2 * n + 6)) \<le> 12 * length k + indent_bound (Suc n) v + (2 * n + 8)"
      using length_json_string [of k] by simp
  qed
  moreover have "length (join (44 # line_start (Suc n)) (map (\<lambda>(k, v). json_string k @ [58, 32] @ indented (Suc n) v) kvs)) + (2 * n + 4)
      \<le> sum_list (map (\<lambda>(k, v). length (json_string k) + (length (indented (Suc n) v) + (2 * n + 6))) kvs)" if "kvs \<noteq> []"
    using join_nonempty [of "map (\<lambda>(k, v). json_string k @ [58, 32] @ indented (Suc n) v) kvs" "44 # line_start (Suc n)"] that
    by (simp add: comp_def case_prod_unfold length_line_start eval_nat_numeral ac_simps)
  ultimately show ?case by (cases "kvs = []") (simp_all add: length_line_start)
qed (use length_dumps in \<open>simp_all del: dumps.simps print_bound.simps\<close>)

lemma overlapping_corrupted_size:
  assumes "wrong_value overlapping_dump = Inr doc \<or> incomplete overlapping_dump = Inr doc"
  shows "length (indented 0 doc) < 4000000"
proof -
  have "indent_bound 0 doc < 4000000"
    using assms
    by (elim disjE) (simp_all add: wrong_value_def incomplete_def unwritten_def [abs_def] pop_last_def [abs_def] overlapping_dump_def
        overlapping_states_def history_state_def linearize_action_def update_item_def [abs_def] update_last_def [abs_def] update_list_def [abs_def]
        update_nth_def [abs_def] dict_simps, auto simp: mkdict_def)
  then show ?thesis using length_indented [of 0 doc] by linarith
qed

lemma overlapping_dump_json: "json_ok fr overlapping_dump"
  by (simp add: overlapping_dump_def overlapping_states_def history_state_def linearize_action_def json_ok_mkdict wf_pstr_lit dec.simps)

lemma overlapping_dump_read: "json_loads one_float no_other (dumps False overlapping_dump) = Inr overlapping_dump"
  by (rule json_loads_dumps [OF overlapping_dump_json])

lemma overlapping_dump_verified:
  "verify_witness (json_loads one_float no_other) (PList overlapping) (dumps False overlapping_dump)
     = Inr (witness_dict overlapping_operations (map (Ops overlapping_operations) [1, 3, 2, 4]))"
proof -
  have "linearization overlapping_operations (map (Ops overlapping_operations) [1, 3, 2, 4])"
    by (auto simp: overlapping_operations_def Ops_def linearization_eval lit_def)
  then have "verify_raw (PList overlapping) overlapping_dump
      = Inr (witness_dict overlapping_operations (map (Ops overlapping_operations) [1, 3, 2, 4]))"
    using verify_raw_complete [OF overlapping_valid] overlapping_dump_shown by (simp only: overlapping_history)
  moreover have "0 < length (dumps False overlapping_dump)" by (simp add: overlapping_dump_def mkdict_def dumps_PDict)
  moreover have "length (dumps False overlapping_dump) \<le> 4000000"
    by (rule order_trans [OF length_dumps])
      (simp add: overlapping_dump_def overlapping_states_def history_state_def linearize_action_def print_bound_mkdict)
  ultimately show ?thesis by (simp only: verify_witness_def overlapping_valid overlapping_dump_read) (simp add: require_def guardE_def)
qed

theorem witness_negatives_iff_witness:
  "witness_negatives (\<lambda>_. []) one_float (json_loads one_float no_other) (PList overlapping) (dumps False overlapping_dump) = Inr ()"
proof -
  have "utf8_line (dumps False overlapping_dump)" using utf8_line_ascii dumps_ascii [OF overlapping_dump_json] by blast
  moreover have "13 \<notin> set (dumps False overlapping_dump)" using dumps_ascii [OF overlapping_dump_json, of 13] by auto
  ultimately have iff: "witness_negatives (\<lambda>_. []) one_float (json_loads one_float no_other) (PList overlapping) (dumps False overlapping_dump) = Inr ()
      \<longleftrightarrow> (\<exists>raw wrong partial. json_loads one_float no_other (dumps False overlapping_dump) = Inr raw
        \<and> wrong_value raw = Inr wrong \<and> incomplete raw = Inr partial
        \<and> length (indented 0 wrong) < 4000000 \<and> length (indented 0 partial) < 4000000)"
    by (rule witness_negatives_iff [OF float_printer_one _ _ overlapping_dump_verified])
  have "verify_raw (PList overlapping) overlapping_dump = Inr (witness_dict overlapping_operations (map (Ops overlapping_operations) [1, 3, 2, 4]))"
    using overlapping_dump_verified by (auto simp: verify_witness_def overlapping_dump_read bindE_eq_Inr)
  moreover have "wf_pyval overlapping_dump"
    using json_loads_good [OF float_printer_one _ overlapping_dump_read] \<open>utf8_line (dumps False overlapping_dump)\<close> by (simp add: good_def)
  ultimately obtain wrong partial where "wrong_value overlapping_dump = Inr wrong" "incomplete overlapping_dump = Inr partial"
    using overlapping_cases by metis
  then show ?thesis unfolding iff overlapping_dump_read using overlapping_corrupted_size by blast
qed

end
