(* ===== verification/Read_Verdicts.thy ===== *)
theory Read_Verdicts
  imports Read_Validation
begin

text \<open>
  A \<open>ConformanceError\<close> of \<open>validate\<close> is a verdict on the behaviour in the trace: it is never the
  way a malformed trace, a failed translation or an incomplete run is reported.  The negative suites
  of the checkers count a mutation as rejected exactly when \<open>validate\<close> raises it.
\<close>

section \<open>Operations that give no verdict\<close>

definition silent :: "'a res \<Rightarrow> bool" where
  "silent m \<longleftrightarrow> (\<forall>msg. m \<noteq> Inl (ConformanceError msg))"

named_theorems silent_intros \<open>operations that never raise a ConformanceError\<close>

lemma silent_safe: "safe m \<Longrightarrow> silent m"
  by (auto simp: safe_def silent_def rejects_def is_value_error_def split: exc.splits)

lemma silent_sum [silent_intros]: "silent (Inr x)" "silent (Inl (ValueError s))" "silent (Inl (KeyError s))" "silent (Inl TypeError)"
  "silent (Inl (RuntimeError s))" "silent (Inl IndexError)" "silent (Inl AttributeError)" "silent (Inl OSError)"
  "silent (Inl (ValueErrorArg s v))" "silent (Inl UnicodeEncodeError)" "silent (Inl StopIteration)"
  by (simp_all add: silent_def)

lemma silent_bindE [silent_intros]: "silent m \<Longrightarrow> (\<And>x. silent (f x)) \<Longrightarrow> silent (bindE m f)"
  by (cases m) (auto simp: silent_def)

lemma silent_guardE [silent_intros]: "silent (Inl e :: unit res) \<Longrightarrow> silent (guardE c e)"
  by (auto simp: silent_def guardE_eq_Inl)

lemma silent_if [silent_intros]: "silent a \<Longrightarrow> silent b \<Longrightarrow> silent (if c then a else b)"
  by simp

lemma silent_Let [silent_intros]: "(\<And>x. silent (f x)) \<Longrightarrow> silent (Let v f)"
  by (simp add: Let_def)

lemma silent_cases [silent_intros]:
  "silent a \<Longrightarrow> (\<And>x. silent (g x)) \<Longrightarrow> silent (case m of None \<Rightarrow> a | Some x \<Rightarrow> g x)"
  "(\<And>x y. silent (h x y)) \<Longrightarrow> silent (case p of (x, y) \<Rightarrow> h x y)"
  "silent a \<Longrightarrow> (\<And>b. silent (f1 b)) \<Longrightarrow> (\<And>b. silent (f2 b)) \<Longrightarrow> (\<And>b. silent (f3 b)) \<Longrightarrow> (\<And>b. silent (f4 b))
    \<Longrightarrow> (\<And>b. silent (f5 b)) \<Longrightarrow> (\<And>b. silent (f6 b))
    \<Longrightarrow> silent (case v of PNone \<Rightarrow> a | PBool b \<Rightarrow> f1 b | PInt b \<Rightarrow> f2 b | PFloat b \<Rightarrow> f3 b | PStr b \<Rightarrow> f4 b | PList b \<Rightarrow> f5 b | PDict b \<Rightarrow> f6 b)"
  by (simp_all split: option.splits prod.splits pyval.splits)

lemma silent_mapE [silent_intros]: "(\<And>x. silent (f x)) \<Longrightarrow> silent (mapE f xs)"
  by (induction xs) (auto intro!: silent_intros)

lemma silent_foldE [silent_intros]: "(\<And>s x. silent (f s x)) \<Longrightarrow> silent (foldE f s xs)"
  by (induction xs arbitrary: s) (auto intro!: silent_intros)

lemma silent_values [silent_intros]:
  "silent (require c s)" "silent (Py_Values.fields obj names)" "silent (natural_upto n v)" "silent (payload v)" "silent (in_set v names)"
  "silent (py_in k v)" "silent (message v)" "silent (node_state v)" "silent (observation v)"
  by (intro silent_safe safe_intros)+

lemma silent_access [silent_intros]:
  "silent (getitem obj k)" "silent (setitem k v obj)" "silent (dict_get obj k d)" "silent (iterate obj)" "silent (delitem k obj)"
  by (auto simp: getitem_def setitem_def dict_get_def iterate_def delitem_def intro!: silent_intros)

lemma silent_updates [silent_intros]:
  "(\<And>x. silent (f x)) \<Longrightarrow> silent (update_item k f obj)" "(\<And>x. silent (f x)) \<Longrightarrow> silent (update_each f obj)"
  by (auto simp: update_item_def update_each_def intro!: silent_intros)

lemma silent_kinds [silent_intros]:
  "silent (kind_is s e)" "silent (any_kind s es)" "silent a \<Longrightarrow> silent b \<Longrightarrow> silent (andE a b)"
proof -
  show kind: "silent (kind_is s e)" for s e by (auto simp: kind_is_def intro!: silent_intros)
  show "silent (any_kind s es)" by (induction es) (auto intro!: silent_intros kind)
  show "silent a \<Longrightarrow> silent b \<Longrightarrow> silent (andE a b)" by (auto simp: andE_def intro!: silent_intros)
qed

lemma silent_load [silent_intros]: "(\<And>b. silent (loads b)) \<Longrightarrow> silent (load loads data)"
  by (auto simp: load_def load_rows_def load_event_def intro!: silent_intros)

lemma silent_kind_steps [silent_intros]: "silent (add_step e op kw)" "silent (add_steps e ops)" "silent (kind_steps e kind prior later)"
  by (auto simp: add_step_def add_steps_def kind_steps_def intro!: silent_intros)

lemma silent_sends [silent_intros]: "silent (send_step e kind node st m)" "silent (sends e kind node previous expected)"
  by (auto simp: send_step_def sends_def intro!: silent_intros)

lemma silent_instructions [silent_intros]: "silent (instructions events)"
  by (auto simp: instructions_def instruction_step_def event_steps_def node_of_def intro!: silent_intros)

lemma silent_read_values [silent_intros]: "silent (read_context v)" "silent (bounded_list v)" "silent (read_acks v)" "silent (packet v)"
    "silent (check_bag e k)"
  by (auto simp: read_context_def bounded_list_def read_acks_def packet_def check_bag_def observe_bag_def intro!: silent_intros)

lemma silent_read_state [silent_intros]: "silent (read_state v)"
  by (auto simp: read_state_def read_items_def read_item_def read_write_def intro!: silent_intros)

lemma silent_project [silent_intros]: "silent (project e)"
  by (auto simp: project_def intro!: silent_intros)

lemma silent_read_event [silent_intros]: "silent (load_read_event n ie)"
  by (auto simp: load_read_event_def read_event_kind_def read_event_states_def read_event_input_def check_value_def intro!: silent_intros)

lemma silent_load_read [silent_intros]: "(\<And>b. silent (loads b)) \<Longrightarrow> silent (load_read loads data)"
  by (auto simp: load_read_def load_read_rows_def intro!: silent_intros)

lemma silent_returned [silent_intros]: "silent (ge_zero v)" "silent (all_returned_seen node owners seen ops)"
proof -
  show zero: "silent (ge_zero v)" for v by (cases v) (auto intro!: silent_intros)
  show "silent (all_returned_seen node owners seen ops)"
    by (induction ops) (auto intro!: silent_intros zero split: option.splits)
qed

lemma silent_state_returns [silent_intros]: "silent (state_returns state)"
  by (auto simp: state_returns_def read_return_def write_return_def intro!: silent_intros)

lemma silent_extract [silent_intros]: "silent (extract_history events)"
  by (auto simp: extract_history_def extract_event_def extract_invocation_def invoke_operation_def extract_state_def
      extract_return_def complete_operation_def intro!: silent_intros)

lemma silent_utf8 [silent_intros]: "silent (utf8_encode s)"
  by (auto simp: utf8_encode_def utf8_char_def intro!: silent_intros)

lemma silent_validate_history [silent_intros]: "silent (validate_history ops)"
  by (auto simp: validate_history_def validate_operation_def register_text_def intro!: silent_intros)

lemma silent_replay [silent_intros]: "silent (replay ops order)"
  by (auto simp: replay_def replay_step_def intro!: silent_intros)

lemma silent_verify_witness [silent_intros]: "(\<And>b. silent (loads b)) \<Longrightarrow> silent (verify_witness loads ops data)"
  by (auto simp: verify_witness_def verify_raw_def verify_state_def verify_edge_def witness_vars_def intro!: silent_intros)

lemma silent_check_history [silent_intros]:
  "silent cp \<Longrightarrow> (\<And>b. silent (loads b)) \<Longrightarrow> silent (check_history uword loads cp tlc ops)"
  by (auto simp: check_history_def verdict_def intro!: silent_intros)

section \<open>Verdicts\<close>

text \<open>The runs of TLC on which the consensus checker and the read checker reject a trace.\<close>

definition rejects_trace :: "tlc_run \<Rightarrow> bool" where
  "rejects_trace run \<longleftrightarrow> tlc_returncode run \<noteq> 0
     \<and> (contains (lit ''Error: Deadlock reached.'') (tlc_text run) \<or> contains (lit ''is violated'') (tlc_text run))"

definition rejects_reads :: "tlc_run \<Rightarrow> bool" where
  "rejects_reads run \<longleftrightarrow> tlc_returncode run = 11 \<and> contains (lit ''Error: Deadlock reached.'') (tlc_text run)
     \<or> tlc_returncode run = 12 \<and> contains (lit ''Error: Invariant ReadBarrierInv is violated.'') (tlc_text run)"

lemma silent_json_loads:
  assumes "\<And>b. silent (od b)"
  shows "silent (json_loads fr od b)"
  using assms json_loads_errors [of fr od b] by (fastforce simp: silent_def is_value_error_def)

lemma bindE_verdict: "bindE m f = Inl (ConformanceError msg) \<longleftrightarrow> m = Inl (ConformanceError msg) \<or> (\<exists>x. m = Inr x \<and> f x = Inl (ConformanceError msg))"
  by (cases m) auto

lemma silent_False: "silent m \<Longrightarrow> m = Inl (ConformanceError msg) \<longleftrightarrow> False"
  by (simp add: silent_def)

lemma validate_verdict:
  assumes "\<And>b. silent (loads b)" and "silent cp" and "validate loads cp tlc data = Inl (ConformanceError msg)"
  shows "\<exists>events c steps run. load loads data = Inr events \<and> cp = Inr c \<and> instructions events = Inr steps
    \<and> tlc c (steps_ndjson steps) config = Some run \<and> rejects_trace run"
  using assms(3)
  by (auto simp: validate_def bindE_verdict silent_False [OF silent_load [OF assms(1)]] silent_False [OF assms(2)]
      silent_False [OF silent_instructions] conclude_def rejects_trace_def split: option.splits if_splits)

lemma validate_read_rejects:
  assumes "\<And>b msg. od b \<noteq> Inl (ConformanceError msg)" and "\<And>msg. cp \<noteq> Inl (ConformanceError msg)"
    and "float_printer fr" and "utf8_file data"
    and "validate_read uword (json_loads fr od) cp tlc_trace tlc_read tlc_history data = Inl (ConformanceError msg)"
  shows "\<exists>events projected c steps. load_read (json_loads fr od) data = Inr events \<and> mapE project events = Inr projected
    \<and> cp = Inr c \<and> read_instructions events = Inr steps
    \<and> ((\<exists>consensus run. instructions projected = Inr consensus \<and> tlc_trace c (steps_ndjson consensus) config = Some run \<and> rejects_trace run)
      \<or> conforms tlc_trace c projected
        \<and> (\<exists>run. tlc_read c (steps_ndjson steps) read_cfg = Some run
            \<and> (rejects_reads run
              \<or> completed (tlc_returncode run) (tlc_text run) (length events)
                \<and> (\<exists>history. extract_history events = Inr history
                    \<and> check_history uword (json_loads fr od) cp tlc_history (PList history) = Inr False))))"
proof -
  let ?loads = "json_loads fr od"
  have silent: "silent (?loads b)" "silent cp" for b using assms(1,2) silent_json_loads by (auto simp: silent_def)
  obtain events c where load: "load_read ?loads data = Inr events" and c: "cp = Inr c"
    using assms(5) silent_False [OF silent_load_read [OF silent(1)]] silent_False [OF silent(2)]
    by (auto simp: validate_read_def bindE_verdict)
  obtain rows where "load_read_rows rows = Inr events" using load by (auto simp: load_frames load_with_eq_Inr)
  then have ok: "read_trace_ok events" by (auto simp: load_read_rows_eq_Inr)
  obtain projected where projected: "mapE project events = Inr projected" using projected_trace [OF ok] by blast
  obtain t where t: "write_events projected = Inr t" using projection_written(1) [OF ok projected] by blast
  obtain steps where steps: "read_instructions events = Inr steps" "length steps = length events"
    using read_instructions_ok [OF ok] by blast
  note same = written_projection [OF assms(3,4) load projected t]
  consider (trace) "validate ?loads cp tlc_trace t = Inl (ConformanceError msg)"
    | (reads) run where "validate ?loads cp tlc_trace t = Inr ()" "tlc_read c (steps_ndjson steps) read_cfg = Some run"
        "conclude_read run (length events) = Inl (ConformanceError msg)"
    | (history) run history where "validate ?loads cp tlc_trace t = Inr ()" "tlc_read c (steps_ndjson steps) read_cfg = Some run"
        "conclude_read run (length events) = Inr ()" "extract_history events = Inr history"
        "check_history uword ?loads cp tlc_history (PList history) = Inr False"
    using assms(5) c silent_False [OF silent_extract] silent_False [OF silent_check_history [OF silent(2,1)]]
    by (auto simp: validate_read_def load projected t steps bindE_verdict split: option.splits if_splits)
  then show ?thesis
  proof cases
    case trace
    then show ?thesis using validate_verdict [OF silent trace] same load projected c steps by metis
  next
    case reads
    have "rejects_reads run" using reads(3) by (auto simp: conclude_read_def rejects_reads_def split: if_splits)
    moreover have "conforms tlc_trace c projected" using reads(1) same c by (auto simp: validate_eq_Inr)
    ultimately show ?thesis using reads(2) load projected c steps by blast
  next
    case history
    have "conforms tlc_trace c projected" using history(1) same c by (auto simp: validate_eq_Inr)
    then show ?thesis using history load projected c steps conclude_read_eq_Inr by metis
  qed
qed

text \<open>
  C6: the read checker's \<open>ConformanceError\<close> is a verdict on the behaviour: the file was loaded, its
  projection, its read steps and, for the last case, its history exist, and TLC refused the
  consensus instructions, or accepted them and refused the read steps with a deadlock or a violated
  barrier, or accepted both and the history was found not to be linearizable.
\<close>

theorem rejection_is_semantic:
  assumes "\<And>b msg. od b \<noteq> Inl (ConformanceError msg)" and "\<And>msg. cp \<noteq> Inl (ConformanceError msg)"
    and "float_printer fr" and "utf8_file data"
    and "validate_read uword (json_loads fr od) cp tlc_trace tlc_read tlc_history data = Inl (ConformanceError msg)"
  shows "\<exists>events projected c steps. load_read (json_loads fr od) data = Inr events \<and> mapE project events = Inr projected
    \<and> cp = Inr c \<and> read_instructions events = Inr steps
    \<and> ((\<exists>consensus run. instructions projected = Inr consensus \<and> tlc_trace c (steps_ndjson consensus) config = Some run \<and> rejects_trace run)
      \<or> conforms tlc_trace c projected
        \<and> (\<exists>run. tlc_read c (steps_ndjson steps) read_cfg = Some run
            \<and> (rejects_reads run
              \<or> completed (tlc_returncode run) (tlc_text run) (length events)
                \<and> (\<exists>history. extract_history events = Inr history
                    \<and> check_history uword (json_loads fr od) cp tlc_history (PList history) = Inr False))))"
  using assms by (rule validate_read_rejects)

text \<open>A TLC that refuses the read steps.\<close>

definition deadlocking_tlc :: "pstr \<Rightarrow> pstr \<Rightarrow> pstr \<Rightarrow> tlc_run option" where
  "deadlocking_tlc cp ndjson cfg = Some \<lparr>tlc_returncode = 11, tlc_text = lit ''Error: Deadlock reached.'', tlc_witness = None\<rparr>"

lemma example_refused:
  "validate_read uword (json_loads one_float no_other) (Inr []) example_consensus_tlc deadlocking_tlc dumping_tlc example_read_file
     = Inl (ConformanceError ''Read conformance rejected'')"
proof -
  obtain steps where "read_instructions example_read_trace = Inr steps" using read_instructions_ok [OF example_read_trace_ok] by blast
  moreover have "contains (lit ''Error: Deadlock reached.'') (lit ''Error: Deadlock reached.'')" using containsI [of _ "[]" "[]"] by simp
  ultimately show ?thesis
    by (simp add: validate_read_def example_read_file_loaded example_projections projection_written(1) [OF example_read_trace_ok example_projections]
        example_consensus_validated deadlocking_tlc_def conclude_read_def completed_def)
qed

theorem rejection_is_semantic_witness:
  "\<exists>events projected c steps. load_read (json_loads one_float no_other) example_read_file = Inr events \<and> mapE project events = Inr projected
    \<and> (Inr [] :: pstr res) = Inr c \<and> read_instructions events = Inr steps
    \<and> ((\<exists>consensus run. instructions projected = Inr consensus
          \<and> example_consensus_tlc c (steps_ndjson consensus) config = Some run \<and> rejects_trace run)
      \<or> conforms example_consensus_tlc c projected
        \<and> (\<exists>run. deadlocking_tlc c (steps_ndjson steps) read_cfg = Some run
            \<and> (rejects_reads run
              \<or> completed (tlc_returncode run) (tlc_text run) (length events)
                \<and> (\<exists>history. extract_history events = Inr history
                    \<and> check_history (\<lambda>_. False) (json_loads one_float no_other) (Inr []) dumping_tlc (PList history) = Inr False))))"
  by (rule rejection_is_semantic [OF _ _ float_printer_one example_files_utf8(2) example_refused]) (simp_all add: no_other_def)

end
