(* ===== verification/Command_Lines.thy ===== *)
theory Command_Lines
  imports Witness_Negatives Read_Verdicts
begin

text \<open>
  The command lines of trace_check.py, history_check.py and read_trace_check.py, over the file
  system and the outside world of Tools_Check: what their exit status means.
\<close>

section \<open>The environment of a checker\<close>

text \<open>
  Beside the world of check.py: the decoding of JSON bytes that are not UTF-8, the Unicode part of
  \<open>\\w\<close>, the text of an interpolated value, and TLC on each of the three models under a time limit.
\<close>

record surroundings =
  world :: outside
  other_decode :: "nat list \<Rightarrow> pstr res"
  unicode_word :: "nat \<Rightarrow> bool"
  value_text :: "pyval \<Rightarrow> pstr"
  trace_tlc :: "int \<Rightarrow> pstr \<Rightarrow> pstr \<Rightarrow> pstr \<Rightarrow> tlc_run option"
  read_tlc :: "int \<Rightarrow> pstr \<Rightarrow> pstr \<Rightarrow> pstr \<Rightarrow> tlc_run option"
  history_tlc :: "int \<Rightarrow> pstr \<Rightarrow> pstr \<Rightarrow> pstr \<Rightarrow> tlc_run option"

definition strict_loads :: "surroundings \<Rightarrow> nat list \<Rightarrow> pyval res" where
  "strict_loads env = json_loads (float_repr (world env)) (other_decode env)"

definition validate_trace :: "surroundings \<Rightarrow> file_system \<Rightarrow> int \<Rightarrow> nat list \<Rightarrow> unit res" where
  "validate_trace env fs timeout = validate (strict_loads env) (classpath (world env) fs) (trace_tlc env timeout)"

definition validate_reads :: "surroundings \<Rightarrow> file_system \<Rightarrow> int \<Rightarrow> nat list \<Rightarrow> unit res" where
  "validate_reads env fs timeout =
     validate_read (unicode_word env) (strict_loads env) (classpath (world env) fs)
       (trace_tlc env timeout) (read_tlc env timeout) (history_tlc env timeout)"

definition check_operations :: "surroundings \<Rightarrow> file_system \<Rightarrow> int \<Rightarrow> pyval \<Rightarrow> bool res" where
  "check_operations env fs timeout =
     check_history (unicode_word env) (strict_loads env) (classpath (world env) fs) (history_tlc env timeout)"

text \<open>\<open>witness_negatives\<close> on the file TLC dumped in the run directory of \<open>check\<close>.\<close>

definition check_witnesses :: "surroundings \<Rightarrow> file_system \<Rightarrow> int \<Rightarrow> pyval \<Rightarrow> unit res" where
  "check_witnesses env fs timeout operations =
     bindE (classpath (world env) fs) (\<lambda>cp.
     case Option.bind (history_tlc env timeout cp (history_ndjson operations) history_cfg) tlc_witness of
       None \<Rightarrow> Inl OSError
     | Some data \<Rightarrow> witness_negatives (value_text env) (float_repr (world env)) (strict_loads env) operations data)"

section \<open>The three main functions\<close>

definition trace_main :: "surroundings \<Rightarrow> file_system \<Rightarrow> path list \<Rightarrow> bool \<Rightarrow> int \<Rightarrow> unit res" where
  "trace_main env fs paths run_mutations timeout =
     bindE (require (0 < timeout) ''Timeout must be positive'') (\<lambda>_.
     bindE (verify_upstream (world env) fs) (\<lambda>_.
     bindE (mapE (\<lambda>p. bindE (read_bytes fs p) (validate_trace env fs timeout)) paths) (\<lambda>_.
     if run_mutations then
       bindE (read_bytes fs (hd paths)) (negatives (strict_loads env) (classpath (world env) fs) (trace_tlc env timeout))
     else Inr ())))"

definition history_main :: "surroundings \<Rightarrow> file_system \<Rightarrow> path \<Rightarrow> int \<Rightarrow> unit res" where
  "history_main env fs p timeout =
     bindE (require (0 < timeout) ''Timeout must be positive'') (\<lambda>_.
     bindE (read_bytes fs p) (\<lambda>data.
     bindE (require (0 < length data \<and> length data \<le> 1000000) ''Empty or oversized history'') (\<lambda>_.
     bindE (strict_loads env data) (\<lambda>operations.
     bindE (check_operations env fs timeout operations) (\<lambda>linearizable.
     if linearizable then Inr () else Inl (ConformanceError ''History is not linearizable''))))))"

text \<open>A trace given for a further suite is validated first unless it already was.\<close>

definition run_suite ::
  "surroundings \<Rightarrow> file_system \<Rightarrow> int \<Rightarrow> path list \<Rightarrow> (nat list \<Rightarrow> unit res) \<Rightarrow> path option \<Rightarrow> unit res" where
  "run_suite env fs timeout paths suite option = (case option of
      None \<Rightarrow> Inr ()
    | Some p \<Rightarrow>
        bindE (if p \<notin> set paths then bindE (read_bytes fs p) (validate_reads env fs timeout) else Inr ()) (\<lambda>_.
        bindE (read_bytes fs p) suite))"

definition read_main ::
  "surroundings \<Rightarrow> file_system \<Rightarrow> path list \<Rightarrow> bool \<Rightarrow> path option \<Rightarrow> path option \<Rightarrow> int \<Rightarrow> unit res" where
  "read_main env fs paths run_mutations identity stale timeout =
     bindE (require (0 < timeout) ''Timeout must be positive'') (\<lambda>_.
     bindE (verify_upstream (world env) fs) (\<lambda>_.
     bindE (mapE (\<lambda>p. bindE (read_bytes fs p) (validate_reads env fs timeout)) paths) (\<lambda>_.
     bindE (if run_mutations then
              bindE (read_bytes fs (hd paths)) (read_negatives (strict_loads env) (validate_reads env fs timeout)
                (check_operations env fs timeout) (check_witnesses env fs timeout))
            else Inr ()) (\<lambda>_.
     bindE (run_suite env fs timeout paths (identity_negatives (strict_loads env) (validate_reads env fs timeout)) identity) (\<lambda>_.
     run_suite env fs timeout paths (stale_negatives (strict_loads env) (validate_reads env fs timeout)) stale)))))"

text \<open>The exit status: 2 when the parser finds no path, 1 for any exception, reported or not.\<close>

definition status_of :: "unit res \<Rightarrow> int" where
  "status_of r = (case r of Inr _ \<Rightarrow> 0 | Inl _ \<Rightarrow> 1)"

definition trace_exit_status :: "surroundings \<Rightarrow> file_system \<Rightarrow> path list \<Rightarrow> bool \<Rightarrow> int \<Rightarrow> int" where
  "trace_exit_status env fs paths run_mutations timeout =
     (if paths = [] then 2 else status_of (trace_main env fs paths run_mutations timeout))"

definition history_exit_status :: "surroundings \<Rightarrow> file_system \<Rightarrow> path \<Rightarrow> int \<Rightarrow> int" where
  "history_exit_status env fs p timeout = status_of (history_main env fs p timeout)"

definition read_exit_status ::
  "surroundings \<Rightarrow> file_system \<Rightarrow> path list \<Rightarrow> bool \<Rightarrow> path option \<Rightarrow> path option \<Rightarrow> int \<Rightarrow> int" where
  "read_exit_status env fs paths run_mutations identity stale timeout =
     (if paths = [] then 2 else status_of (read_main env fs paths run_mutations identity stale timeout))"

section \<open>What exit status 0 of the read trace checker means\<close>

text \<open>
  The file \<open>p\<close> holds a read trace whose projection and read steps TLC accepted and whose register
  history is linearizable.
\<close>

definition read_passed :: "surroundings \<Rightarrow> file_system \<Rightarrow> int \<Rightarrow> path \<Rightarrow> bool" where
  "read_passed env fs timeout p \<longleftrightarrow> (\<exists>data events projected steps history c run.
     file_at fs p = Some data \<and> load_read (strict_loads env) data = Inr events \<and> mapE project events = Inr projected
     \<and> classpath (world env) fs = Inr c \<and> conforms (trace_tlc env timeout) c projected
     \<and> read_instructions events = Inr steps \<and> read_tlc env timeout c (steps_ndjson steps) read_cfg = Some run
     \<and> completed (tlc_returncode run) (tlc_text run) (length events)
     \<and> extract_history events = Inr history \<and> linearizable (history_of (PList history)))"

lemma read_bytes_eq_Inr: "read_bytes fs p = Inr b \<longleftrightarrow> file_at fs p = Some b"
  by (auto simp: read_bytes_def split: option.splits)

lemma validate_reads_passed:
  assumes "float_printer (float_repr (world env))" and "file_at fs p = Some data" and "utf8_file data"
    and "validate_reads env fs timeout data = Inr ()"
  shows "read_passed env fs timeout p"
  using validate_read_accepts [OF assms(1,3)] assms(2,4) unfolding read_passed_def validate_reads_def strict_loads_def by metis

lemma status_of_zero: "status_of r = 0 \<longleftrightarrow> r = Inr ()"
  by (auto simp: status_of_def split: sum.splits)

text \<open>
  C8: when read_trace_check.py exits with 0, the vendored specification and the tools are the
  pinned ones, and every given file, read as strict UTF-8, holds a read trace whose consensus
  projection and read steps TLC accepted and whose register history is linearizable.
\<close>

theorem read_trace_exit_zero:
  assumes "read_exit_status env fs paths run_mutations identity stale timeout = 0"
    and "float_printer (float_repr (world env))"
    and "\<And>p data. p \<in> set paths \<Longrightarrow> file_at fs p = Some data \<Longrightarrow> utf8_file data"
  shows "0 < timeout \<and> paths \<noteq> [] \<and> upstream_intact (world env) fs
    \<and> (\<exists>kvs. tools (world env) fs = Inr (PDict kvs) \<and> list_all (pinned (world env) fs) kvs)
    \<and> list_all (read_passed env fs timeout) paths"
proof -
  have paths: "paths \<noteq> []" and run: "read_main env fs paths run_mutations identity stale timeout = Inr ()"
    using assms(1) by (auto simp: read_exit_status_def status_of_zero split: if_splits)
  then obtain us where t: "0 < timeout" and v: "verify_upstream (world env) fs = Inr ()"
    and each: "mapE (\<lambda>p. bindE (read_bytes fs p) (validate_reads env fs timeout)) paths = Inr us"
    by (auto simp: read_main_def bindE_eq_Inr require_eq_Inr)
  have passed: "read_passed env fs timeout p" if "p \<in> set paths" for p
  proof -
    have "\<exists>u. bindE (read_bytes fs p) (validate_reads env fs timeout) = Inr u" using each that mapE_ex_Inr by metis
    then obtain data where "file_at fs p = Some data" "validate_reads env fs timeout data = Inr ()"
      by (auto simp: bindE_eq_Inr read_bytes_eq_Inr)
    then show ?thesis using validate_reads_passed assms(2,3) that by blast
  qed
  moreover have "\<exists>c. classpath (world env) fs = Inr c" using passed [of "hd paths"] paths by (auto simp: read_passed_def)
  ultimately show ?thesis using t paths verify_upstream_intact [OF v] by (auto simp: classpath_eq_Inr list_all_iff)
qed

text \<open>A repository whose trace TLC accepts.\<close>

definition accepting_environment :: surroundings where
  "accepting_environment = \<lparr>world = small_world, other_decode = no_other, unicode_word = (\<lambda>_. False),
     value_text = (\<lambda>_. []), trace_tlc = (\<lambda>_. example_consensus_tlc), read_tlc = (\<lambda>_. accepting_tlc 9),
     history_tlc = (\<lambda>_. dumping_tlc)\<rparr>"

definition traced_files :: file_system where
  "traced_files = cached_files\<lparr>fs_files := ([lit ''trace.ndjson''], example_read_file) # fs_files cached_files\<rparr>"

lemma small_world_one_float: "float_repr small_world = one_float"
  by (simp add: small_world_def one_float_def fun_eq_iff)

lemma traced_passes: "read_exit_status accepting_environment traced_files [[lit ''trace.ndjson'']] False None None 60 = 0"
proof -
  have "verify_upstream small_world traced_files = Inr ()"
    by (rule small_verify) (simp_all add: traced_files_def cached_files_def small_files_def)
  moreover have "classpath small_world traced_files = Inr (path_str [lit ''.cache'', lit ''tla'', lit ''a.jar''])"
    by (rule small_classpath) (simp_all add: traced_files_def cached_files_def small_files_def)
  moreover have "file_at traced_files [lit ''trace.ndjson''] = Some example_read_file" by (simp add: traced_files_def)
  ultimately show ?thesis
    using example_validated [where uword = "\<lambda>_. False"]
    by (simp add: read_exit_status_def read_main_def run_suite_def status_of_def validate_reads_def strict_loads_def read_bytes_def
        accepting_environment_def small_world_one_float)
qed

theorem read_trace_exit_zero_witness:
  "0 < (60 :: int) \<and> [[lit ''trace.ndjson'']] \<noteq> [] \<and> upstream_intact (world accepting_environment) traced_files
    \<and> (\<exists>kvs. tools (world accepting_environment) traced_files = Inr (PDict kvs)
        \<and> list_all (pinned (world accepting_environment) traced_files) kvs)
    \<and> list_all (read_passed accepting_environment traced_files 60) [[lit ''trace.ndjson'']]"
proof (rule read_trace_exit_zero [OF traced_passes])
  show "float_printer (float_repr (world accepting_environment))" by (simp add: accepting_environment_def small_world_one_float float_printer_one)
  show "utf8_file data" if "p \<in> set [[lit ''trace.ndjson'']]" "file_at traced_files p = Some data" for p data
    using that example_files_utf8(2) by (simp add: traced_files_def)
qed

section \<open>What exit status 0 of the other two checkers means\<close>

text \<open>The file \<open>p\<close> holds a consensus trace whose instructions TLC accepted.\<close>

definition trace_passed :: "surroundings \<Rightarrow> file_system \<Rightarrow> int \<Rightarrow> path \<Rightarrow> bool" where
  "trace_passed env fs timeout p \<longleftrightarrow> (\<exists>data events c. file_at fs p = Some data \<and> load (strict_loads env) data = Inr events
     \<and> classpath (world env) fs = Inr c \<and> conforms (trace_tlc env timeout) c events)"

text \<open>
  C24: when trace_check.py exits with 0, the vendored specification and the tools are the pinned ones,
  and every given file holds a consensus trace that \<open>load\<close> accepts and whose instructions TLC accepted.
\<close>

theorem trace_exit_zero:
  assumes "trace_exit_status env fs paths run_mutations timeout = 0"
  shows "0 < timeout \<and> paths \<noteq> [] \<and> upstream_intact (world env) fs
    \<and> (\<exists>kvs. tools (world env) fs = Inr (PDict kvs) \<and> list_all (pinned (world env) fs) kvs)
    \<and> list_all (trace_passed env fs timeout) paths"
proof -
  have paths: "paths \<noteq> []" and run: "trace_main env fs paths run_mutations timeout = Inr ()"
    using assms by (auto simp: trace_exit_status_def status_of_zero split: if_splits)
  then obtain us where t: "0 < timeout" and v: "verify_upstream (world env) fs = Inr ()"
    and each: "mapE (\<lambda>p. bindE (read_bytes fs p) (validate_trace env fs timeout)) paths = Inr us"
    by (auto simp: trace_main_def bindE_eq_Inr require_eq_Inr)
  have passed: "trace_passed env fs timeout p" if "p \<in> set paths" for p
  proof -
    have "\<exists>u. bindE (read_bytes fs p) (validate_trace env fs timeout) = Inr u" using each that mapE_ex_Inr by metis
    then show ?thesis unfolding trace_passed_def by (auto simp: bindE_eq_Inr read_bytes_eq_Inr validate_trace_def validate_eq_Inr)
  qed
  moreover have "\<exists>c. classpath (world env) fs = Inr c" using passed [of "hd paths"] paths by (auto simp: trace_passed_def)
  ultimately show ?thesis using t paths verify_upstream_intact [OF v] by (auto simp: classpath_eq_Inr list_all_iff)
qed

definition consensus_files :: file_system where
  "consensus_files = cached_files\<lparr>fs_files :=
     ([lit ''trace.ndjson''], file_text (consensus_rows example_projections)) # fs_files cached_files\<rparr>"

lemma consensus_passes: "trace_exit_status accepting_environment consensus_files [[lit ''trace.ndjson'']] False 60 = 0"
proof -
  have "verify_upstream small_world consensus_files = Inr ()"
    by (rule small_verify) (simp_all add: consensus_files_def cached_files_def small_files_def)
  moreover have "classpath small_world consensus_files = Inr (path_str [lit ''.cache'', lit ''tla'', lit ''a.jar''])"
    by (rule small_classpath) (simp_all add: consensus_files_def cached_files_def small_files_def)
  moreover have "file_at consensus_files [lit ''trace.ndjson''] = Some (file_text (consensus_rows example_projections))"
    by (simp add: consensus_files_def)
  ultimately show ?thesis
    using example_consensus_validated
    by (simp add: trace_exit_status_def trace_main_def status_of_def validate_trace_def strict_loads_def read_bytes_def
        accepting_environment_def small_world_one_float)
qed

theorem trace_exit_zero_witness:
  "0 < (60 :: int) \<and> [[lit ''trace.ndjson'']] \<noteq> [] \<and> upstream_intact (world accepting_environment) consensus_files
    \<and> (\<exists>kvs. tools (world accepting_environment) consensus_files = Inr (PDict kvs)
        \<and> list_all (pinned (world accepting_environment) consensus_files) kvs)
    \<and> list_all (trace_passed accepting_environment consensus_files 60) [[lit ''trace.ndjson'']]"
  by (rule trace_exit_zero [OF consensus_passes])

text \<open>
  C9: when history_check.py exits with 0, its file has 1 to 1 000 000 bytes and parses to a
  well-formed register history that is linearizable, whatever TLC printed or dumped, and the tools
  were the pinned ones.
\<close>

theorem history_exit_zero:
  assumes "history_exit_status env fs p timeout = 0"
  shows "0 < timeout \<and> (\<exists>kvs. tools (world env) fs = Inr (PDict kvs) \<and> list_all (pinned (world env) fs) kvs)
    \<and> (\<exists>data operations. file_at fs p = Some data \<and> 0 < length data \<and> length data \<le> 1000000
        \<and> strict_loads env data = Inr operations \<and> validate_history operations = Inr ()
        \<and> linearizable (history_of operations))"
proof -
  obtain data operations where "0 < timeout" and "file_at fs p = Some data" "0 < length data" "length data \<le> 1000000"
      "strict_loads env data = Inr operations" and holds: "check_operations env fs timeout operations = Inr True"
    using assms by (auto simp: history_exit_status_def status_of_zero history_main_def bindE_eq_Inr require_eq_Inr read_bytes_eq_Inr
        split: if_splits)
  moreover have "linearizable (history_of operations)" using holds check_history_sound unfolding check_operations_def by blast
  moreover have "validate_history operations = Inr ()" "\<exists>c. classpath (world env) fs = Inr c"
    using holds by (auto simp: check_operations_def check_history_eq_Inr)
  ultimately show ?thesis by (auto simp: classpath_eq_Inr)
qed

definition history_files :: file_system where
  "history_files = cached_files\<lparr>fs_files := ([lit ''history.json''], dumps False (PList example_read_history)) # fs_files cached_files\<rparr>"

lemma example_history_json: "json_ok fr (PList example_read_history)"
  by (simp add: example_read_history_def example_hex json_ok_mkdict wf_pstr_lit dec.simps)
    (simp only: lit_def map_append [symmetric] wf_pstr_lit [unfolded lit_def] simp_thms)

lemma history_passes: "history_exit_status accepting_environment history_files [lit ''history.json''] 60 = 0"
proof -
  let ?data = "dumps False (PList example_read_history)"
  have "length ?data \<le> 1000000"
    by (rule order_trans [OF length_dumps]) (simp add: example_read_history_def example_hex mkdict_def)
  moreover have "0 < length ?data" by simp
  moreover have "json_loads one_float no_other ?data = Inr (PList example_read_history)"
    by (rule json_loads_dumps [OF example_history_json])
  moreover have "classpath small_world history_files = Inr (path_str [lit ''.cache'', lit ''tla'', lit ''a.jar''])"
    by (rule small_classpath) (simp_all add: history_files_def cached_files_def small_files_def)
  moreover have "read_bytes history_files [lit ''history.json''] = Inr ?data" by (simp add: history_files_def read_bytes_def)
  ultimately show ?thesis
    using example_history_checked [where uword = "\<lambda>_. False"]
    by (simp add: history_exit_status_def history_main_def status_of_def check_operations_def strict_loads_def
        accepting_environment_def small_world_one_float del: dumps.simps)
qed

theorem history_exit_zero_witness:
  "0 < (60 :: int) \<and> (\<exists>kvs. tools (world accepting_environment) history_files = Inr (PDict kvs)
        \<and> list_all (pinned (world accepting_environment) history_files) kvs)
    \<and> (\<exists>data operations. file_at history_files [lit ''history.json''] = Some data \<and> 0 < length data \<and> length data \<le> 1000000
        \<and> strict_loads accepting_environment data = Inr operations \<and> validate_history operations = Inr ()
        \<and> linearizable (history_of operations))"
  by (rule history_exit_zero [OF history_passes])

end
