(* ===== verification/Mutation_Verdicts.thy ===== *)
theory Mutation_Verdicts
  imports Json_Updates Read_Verdicts
begin

text \<open>
  What a passed negative suite of read_trace_check.py means: the mutated traces are printed, read
  back as they were changed, and refused for what they show, never for their form.
\<close>

section \<open>Mutations keep a trace printable\<close>

definition keeps_trace :: "(pstr \<Rightarrow> pstr) \<Rightarrow> (pyval list \<Rightarrow> pyval list res) \<Rightarrow> bool" where
  "keeps_trace fr m \<longleftrightarrow> (\<forall>xs ys. list_all (json_ok fr) xs \<longrightarrow> m xs = Inr ys \<longrightarrow> list_all (json_ok fr) ys \<and> length ys = length xs)"

lemma keeps_traceI:
  "(\<And>xs ys. list_all (json_ok fr) xs \<Longrightarrow> m xs = Inr ys \<Longrightarrow> list_all (json_ok fr) ys \<and> length ys = length xs) \<Longrightarrow> keeps_trace fr m"
  by (simp add: keeps_trace_def)

lemma keeps_traceD: "keeps_trace fr m \<Longrightarrow> list_all (json_ok fr) xs \<Longrightarrow> m xs = Inr ys \<Longrightarrow> list_all (json_ok fr) ys \<and> length ys = length xs"
  by (simp add: keeps_trace_def)

lemma json_ok_PInt: "\<bar>i\<bar> < 10 ^ 20 \<Longrightarrow> json_ok fr (PInt i)"
  using length_dec [of "nat \<bar>i\<bar>" 20] by (simp add: nat_less_iff)

lemma json_ok_small [json_intros]: "json_ok fr (PInt 0)" "json_ok fr (PInt 1)" "json_ok fr (PInt 2)"
  by (simp_all add: json_ok_PInt del: json_ok.simps)

lemma wf_pstr_ascii: "\<forall>c \<in> set s. c < 128 \<Longrightarrow> wf_pstr s"
  by (induction s) (auto intro!: wf_pstr_ConsI simp: high_surrogate_def)

lemma json_ok_dec_int [json_intros]: "json_ok fr (PStr (dec_int i))"
  using dec_int_code by (fastforce intro: wf_pstr_ascii)

lemma json_ok_list_item: "json_ok fr v \<Longrightarrow> list_item i v = Inr x \<Longrightarrow> json_ok fr x"
  by (auto simp: list_item_def list_all_length split: pyval.splits if_splits)

lemma json_ok_own: "json_ok fr e \<Longrightarrow> own field e = Inr x \<Longrightarrow> json_ok fr x"
  by (auto simp: own_def bindE_eq_Inr dest: json_ok_getitem json_ok_list_item)

lemma keeps_getitem [json_intros]:
  "(\<And>x. json_ok fr x \<Longrightarrow> keeps_json fr (g x)) \<Longrightarrow> keeps_json fr (\<lambda>e. bindE (getitem e k) (\<lambda>x. g x e))"
  by (rule keeps_jsonI) (auto simp: bindE_eq_Inr dest: json_ok_getitem keeps_jsonD)

lemma keeps_any: "(\<And>x. keeps_json fr (g x)) \<Longrightarrow> keeps_json fr (\<lambda>e. bindE (h e) (\<lambda>x. g x e))"
  by (rule keeps_jsonI) (auto simp: bindE_eq_Inr dest: keeps_jsonD)

lemma keeps_update_own [json_intros]: "keeps_json fr f \<Longrightarrow> keeps_json fr (update_own field f)"
  unfolding update_own_def [abs_def] by (intro keeps_any json_intros)

lemma keeps_duplicate [json_intros]: "keeps_json fr (\<lambda>c. bindE (list_item i c) (\<lambda>x. list_append x c))"
  by (rule keeps_jsonI) (auto simp: bindE_eq_Inr dest: json_ok_list_item keeps_jsonD [OF keeps_list_append])

lemma json_ok_read_index [json_intros]: "json_ok fr c \<Longrightarrow> json_ok fr i \<Longrightarrow> json_ok fr (mkdict [(''context'', c), (''index'', i)])"
  by (simp add: json_ok_mkdict)

lemma json_ok_read_completion [json_intros]:
  "json_ok fr c \<Longrightarrow> json_ok fr i \<Longrightarrow> json_ok fr v \<Longrightarrow> json_ok fr (mkdict [(''context'', c), (''index'', i), (''value'', v)])"
  by (simp add: json_ok_mkdict)

lemma keeps_update_nth [json_intros]: "keeps_json fr f \<Longrightarrow> keeps_trace fr (update_nth i f)"
  by (rule keeps_traceI) (auto simp: json_ok_update_nth, auto simp: update_nth_def bindE_eq_Inr split: if_splits)

lemma keeps_nth_by [json_intros]: "(\<And>i. keeps_trace fr (g i)) \<Longrightarrow> keeps_trace fr (\<lambda>xs. bindE (h xs) (\<lambda>i. g i xs))"
  by (rule keeps_traceI) (auto simp: bindE_eq_Inr dest: keeps_traceD)

lemma keeps_update_first [json_intros]: "keeps_json fr f \<Longrightarrow> keeps_trace fr (update_first p f)"
  unfolding update_first_def [abs_def] by (intro json_intros)

lemma keeps_update_end [json_intros]: "keeps_json fr f \<Longrightarrow> keeps_trace fr (\<lambda>xs. update_nth (length xs - 1) f xs)"
  by (rule keeps_traceI) (rule keeps_traceD [OF keeps_update_nth])

lemma keeps_if [json_intros]: "keeps_trace fr a \<Longrightarrow> keeps_trace fr b \<Longrightarrow> keeps_trace fr (\<lambda>xs. if c then a xs else b xs)"
  by (cases c) simp_all

lemma keeps_duplicate_callback [json_intros]: "keeps_trace fr duplicate_callback"
  unfolding duplicate_callback_def [abs_def] by (intro json_intros)

text \<open>Two mutations compute with integers of the trace, which the schema keeps small.\<close>

lemma own_reads_state:
  assumes "read_event_ok n i e" and "own ''reads'' e = Inr r"
  shows "\<exists>out. read_state r = Inr out"
proof -
  obtain reads sts where "getitem e ''reads'' = Inr (PList reads)" "mapE read_state reads = Inr sts"
    using assms(1) unfolding read_event_ok_def by blast
  then show ?thesis using assms(2) mapE_nth [of read_state reads sts] by (auto simp: own_def bindE_eq_Inr list_item_def split: if_splits)
qed

lemma tracked_index_small:
  assumes "read_state r = Inr out" and "getitem r ''tracked'' = Inr (PList ts)" and "x \<in> set ts" and "getitem x ''index'' = Inr v"
  shows "v = PNone \<or> (\<exists>i. v = PInt i \<and> 0 \<le> i \<and> i \<le> 32)"
proof -
  obtain items where "read_items r ''tracked'' = Inr items" using assms(1) by (auto simp: read_state_def bindE_eq_Inr)
  then have "\<exists>ys. mapE (read_item ''tracked'') ts = Inr ys" using assms(2) by (auto simp: read_items_def bindE_eq_Inr bounded_list_def split: if_splits)
  then obtain item where "read_item ''tracked'' x = Inr item" using assms(3) unfolding mapE_ex_Inr by blast
  then show ?thesis using assms(4) by (auto simp: read_item_def bindE_eq_Inr natural_upto_eq_Inr split: if_splits)
qed

lemma own_commit_small:
  assumes "read_event_ok n i e" and "own ''states'' e = Inr s" and "getitem s ''commit'' = Inr v"
  shows "\<exists>c. v = PInt c \<and> 0 \<le> c \<and> c \<le> 1000000"
proof -
  obtain k p out where p: "project e = Inr p" "observation p = Inr out" using assms(1) by (rule read_event_okE)
  obtain ss sts where ss: "getitem p ''states'' = Inr (PList ss)" "mapE node_state ss = Inr sts"
    using p(2) by (auto simp: observation_eq_Inr observe_states_eq_Inr)
  have "getitem e ''states'' = Inr (PList ss)" using project_getitem(1) [OF p(1), of "''states''"] ss(1) by simp
  then obtain out where "node_state s = Inr out"
    using assms(2) mapE_nth [OF ss(2)] by (auto simp: own_def bindE_eq_Inr list_item_def split: if_splits)
  then show ?thesis using assms(3) by (auto simp: node_state_def bindE_eq_Inr naturals_eq_Inr counter_def)
qed

lemma json_ok_update_list:
  assumes "json_ok fr obj" and "update_list i f obj = Inr obj'"
    and "\<And>x x'. list_item i obj = Inr x \<Longrightarrow> json_ok fr x \<Longrightarrow> f x = Inr x' \<Longrightarrow> json_ok fr x'"
  shows "json_ok fr obj'"
proof -
  obtain xs x' where xs: "obj = PList xs" "i < length xs" "f (xs ! i) = Inr x'" "obj' = PList (xs[i := x'])"
    using assms(2) by (cases obj) (auto simp: update_list_def update_nth_def bindE_eq_Inr split: if_splits)
  then have "json_ok fr x'" using assms(1) assms(3) [of "xs ! i"] by (simp add: list_item_def list_all_length)
  then show ?thesis using assms(1) set_update_subset_insert [of xs i x'] by (auto simp: xs(1,4) list_all_iff)
qed

lemma json_ok_update_own:
  assumes "json_ok fr e" and "update_own field f e = Inr e'"
    and "\<And>r r'. own field e = Inr r \<Longrightarrow> json_ok fr r \<Longrightarrow> f r = Inr r' \<Longrightarrow> json_ok fr r'"
  shows "json_ok fr e'"
proof -
  obtain i where i: "node_index e = Inr i" and e': "update_item field (update_list i f) e = Inr e'"
    using assms(2) by (auto simp: update_own_def bindE_eq_Inr)
  show ?thesis
  proof (rule json_ok_update_item [OF assms(1) e'])
    fix v v' assume v: "getitem e field = Inr v" "update_list i f v = Inr v'"
    show "json_ok fr v'" using v(2)
      by (rule json_ok_update_list [OF json_ok_getitem [OF assms(1) v(1)]]) (rule assms(3), simp_all add: own_def i v(1))
  qed
qed

lemma wrong_index_json:
  assumes "read_event_ok n i e" and "json_ok fr e"
    and "update_own ''reads'' (update_item ''tracked'' (update_list 0 (update_item ''index'' increment))) e = Inr e'"
  shows "json_ok fr e'"
proof (rule json_ok_update_own [OF assms(2,3)])
  fix r r' assume r: "own ''reads'' e = Inr r" "json_ok fr r"
    "update_item ''tracked'' (update_list 0 (update_item ''index'' increment)) r = Inr r'"
  obtain out where out: "read_state r = Inr out" using own_reads_state [OF assms(1) r(1)] by blast
  show "json_ok fr r'"
  proof (rule json_ok_update_item [OF r(2,3)])
    fix ts ts' assume ts: "getitem r ''tracked'' = Inr ts" "update_list 0 (update_item ''index'' increment) ts = Inr ts'"
    show "json_ok fr ts'"
    proof (rule json_ok_update_list [OF json_ok_getitem [OF r(2) ts(1)] ts(2)])
      fix x x' assume x: "list_item 0 ts = Inr x" "json_ok fr x" "update_item ''index'' increment x = Inr x'"
      obtain xs where xs: "ts = PList xs" "x \<in> set xs" using x(1) by (auto simp: list_item_def split: pyval.splits if_splits)
      show "json_ok fr x'"
      proof (rule json_ok_update_item [OF x(2,3)])
        fix v v' assume "getitem x ''index'' = Inr v" "increment v = Inr v'"
        then show "json_ok fr v'" using tracked_index_small [OF out ts(1) [unfolded xs(1)] xs(2)]
          by (auto simp: increment_def json_ok_PInt simp del: json_ok.simps)
      qed
    qed
  qed
qed

lemma apply_ahead_json:
  assumes "read_event_ok n i e" and "json_ok fr e" and "apply_ahead e = Inr e'"
  shows "json_ok fr e'"
proof -
  obtain s commit e1 where s: "own ''states'' e = Inr s" "getitem s ''commit'' = Inr commit"
    "setitem ''value'' (PStr (dec_int (the_int commit + 1))) e = Inr e1"
    "update_own ''reads'' (setitem ''applied'' (PInt (the_int commit + 1))) e1 = Inr e'"
    using assms(3) by (auto simp: apply_ahead_def bindE_eq_Inr)
  have "json_ok fr (PInt (the_int commit + 1))" using own_commit_small [OF assms(1) s(1,2)]
    by (auto simp: json_ok_PInt simp del: json_ok.simps)
  then have "keeps_json fr (update_own ''reads'' (setitem ''applied'' (PInt (the_int commit + 1))))" by (intro json_intros)
  moreover have "json_ok fr e1" using keeps_jsonD [OF keeps_setitem [OF json_ok_dec_int] s(3) assms(2)] .
  ultimately show ?thesis using keeps_jsonD s(4) by blast
qed

lemma update_first_json:
  assumes "read_trace_ok xs" and "list_all (json_ok fr) xs" and "update_first p f xs = Inr ys"
    and "\<And>n i e e'. read_event_ok n i e \<Longrightarrow> json_ok fr e \<Longrightarrow> f e = Inr e' \<Longrightarrow> json_ok fr e'"
  shows "list_all (json_ok fr) ys \<and> length ys = length xs"
proof -
  obtain i e' where i: "i < length xs" "f (xs ! i) = Inr e'" "ys = xs[i := e']"
    using assms(3) by (auto simp: update_first_def update_nth_def bindE_eq_Inr split: if_splits)
  have "json_ok fr e'" using assms(1,2,4) i(1,2) by (auto simp: read_trace_ok_def list_all_length)
  then show ?thesis using assms(2) i(3) set_update_subset_insert [of xs i e'] by (auto simp: list_all_iff)
qed

lemma read_mutate_json:
  assumes "read_trace_ok xs" and "list_all (json_ok fr) xs" and "read_mutate name xs = Inr ys"
  shows "list_all (json_ok fr) ys \<and> length ys = length xs"
proof (cases "name \<in> {''wrong-index'', ''apply-ahead''}")
  case True
  then consider "name = ''wrong-index''" | "name = ''apply-ahead''" by blast
  then show ?thesis
  proof cases
    case 1
    show ?thesis by (rule update_first_json [OF assms(1,2) assms(3) [unfolded 1 read_mutate_def, simplified]]) (rule wrong_index_json)
  next
    case 2
    show ?thesis by (rule update_first_json [OF assms(1,2) assms(3) [unfolded 2 read_mutate_def, simplified]]) (rule apply_ahead_json)
  qed
next
  case False
  then have names: "(name = ''wrong-index'') = False" "(name = ''apply-ahead'') = False" by simp_all
  have "keeps_trace fr (read_mutate name)"
    unfolding read_mutate_def [abs_def] names if_False by (intro json_intros)
  then show ?thesis using keeps_traceD assms(2,3) by blast
qed

lemma keeps_update_context [json_intros]: "keeps_json fr f \<Longrightarrow> keeps_json fr (update_context c f)"
  unfolding update_context_def [abs_def] by (intro keeps_any json_intros)

lemma swap_callbacks_json:
  assumes "json_ok fr e" and "swap_callbacks node a b e = Inr (Some e')"
  shows "json_ok fr e'"
proof -
  obtain i j where "update_item ''reads'' (update_list node (update_item ''writes'' (\<lambda>l.
      bindE (update_list i (setitem ''completed'' (PInt 0)) l) (update_list j (setitem ''completed'' (PInt 1)))))) e = Inr e'"
    using assms(2) by (auto simp: swap_callbacks_def bindE_eq_Inr split: bool.splits option.splits if_splits)
  moreover have "keeps_json fr (update_item ''reads'' (update_list node (update_item ''writes'' (\<lambda>l.
      bindE (update_list i (setitem ''completed'' (PInt 0)) l) (update_list j (setitem ''completed'' (PInt 1)))))))" for i j
    by (intro json_intros)
  ultimately show ?thesis using keeps_jsonD assms(1) by blast
qed

lemma keeps_wrong_write_callback [json_intros]: "keeps_trace fr (wrong_write_callback node a b)"
proof (rule keeps_traceI)
  show "list_all (json_ok fr) ys \<and> length ys = length xs" if "list_all (json_ok fr) xs" "wrong_write_callback node a b xs = Inr ys" for xs ys
    using that by (induction xs arbitrary: ys) (auto simp: bindE_eq_Inr split: option.splits dest: swap_callbacks_json)
qed

lemma identity_mutate_json:
  assumes "list_all (json_ok fr) xs" and "first \<in> set xs" and "second \<in> set xs" and "identity_mutate first second name xs = Inr ys"
  shows "list_all (json_ok fr) ys \<and> length ys = length xs"
proof -
  obtain c d node where ids: "getitem first ''proposal_context'' = Inr c" "getitem second ''proposal_context'' = Inr d"
      "node_index first = Inr node"
    using assms(4) by (auto simp: identity_mutate_def bindE_eq_Inr)
  have c: "json_ok fr c" using ids(1) assms(1,2) json_ok_getitem by (auto simp: list_all_iff)
  have "keeps_trace fr (identity_mutate first second name)"
    unfolding identity_mutate_def [abs_def] ids bindE_simps by (intro json_intros c)
  then show ?thesis using keeps_traceD assms(1,4) by blast
qed

lemma keeps_complete_unconfirmed [json_intros]: "json_ok fr c \<Longrightarrow> keeps_json fr (complete_unconfirmed i c)"
proof (rule keeps_jsonI)
  fix x x' assume c: "json_ok fr c" and x: "json_ok fr x" "complete_unconfirmed i c x = Inr x'"
  obtain rs r applied v where r: "getitem x ''reads'' = Inr rs" "list_item i rs = Inr r" "getitem r ''applied'' = Inr applied"
      "getitem r ''value'' = Inr v" and upd: "update_item ''reads'' (update_list i (update_item ''completed'' (list_append
        (mkdict [(''context'', c), (''index'', applied), (''value'', v)])))) x = Inr x'"
    using x(2) by (auto simp: complete_unconfirmed_def bindE_eq_Inr)
  have "json_ok fr applied" "json_ok fr v"
    using json_ok_getitem json_ok_list_item [OF json_ok_getitem [OF x(1) r(1)] r(2)] r(3,4) by blast+
  then have "keeps_json fr (update_item ''reads'' (update_list i (update_item ''completed'' (list_append
      (mkdict [(''context'', c), (''index'', applied), (''value'', v)])))))" using c by (intro json_intros)
  then show "json_ok fr x'" using keeps_jsonD upd x(1) by blast
qed

lemma stale_ack_nth:
  assumes "json_ok fr (xs ! b)" and "stale_mutate b ''stale-ack'' xs = Inr ys"
  shows "\<exists>i f. update_nth i f xs = Inr ys \<and> keeps_json fr f"
proof -
  obtain m src where m: "getitem (xs ! b) ''input'' = Inr m" "getitem m ''from'' = Inr src"
    and ys: "update_nth b (update_own ''reads'' (update_item ''pending'' (update_list 0 (update_item ''acks'' (list_append src))))) xs = Inr ys"
    using assms(2) by (auto simp: stale_mutate_def Let_def bindE_eq_Inr)
  have "json_ok fr src" using json_ok_getitem [OF json_ok_getitem [OF assms(1) m(1)] m(2)] .
  then have "keeps_json fr (update_own ''reads'' (update_item ''pending'' (update_list 0 (update_item ''acks'' (list_append src)))))"
    by (intro json_intros)
  with ys show ?thesis by blast
qed

lemma revived_read_nth:
  assumes "json_ok fr (xs ! b)" and "stale_mutate b ''revived-read'' xs = Inr ys"
  shows "\<exists>i f. update_nth i f xs = Inr ys \<and> keeps_json fr f"
proof -
  obtain m ctx s commit where m: "getitem (xs ! b) ''input'' = Inr m" "getitem m ''context'' = Inr ctx"
      "own ''states'' (xs ! b) = Inr s" "getitem s ''commit'' = Inr commit"
    and ys: "update_nth b (update_own ''reads'' (update_item ''ready''
      (list_append (mkdict [(''context'', ctx), (''index'', commit)])))) xs = Inr ys"
    using assms(2) by (auto simp: stale_mutate_def Let_def bindE_eq_Inr)
  have "json_ok fr ctx" "json_ok fr commit"
    using json_ok_getitem [OF json_ok_getitem [OF assms(1) m(1)] m(2)] json_ok_getitem [OF json_ok_own [OF assms(1) m(3)] m(4)] .
  then have "keeps_json fr (update_own ''reads'' (update_item ''ready'' (list_append (mkdict [(''context'', ctx), (''index'', commit)]))))"
    by (intro json_intros)
  with ys show ?thesis by blast
qed

lemma unconfirmed_callback_nth:
  assumes "json_ok fr (xs ! b)" and "name \<noteq> ''stale-ack''" and "name \<noteq> ''revived-read''" and "stale_mutate b name xs = Inr ys"
  shows "\<exists>i f. update_nth i f xs = Inr ys \<and> keeps_json fr f"
proof -
  obtain r ps p ctx i k where r: "own ''reads'' (xs ! b) = Inr r" "getitem r ''pending'' = Inr ps" "list_item 0 ps = Inr p"
      "getitem p ''context'' = Inr ctx"
    and ys: "update_nth (b + 1 + k) (complete_unconfirmed i ctx) xs = Inr ys"
    using assms(4) unfolding stale_mutate_def Let_def if_not_P [OF assms(2)] if_not_P [OF assms(3)] bindE_eq_Inr by blast
  have "json_ok fr ctx"
    using json_ok_getitem [OF json_ok_list_item [OF json_ok_getitem [OF json_ok_own [OF assms(1) r(1)] r(2)] r(3)] r(4)] .
  with ys show ?thesis using keeps_complete_unconfirmed by blast
qed

lemma stale_mutate_json:
  assumes "list_all (json_ok fr) xs" and "b < length xs" and "stale_mutate b name xs = Inr ys"
  shows "list_all (json_ok fr) ys \<and> length ys = length xs"
proof -
  have e: "json_ok fr (xs ! b)" using assms(1,2) by (simp add: list_all_length)
  obtain i f where "update_nth i f xs = Inr ys" "keeps_json fr f"
    using stale_ack_nth [OF e] revived_read_nth [OF e] unconfirmed_callback_nth [OF e _ _ assms(3)] assms(3) by metis
  then show ?thesis using keeps_traceD [OF keeps_update_nth assms(1)] by blast
qed

section \<open>The verdict on a mutated trace\<close>

text \<open>The mutations of the three suites; the boundary of the third is an event of the trace.\<close>

definition mutation_of :: "pyval list \<Rightarrow> pyval list res \<Rightarrow> bool" where
  "mutation_of events m \<longleftrightarrow> (\<exists>name. m = read_mutate name events)
     \<or> (\<exists>first second name. {first, second} \<subseteq> set events \<and> m = identity_mutate first second name events)
     \<or> (\<exists>boundary name. boundary < length events \<and> m = stale_mutate boundary name events)"

lemma mutation_json:
  assumes "read_trace_ok events" and "list_all (json_ok fr) events" and "mutation_of events (Inr changed)"
  shows "list_all (json_ok fr) changed" and "length changed = length events"
  using assms read_mutate_json [OF assms(1,2)] identity_mutate_json [OF assms(2)] stale_mutate_json [OF assms(2)]
  unfolding mutation_of_def by (metis insert_subset)+

lemma read_trace_length: "read_trace_ok events \<Longrightarrow> length events \<le> 1000"
  by (simp add: read_trace_ok_def)

lemma renumber_json:
  assumes "list_all (json_ok fr) xs" and "length xs \<le> 1000" and "renumber xs = Inr ys"
  shows "list_all (json_ok fr) ys" and "length ys = length xs"
proof -
  show len: "length ys = length xs" using mapE_length [OF assms(3) [unfolded renumber_def]] by simp
  have "json_ok fr (ys ! i)" if i: "i < length ys" for i
  proof -
    have "setitem ''seq'' (PInt (int i)) (xs ! i) = Inr (ys ! i)"
      using mapE_nth [OF assms(3) [unfolded renumber_def], of i] i len by (simp add: nth_enum_from)
    moreover have "json_ok fr (PInt (int i))" using i len assms(2) by (simp add: json_ok_PInt del: json_ok.simps)
    moreover have "json_ok fr (xs ! i)" using assms(1) i len by (simp add: list_all_length)
    ultimately show ?thesis using keeps_jsonD [OF keeps_setitem] by blast
  qed
  then show "list_all (json_ok fr) ys" by (simp add: list_all_length)
qed

lemma written_back:
  assumes "list_all (json_ok fr) changed" and "length changed \<le> 1000" and "write_read_events changed = Inr t"
  shows "utf8_file t"
    and "load_read (json_loads fr od) t = Inr events' \<Longrightarrow> renumber changed = Inr events'"
proof -
  obtain ys where ys: "renumber changed = Inr ys" and t: "t = file_text (READ_HEADER # ys @ [terminal_row (length ys)])"
    using assms(3) by (auto simp: write_read_events_def write_read_rows_def bindE_eq_Inr file_text_def)
  have rows: "list_all (json_ok fr) (READ_HEADER # ys @ [terminal_row (length ys)])"
    using renumber_json [OF assms(1,2) ys] assms(2) json_ok_headers json_ok_terminal by simp
  show "utf8_file t" unfolding t by (rule utf8_file_text [OF rows])
  show "renumber changed = Inr events'" if "load_read (json_loads fr od) t = Inr events'"
    using that loads_file_text [OF rows] ys by (auto simp: t load_frames load_with_eq_Inr load_read_rows_eq_Inr)
qed

text \<open>
  TLC refused the consensus instructions of the trace's projections, or accepted them and refused
  its read steps, or accepted both and its register history has no linearization.
\<close>

definition refused ::
  "(nat \<Rightarrow> bool) \<Rightarrow> (nat list \<Rightarrow> pyval res) \<Rightarrow> pstr res \<Rightarrow> (pstr \<Rightarrow> pstr \<Rightarrow> pstr \<Rightarrow> tlc_run option)
   \<Rightarrow> (pstr \<Rightarrow> pstr \<Rightarrow> pstr \<Rightarrow> tlc_run option) \<Rightarrow> (pstr \<Rightarrow> pstr \<Rightarrow> pstr \<Rightarrow> tlc_run option) \<Rightarrow> pyval list \<Rightarrow> bool" where
  "refused uword loads cp tlc_trace tlc_read tlc_history events \<longleftrightarrow> (\<exists>projected c steps.
     mapE project events = Inr projected \<and> cp = Inr c \<and> read_instructions events = Inr steps
     \<and> ((\<exists>consensus run. instructions projected = Inr consensus \<and> tlc_trace c (steps_ndjson consensus) config = Some run \<and> rejects_trace run)
       \<or> conforms tlc_trace c projected
         \<and> (\<exists>run. tlc_read c (steps_ndjson steps) read_cfg = Some run
             \<and> (rejects_reads run
               \<or> completed (tlc_returncode run) (tlc_text run) (length events)
                 \<and> (\<exists>history. extract_history events = Inr history
                     \<and> check_history uword loads cp tlc_history (PList history) = Inr False)))))"

lemma reject_mutation_eq_Inr:
  "reject_mutation validator m = Inr () \<longleftrightarrow>
     (\<exists>changed t msg. m = Inr changed \<and> write_read_events changed = Inr t \<and> validator t = Inl (ConformanceError msg))"
proof -
  have "expect_conformance r = Inr () \<longleftrightarrow> (\<exists>msg. r = Inl (ConformanceError msg))" for r
    by (simp add: expect_conformance_def split: sum.split exc.split)
  then show ?thesis by (simp add: reject_mutation_def bindE_eq_Inr)
qed

text \<open>
  C7: a mutation of a loaded read trace counts as rejected only if the mutated events, renumbered,
  are a trace \<open>load\<close> accepts and TLC or the history check refused its behaviour: no mutation passes
  for being malformed, unprintable or untranslatable.
\<close>

theorem mutations_judged:
  assumes "float_printer fr" and "\<And>b msg. od b \<noteq> Inl (ConformanceError msg)" and "\<And>msg. cp \<noteq> Inl (ConformanceError msg)"
    and "utf8_file data" and "load_read (json_loads fr od) data = Inr events" and "mutation_of events m"
    and "reject_mutation (validate_read uword (json_loads fr od) cp tlc_trace tlc_read tlc_history) m = Inr ()"
  shows "\<exists>changed t mutated. m = Inr changed \<and> write_read_events changed = Inr t \<and> renumber changed = Inr mutated
    \<and> load_read (json_loads fr od) t = Inr mutated
    \<and> refused uword (json_loads fr od) cp tlc_trace tlc_read tlc_history mutated"
proof -
  obtain changed t msg where m: "m = Inr changed" and t: "write_read_events changed = Inr t"
    and rejected: "validate_read uword (json_loads fr od) cp tlc_trace tlc_read tlc_history t = Inl (ConformanceError msg)"
    using assms(7) by (auto simp: reject_mutation_eq_Inr)
  obtain rows where rows: "mapE (json_loads fr od) (splitlines data) = Inr rows" "load_read_rows rows = Inr events"
    using assms(5) by (auto simp: load_frames load_with_eq_Inr)
  then obtain header terminal where shape: "rows = header # events @ [terminal]" and ok: "read_trace_ok events"
    by (auto simp: load_read_rows_eq_Inr)
  have json: "list_all (json_ok fr) events"
    using utf8_file_good [OF assms(1,4) rows(1)] by (simp add: shape good_def list_all_iff)
  note changed = mutation_json [OF ok json assms(6) [unfolded m]]
  note reread = written_back [OF changed(1) _ t, unfolded changed(2), OF read_trace_length [OF ok]]
  obtain mutated where mutated: "load_read (json_loads fr od) t = Inr mutated"
    and refusal: "refused uword (json_loads fr od) cp tlc_trace tlc_read tlc_history mutated"
    using validate_read_rejects [OF assms(2,3,1) reread(1) rejected] unfolding refused_def by blast
  show ?thesis using m t reread(2) [OF mutated] mutated refusal by blast
qed

text \<open>A write reported complete with its proposal, refused by a TLC that finds a deadlock.\<close>

definition early_write_trace :: "pyval list" where
  "early_write_trace = example_read_trace[4 := example_read_event ''propose'' 4 1 ''x'' ''p'' [read_done ''a'' ''''] [write_done 1]]"

lemma early_write: "read_mutate ''early-write-callback'' example_read_trace = Inr early_write_trace"
  by (simp add: read_mutate_def update_first_def kind_is_def example_read_trace_def example_read_event_def early_write_trace_def
      update_own_def update_nth_def update_item_def update_list_def update_last_def node_index_def example_reads_def write_done_def dict_simps)

lemma early_write_length: "length example_read_trace = 9" "length early_write_trace = 9"
  by (simp_all add: early_write_trace_def example_read_trace_def)

lemma early_write_ok: "read_trace_ok early_write_trace"
proof -
  have nth: "early_write_trace ! i = (if i = 4 then example_read_event ''propose'' 4 1 ''x'' ''p'' [read_done ''a'' ''''] [write_done 1]
      else example_read_trace ! i)" for i
    by (simp add: early_write_trace_def nth_list_update early_write_length(1))
  have "read_event_ok 9 4 (example_read_event ''propose'' 4 1 ''x'' ''p'' [read_done ''a'' ''''] [write_done 1])"
    using example_read_event_ok [where i = 4 and n = 9, of "''propose''" 1 "''x''" "''p''"]
    by (simp add: example_kinds_def example_reads_in_def)
  then have "read_event_ok 9 i (early_write_trace ! i)" if "i < 9" for i
    using example_read_trace_ok that by (simp add: nth read_trace_ok_def early_write_length(1))
  moreover have "kind_is ''read'' (early_write_trace ! 2) = Inr True" "kind_is ''complete_reads'' (early_write_trace ! 3) = Inr True"
    by (simp_all add: nth example_read_trace_def example_read_event_def kind_is_def dict_simps)
  then have "\<exists>e \<in> set early_write_trace. kind_is ''read'' e = Inr True" "\<exists>e \<in> set early_write_trace. kind_is ''complete_reads'' e = Inr True"
    using nth_mem [of 2 early_write_trace] nth_mem [of 3 early_write_trace] by (auto simp: early_write_length)
  ultimately show ?thesis by (simp add: read_trace_ok_def early_write_length)
qed

lemma early_write_written:
  "write_read_events early_write_trace = Inr (file_text (READ_HEADER # early_write_trace @ [terminal_row 9]))"
proof -
  have "renumber early_write_trace = Inr early_write_trace"
    by (rule renumber_same) (use read_trace_numbered [OF early_write_ok] in \<open>simp add: numbered_def\<close>)
  then show ?thesis by (simp add: write_read_events_def write_read_rows_def file_text_def early_write_length)
qed

lemma early_write_loaded:
  "load_read (json_loads one_float no_other) (file_text (READ_HEADER # early_write_trace @ [terminal_row 9])) = Inr early_write_trace"
proof -
  have "load_read_rows (READ_HEADER # early_write_trace @ [terminal_row 9]) = Inr early_write_trace"
    using early_write_ok unfolding load_read_rows_split by (simp add: early_write_length)
  moreover have "list_all (json_ok one_float) early_write_trace"
    using read_mutate_json [OF example_read_trace_ok _ early_write, of one_float] example_read_rows_json [of one_float] by simp
  then have "list_all (json_ok one_float) (READ_HEADER # early_write_trace @ [terminal_row 9])"
    using json_ok_headers json_ok_terminal by simp
  moreover have "length (file_text (READ_HEADER # early_write_trace @ [terminal_row 9])) \<le> 16000000"
    by (rule order_trans [OF length_file_text])
      (simp add: READ_HEADER_def HEADER_def dict_with_def mkdict_def terminal_row_def early_write_trace_def example_read_trace_def
        example_read_event_def example_node_def example_reads_def read_done_def write_done_def)
  ultimately show ?thesis using load_file_text [where check = load_read_rows] by (simp add: load_frames)
qed

lemma early_write_rejected:
  "reject_mutation (validate_read (\<lambda>_. False) (json_loads one_float no_other) (Inr []) example_consensus_tlc deadlocking_tlc dumping_tlc)
     (read_mutate ''early-write-callback'' example_read_trace) = Inr ()"
proof -
  have projected: "mapE project early_write_trace = Inr example_projections"
    by (simp add: early_write_trace_def example_read_trace_def example_projections_def example_project example_kinds_def
        projected_kind_def READ_EVENTS_def)
  obtain steps where "read_instructions early_write_trace = Inr steps" using read_instructions_ok [OF early_write_ok] by blast
  moreover have "contains (lit ''Error: Deadlock reached.'') (lit ''Error: Deadlock reached.'')" using containsI [of _ "[]" "[]"] by simp
  ultimately have "validate_read (\<lambda>_. False) (json_loads one_float no_other) (Inr []) example_consensus_tlc deadlocking_tlc dumping_tlc
      (file_text (READ_HEADER # early_write_trace @ [terminal_row 9])) = Inl (ConformanceError ''Read conformance rejected'')"
    by (simp add: validate_read_def early_write_loaded projected projection_written(1) [OF early_write_ok projected]
        example_consensus_validated deadlocking_tlc_def conclude_read_def completed_def)
  then show ?thesis by (simp add: reject_mutation_eq_Inr early_write early_write_written)
qed

theorem mutations_judged_witness:
  "\<exists>changed t mutated. read_mutate ''early-write-callback'' example_read_trace = Inr changed \<and> write_read_events changed = Inr t
    \<and> renumber changed = Inr mutated \<and> load_read (json_loads one_float no_other) t = Inr mutated
    \<and> refused (\<lambda>_. False) (json_loads one_float no_other) (Inr []) example_consensus_tlc deadlocking_tlc dumping_tlc mutated"
proof (rule mutations_judged [OF float_printer_one _ _ example_files_utf8(2) example_read_file_loaded _ early_write_rejected])
  show "mutation_of example_read_trace (read_mutate ''early-write-callback'' example_read_trace)" by (auto simp: mutation_of_def)
qed (simp_all add: no_other_def)

end
