(* ===== verification/Read_Index_Check.thy ===== *)
theory Read_Index_Check
  imports Tools_Facts
begin

text \<open>
  read_index_check.py: the design check of ReadIndex.  Each profile changes one setting of the
  model's configuration, or adds one invariant, and expects a completed exhaustive check or one
  concrete counterexample.
\<close>

section \<open>Replacing text\<close>

text \<open>\<open>s.split(old)\<close>, behind \<open>s.count(old)\<close> and \<open>s.replace(old, new)\<close> for a non-empty \<open>old\<close>.\<close>

function split_str :: "pstr \<Rightarrow> pstr \<Rightarrow> pstr list" where
  "split_str old s = (case s of
      [] \<Rightarrow> [[]]
    | c # r \<Rightarrow>
        if old \<noteq> [] \<and> starts_with old s then [] # split_str old (drop (length old) s)
        else (case split_str old r of p # ps \<Rightarrow> (c # p) # ps | [] \<Rightarrow> [[c]]))"
  by pat_completeness auto
termination by (relation "measure (length \<circ> snd)") auto

declare split_str.simps [simp del]

definition count_str :: "pstr \<Rightarrow> pstr \<Rightarrow> nat" where
  "count_str old s = length (split_str old s) - 1"

definition replace_str :: "pstr \<Rightarrow> pstr \<Rightarrow> pstr \<Rightarrow> pstr" where
  "replace_str old new s = join new (split_str old s)"

section \<open>Profiles\<close>

text \<open>The replacements of a profile and the invariant whose violation it expects.\<close>

definition PROFILES :: "(string \<times> (string \<times> string) list \<times> string option) list" where
  "PROFILES =
     [(''single'', [(''Nodes = {1, 2, 3}'', ''Nodes = {1}'')], None),
      (''safe'', [], None),
      (''no-current-term'', [(''RequireCurrentTerm = TRUE'', ''RequireCurrentTerm = FALSE'')], Some ''ReadIndexSafety''),
      (''no-quorum'', [(''RequireQuorum = TRUE'', ''RequireQuorum = FALSE'')], Some ''ReadIndexSafety''),
      (''no-apply'', [(''RequireApplied = TRUE'', ''RequireApplied = FALSE'')], Some ''AppliedBarrier''),
      (''completion-witness'', [], Some ''NoCompletedRead''),
      (''batch-witness'', [], Some ''NoBatchedRelease'')]"

definition validate_result :: "(nat \<Rightarrow> bool) \<Rightarrow> int \<Rightarrow> pstr \<Rightarrow> string option \<Rightarrow> unit res" where
  "validate_result uword returncode t expected = (case expected of
      Some name \<Rightarrow>
        if returncode = 12 \<and> violations uword t = [lit name] \<and> contains behavior_text t \<and> has_state_two t then Inr ()
        else Inl (RuntimeError ''Expected a concrete counterexample; incomplete runs and tool errors do not count'')
    | None \<Rightarrow>
        if returncode \<noteq> 0 \<or> violations uword t \<noteq> [] \<or> \<not> contains no_error_text t
          \<or> summaries t = [] \<or> (case last (summaries t) of (_, found, queue) \<Rightarrow> queue \<noteq> lit ''0'' \<or> undec found \<le> 1)
        then Inl (RuntimeError ''TLC did not complete a nontrivial exhaustive check with an empty queue'')
        else Inr ())"

section \<open>run\<close>

definition replace_setting :: "pstr \<Rightarrow> string \<times> string \<Rightarrow> pstr res" where
  "replace_setting cfg setting = (case setting of (old, new) \<Rightarrow>
     if count_str (lit old) cfg \<noteq> 1 then Inl (RuntimeError ''Ambiguous or missing configuration setting'')
     else Inr (replace_str (lit old) (lit new) cfg))"

text \<open>\<open>f"{expected}"\<close> of \<open>None\<close> is the text None, which no profile ending in \<open>-witness\<close> has.\<close>

definition profile_config :: "string \<Rightarrow> (string \<times> string) list \<Rightarrow> string option \<Rightarrow> pstr \<Rightarrow> pstr res" where
  "profile_config profile replacements expected cfg =
     bindE (foldE replace_setting cfg replacements) (\<lambda>cfg.
     Inr (if ends_with (lit ''-witness'') (lit profile)
          then cfg @ [10] @ lit ''INVARIANT '' @ lit (case expected of Some name \<Rightarrow> name | None \<Rightarrow> ''None'') @ [10]
          else cfg))"

definition run :: "(nat \<Rightarrow> bool) \<Rightarrow> outside \<Rightarrow> tlc_process \<Rightarrow> file_system \<Rightarrow> int \<Rightarrow> string \<Rightarrow> unit res" where
  "run uword w tlc fs timeout profile =
     bindE (classpath w fs) (\<lambda>cp.
     case map_of PROFILES profile of
       None \<Rightarrow> Inl (KeyError profile)
     | Some (replacements, expected) \<Rightarrow>
         bindE (read_bytes fs (root w @ [lit ''models'', lit ''RaftzReadIndex.tla''])) (\<lambda>model.
         bindE (read_text fs (root w @ [lit ''models'', lit ''ReadIndex.cfg''])) (\<lambda>cfg.
         bindE (profile_config profile replacements expected cfg) (\<lambda>cfg.
         bindE (utf8_encode cfg) (\<lambda>bytes.
         case tlc (tlc_command cp (run_directory w fs (''read-index-'' @ profile @ ''-'')) ''ReadIndex.cfg'' [] ''RaftzReadIndex.tla'')
             [(lit ''ReadIndex.cfg'', bytes), (lit ''RaftzReadIndex.tla'', model)] timeout of
           None \<Rightarrow> Inl (RuntimeError ''TLC timed out, NOT a pass'')
         | Some result \<Rightarrow> validate_result uword (tlc_returncode result) (tlc_text result) expected)))))"

definition read_index_main :: "(nat \<Rightarrow> bool) \<Rightarrow> outside \<Rightarrow> tlc_process \<Rightarrow> file_system \<Rightarrow> int \<Rightarrow> unit res" where
  "read_index_main uword w tlc fs timeout =
     bindE (verify_upstream w fs) (\<lambda>_.
     bindE (mapE (run uword w tlc fs timeout) (map fst PROFILES)) (\<lambda>_. Inr ()))"

definition read_index_exit_status :: "(nat \<Rightarrow> bool) \<Rightarrow> outside \<Rightarrow> tlc_process \<Rightarrow> file_system \<Rightarrow> int \<Rightarrow> int" where
  "read_index_exit_status uword w tlc fs timeout =
     (if timeout \<le> 0 then 2 else (case read_index_main uword w tlc fs timeout of Inr _ \<Rightarrow> 0 | Inl _ \<Rightarrow> 1))"

section \<open>Replacing exactly one setting\<close>

lemma split_str_Cons:
  "split_str old (c # r) =
     (if old \<noteq> [] \<and> starts_with old (c # r) then [] # split_str old (drop (length old) (c # r))
      else (case split_str old r of p # ps \<Rightarrow> (c # p) # ps | [] \<Rightarrow> [[c]]))"
  by (subst split_str.simps) simp

lemma split_str_not_Nil [simp]: "split_str old s \<noteq> []"
  by (subst split_str.simps) (auto split: list.splits)

lemma split_str_single: "split_str old s = [p] \<Longrightarrow> p = s \<and> (old \<noteq> [] \<longrightarrow> \<not> contains old s)"
proof (induction old s arbitrary: p rule: split_str.induct)
  case (1 old s)
  show ?case
  proof (cases s)
    case Nil
    then show ?thesis using "1.prems" by (simp add: split_str.simps)
  next
    case (Cons c r)
    obtain q qs where q: "split_str old r = q # qs" by (cases "split_str old r") simp_all
    have no: "\<not> (old \<noteq> [] \<and> starts_with old s)" using "1.prems" Cons by (auto simp: split_str_Cons)
    then have "qs = []" "p = c # q" using "1.prems" Cons q by (auto simp: split_str_Cons)
    then show ?thesis using "1.IH"(2) [OF Cons no, of q] q no Cons by (auto simp: starts_with_def)
  qed
qed

text \<open>A unique occurrence: the text around it does not contain \<open>old\<close>, and only it is replaced.\<close>

lemma split_str_pair:
  "split_str old s = [a, b] \<Longrightarrow> s = a @ old @ b"
proof (induction old s arbitrary: a rule: split_str.induct)
  case (1 old s)
  obtain c r where s: "s = c # r" using "1.prems" by (cases s) (auto simp: split_str.simps)
  show ?case
  proof (cases "old \<noteq> [] \<and> starts_with old s")
    case True
    then have "a = []" "split_str old (drop (length old) s) = [b]" using "1.prems" s by (auto simp: split_str_Cons)
    moreover have "s = old @ drop (length old) s" using True by (metis append_take_drop_id starts_with_def)
    ultimately show ?thesis using split_str_single by force
  next
    case False
    obtain q qs where q: "split_str old r = q # qs" by (cases "split_str old r") simp_all
    then have "a = c # q" "qs = [b]" using "1.prems" s False by (auto simp: split_str_Cons)
    then show ?thesis using "1.IH"(2) [OF s False, of q] q s by simp
  qed
qed

lemma count_str_one:
  assumes "count_str old s = 1"
  obtains a b where "s = a @ old @ b" and "replace_str old new s = a @ new @ b"
proof -
  have "length (split_str old s) = 2" using assms by (simp add: count_str_def)
  then obtain a b where "split_str old s = [a, b]"
    by (cases "split_str old s"; cases "tl (split_str old s)") auto
  with split_str_pair [OF this] show thesis by (intro that [of a b]) (simp_all add: replace_str_def)
qed

end
