(* ===== verification/Read_Index_Facts.thy ===== *)
theory Read_Index_Facts
  imports Read_Index_Check History_Runs
begin

text \<open>
  What a passing ReadIndex design check establishes: which configuration TLC saw for every profile,
  and what it reported.
\<close>

section \<open>Configurations\<close>

text \<open>Each replacement changes one place of the configuration.\<close>

fun settings_changed :: "(string \<times> string) list \<Rightarrow> pstr \<Rightarrow> pstr \<Rightarrow> bool" where
  "settings_changed [] cfg cfg' \<longleftrightarrow> cfg' = cfg"
| "settings_changed ((old, new) # rest) cfg cfg' \<longleftrightarrow>
     (\<exists>a b. cfg = a @ lit old @ b \<and> count_str (lit old) cfg = 1 \<and> settings_changed rest (a @ lit new @ b) cfg')"

lemma replace_settings: "foldE replace_setting cfg replacements = Inr cfg' \<Longrightarrow> settings_changed replacements cfg cfg'"
proof (induction replacements arbitrary: cfg)
  case (Cons setting rest)
  obtain old new where setting: "setting = (old, new)" by (cases setting)
  then have one: "count_str (lit old) cfg = 1" and rest: "foldE replace_setting (replace_str (lit old) (lit new) cfg) rest = Inr cfg'"
    using Cons.prems by (auto simp: replace_setting_def [of _ "(old, new)"] bindE_eq_Inr split: if_splits)
  obtain a b where "cfg = a @ lit old @ b" "replace_str (lit old) (lit new) cfg = a @ lit new @ b"
    using count_str_one [OF one] .
  with Cons.IH [OF rest] one setting show ?case by auto
qed simp

section \<open>Results\<close>

definition result_ok :: "(nat \<Rightarrow> bool) \<Rightarrow> string option \<Rightarrow> tlc_run \<Rightarrow> bool" where
  "result_ok uword expected result \<longleftrightarrow> (case expected of
      Some name \<Rightarrow> tlc_returncode result = 12 \<and> violations uword (tlc_text result) = [lit name]
        \<and> contains behavior_text (tlc_text result) \<and> has_state_two (tlc_text result)
    | None \<Rightarrow> tlc_returncode result = 0 \<and> violations uword (tlc_text result) = [] \<and> contains no_error_text (tlc_text result)
        \<and> (\<exists>sums generated found. summaries (tlc_text result) = sums @ [(generated, found, lit ''0'')] \<and> 1 < undec found))"

lemma validate_result_eq_Inr:
  "validate_result uword (tlc_returncode result) (tlc_text result) expected = Inr u \<longleftrightarrow> result_ok uword expected result"
proof (cases expected)
  case None
  show ?thesis
    by (cases "summaries (tlc_text result)" rule: rev_cases) (auto simp: None validate_result_def result_ok_def not_le split: prod.splits)
qed (simp add: validate_result_def result_ok_def)

text \<open>
  The evidence for a profile: with the verified tools, TLC checked the model under the shared
  configuration with exactly the profile's change, and reported what the profile expects.
\<close>

definition design_checked :: "(nat \<Rightarrow> bool) \<Rightarrow> outside \<Rightarrow> tlc_process \<Rightarrow> file_system \<Rightarrow> int
    \<Rightarrow> string \<times> (string \<times> string) list \<times> string option \<Rightarrow> bool" where
  "design_checked uword w tlc fs timeout row \<longleftrightarrow> (case row of (profile, replacements, expected) \<Rightarrow>
     \<exists>cp model cfg cfg' bytes result. classpath w fs = Inr cp
       \<and> read_bytes fs (root w @ [lit ''models'', lit ''RaftzReadIndex.tla'']) = Inr model
       \<and> read_text fs (root w @ [lit ''models'', lit ''ReadIndex.cfg'']) = Inr cfg
       \<and> settings_changed replacements cfg cfg'
       \<and> utf8_encode (if ends_with (lit ''-witness'') (lit profile)
           then cfg' @ [10] @ lit ''INVARIANT '' @ lit (case expected of Some name \<Rightarrow> name | None \<Rightarrow> ''None'') @ [10] else cfg') = Inr bytes
       \<and> tlc (tlc_command cp (run_directory w fs (''read-index-'' @ profile @ ''-'')) ''ReadIndex.cfg'' [] ''RaftzReadIndex.tla'')
           [(lit ''ReadIndex.cfg'', bytes), (lit ''RaftzReadIndex.tla'', model)] timeout = Some result
       \<and> result_ok uword expected result)"

lemma run_design_checked:
  assumes "run uword w tlc fs timeout profile = Inr u" and "map_of PROFILES profile = Some (replacements, expected)"
  shows "design_checked uword w tlc fs timeout (profile, replacements, expected)"
proof -
  obtain cp model cfg cfg1 bytes result where steps: "classpath w fs = Inr cp"
    "read_bytes fs (root w @ [lit ''models'', lit ''RaftzReadIndex.tla'']) = Inr model"
    "read_text fs (root w @ [lit ''models'', lit ''ReadIndex.cfg'']) = Inr cfg"
    "profile_config profile replacements expected cfg = Inr cfg1" "utf8_encode cfg1 = Inr bytes"
    "tlc (tlc_command cp (run_directory w fs (''read-index-'' @ profile @ ''-'')) ''ReadIndex.cfg'' [] ''RaftzReadIndex.tla'')
           [(lit ''ReadIndex.cfg'', bytes), (lit ''RaftzReadIndex.tla'', model)] timeout = Some result"
    "validate_result uword (tlc_returncode result) (tlc_text result) expected = Inr u"
    using assms(1) unfolding run_def assms(2) option.case prod.case bindE_eq_Inr case_option_eq_Inr by blast
  obtain cfg' where "foldE replace_setting cfg replacements = Inr cfg'"
    and cfg1: "cfg1 = (if ends_with (lit ''-witness'') (lit profile)
           then cfg' @ [10] @ lit ''INVARIANT '' @ lit (case expected of Some name \<Rightarrow> name | None \<Rightarrow> ''None'') @ [10] else cfg')"
    using steps(4) unfolding profile_config_def bindE_eq_Inr by blast
  from replace_settings [OF this(1)] steps cfg1 show ?thesis
    unfolding design_checked_def prod.case validate_result_eq_Inr by blast
qed

lemma PROFILES_distinct: "(profile, replacements, expected) \<in> set PROFILES \<Longrightarrow> map_of PROFILES profile = Some (replacements, expected)"
  by (auto simp: PROFILES_def)

section \<open>A passing design check\<close>

definition design_settings :: "string list" where
  "design_settings = [''Nodes = {1, 2, 3}'', ''RequireCurrentTerm = TRUE'', ''RequireQuorum = TRUE'', ''RequireApplied = TRUE'']"

definition design_cfg :: pstr where
  "design_cfg = lit ''Nodes = {1, 2, 3} RequireCurrentTerm = TRUE RequireQuorum = TRUE RequireApplied = TRUE''"

definition design_files :: file_system where
  "design_files = cached_files\<lparr>fs_files := ([lit ''formal'', lit ''models'', lit ''ReadIndex.cfg''], design_cfg)
     # ([lit ''formal'', lit ''models'', lit ''RaftzReadIndex.tla''], []) # fs_files cached_files\<rparr>"

definition violation_log :: "string \<Rightarrow> pstr" where
  "violation_log name = (lit ''Error: Invariant '' @ lit name @ lit '' is violated.'') @ 10 # behavior_text @ 10 # lit ''State 2: <Next>''"

text \<open>A TLC that recognises the runs of the profiles.\<close>

definition design_command :: "string \<Rightarrow> pstr list" where
  "design_command profile = tlc_command (path_str [lit ''.cache'', lit ''tla'', lit ''a.jar''])
     (run_directory small_world design_files (''read-index-'' @ profile @ ''-'')) ''ReadIndex.cfg'' [] ''RaftzReadIndex.tla''"

definition expected_run :: "string option \<Rightarrow> tlc_run" where
  "expected_run expected = (case expected of
      Some name \<Rightarrow> \<lparr>tlc_returncode = 12, tlc_text = violation_log name, tlc_witness = None\<rparr>
    | None \<Rightarrow> \<lparr>tlc_returncode = 0, tlc_text = exhausted_log, tlc_witness = None\<rparr>)"

definition design_tlc :: tlc_process where
  "design_tlc command inputs timeout =
     map_of (map (\<lambda>(profile, _, expected). (design_command profile, expected_run expected)) PROFILES) command"

lemma design_command_eq: "design_command p = design_command q \<longleftrightarrow> p = q"
proof
  assume "design_command p = design_command q"
  then have "design_command p ! 9 = design_command q ! 9" by simp
  then have "lit (''read-index-'' @ p @ ''-'') @ temp_name small_world design_files (CACHE small_world @ [lit ''runs'']) @ 47 # lit ''states''
      = lit (''read-index-'' @ q @ ''-'') @ temp_name small_world design_files (CACHE small_world @ [lit ''runs'']) @ 47 # lit ''states''"
    by (simp add: design_command_def tlc_command_def path_str_def run_directory_def CACHE_def Let_def small_world_def)
  then have "lit (''read-index-'' @ p @ ''-'') = lit (''read-index-'' @ q @ ''-'')" by (simp only: append_same_eq append_assoc [symmetric])
  then show "p = q" unfolding lit_eq_iff by simp
qed simp

lemma design_tlc_run: "(profile, replacements, expected) \<in> set PROFILES \<Longrightarrow> design_tlc (design_command profile) inputs timeout = Some (expected_run expected)"
  by (auto simp: design_tlc_def PROFILES_def design_command_eq)

lemma violation_log_ok:
  assumes "list_all (word_char uword) (lit name)" and "name \<noteq> []" and "10 \<notin> set (lit name)"
  shows "result_ok uword (Some name) (expected_run (Some name))"
proof -
  let ?line = "lit ''Error: Invariant '' @ lit name @ lit '' is violated.''"
  have none: "violation_line uword behavior_text = None" "violation_line uword (lit ''State 2: <Next>'') = None"
    by (simp_all add: violation_line_def strip_prefix_def behavior_text_def lit_def)
  have "violation_line uword ?line = Some (lit name)" using assms by (simp add: violation_line_eq_Some)
  moreover have lines: "tlc_lines (violation_log name) = [?line, behavior_text, lit ''State 2: <Next>'']"
  proof -
    have "10 \<notin> set ?line" using assms(3) by (simp add: lit_def)
    moreover have "10 \<notin> set behavior_text" "10 \<notin> set (lit ''State 2: <Next>'')" by (simp_all add: behavior_text_def lit_def)
    ultimately show ?thesis unfolding violation_log_def by (simp only: tlc_lines_append tlc_lines_single simp_thms)
  qed
  ultimately have "violations uword (violation_log name) = [lit name]"
    using none by (simp add: violations_def map_filter_def)
  moreover have "has_state_two (violation_log name)"
    by (simp add: has_state_two_def lines strip_prefix_def) (simp add: lit_def)
  moreover have "contains behavior_text (violation_log name)"
    unfolding violation_log_def using containsI [of behavior_text "?line @ [10]" "10 # lit ''State 2: <Next>''"] by simp
  ultimately show ?thesis by (simp add: result_ok_def expected_run_def)
qed

lemma exhausted_log_ok: "result_ok uword None (expected_run None)"
proof -
  have "violations uword exhausted_log = []" "contains no_error_text exhausted_log"
      "summaries exhausted_log = [(lit ''9'', lit ''8'', lit ''0'')]"
    using exhausted_log_facts by auto
  then show ?thesis by (simp add: result_ok_def expected_run_def undec_def lit_def)
qed

lemma settings_once:
  "list_all (\<lambda>old. count_str (lit old) design_cfg = 1) design_settings"
  by code_simp

lemma design_config:
  assumes "(profile, replacements, expected) \<in> set PROFILES"
  shows "\<exists>cfg' bytes. profile_config profile replacements expected design_cfg = Inr cfg' \<and> utf8_encode cfg' = Inr bytes"
proof -
  have ascii: "list_all (\<lambda>c. c < 128) (lit s)" if "list_all (\<lambda>c. of_char c < (128 :: nat)) s" for s
    using that by (simp add: lit_def list_all_iff)
  have base: "list_all (\<lambda>c. c < 128) design_cfg" unfolding design_cfg_def by (rule ascii) simp
  have replaced: "list_all (\<lambda>c. c < 128) (replace_str (lit old) (lit new) design_cfg)"
    if "old \<in> set design_settings" "list_all (\<lambda>c. of_char c < (128 :: nat)) new" for old new
  proof -
    have "count_str (lit old) design_cfg = 1" using settings_once that(1) by (simp add: list_all_iff)
    then obtain a b where "design_cfg = a @ lit old @ b" "replace_str (lit old) (lit new) design_cfg = a @ lit new @ b"
      by (rule count_str_one)
    then show ?thesis using base ascii [OF that(2)] by (metis list_all_append)
  qed
  obtain cfg' where cfg': "foldE replace_setting design_cfg replacements = Inr cfg'" "list_all (\<lambda>c. c < 128) cfg'"
    using assms settings_once replaced base unfolding PROFILES_def
    by (auto simp: replace_setting_def design_settings_def)
  have "list_all (\<lambda>c. c < 128) (lit (case expected of Some name \<Rightarrow> name | None \<Rightarrow> ''None''))"
    using assms unfolding PROFILES_def by (auto simp: lit_def)
  moreover have "utf8_encode s = Inr s" if "list_all (\<lambda>c. c < 128) s" for s
    using that by (intro utf8_encode_ascii) (auto simp: list_all_iff)
  ultimately show ?thesis
    using cfg' ascii [of "''INVARIANT ''"] by (simp add: profile_config_def)
qed

lemma design_run:
  assumes "(profile, replacements, expected) \<in> set PROFILES"
  shows "run (\<lambda>_. False) small_world design_tlc design_files 120 profile = Inr ()"
proof -
  have files: "file_at design_files [lit ''formal'', lit ''models'', lit ''ReadIndex.cfg''] = Some design_cfg"
    "file_at design_files [lit ''formal'', lit ''models'', lit ''RaftzReadIndex.tla''] = Some []" "root small_world = [lit ''formal'']"
    by (simp_all add: design_files_def small_world_def)
  have ascii: "32 \<le> c \<and> c < 127" if "c \<in> set design_cfg" for c
    using that by (auto simp: design_cfg_def lit_def)
  have cp: "classpath small_world design_files = Inr (path_str [lit ''.cache'', lit ''tla'', lit ''a.jar''])"
    by (rule small_classpath) (simp_all add: design_files_def cached_files_def small_files_def)
  have cfg: "read_text design_files (root small_world @ [lit ''models'', lit ''ReadIndex.cfg'']) = Inr design_cfg"
  proof -
    have "decode_utf8 design_cfg = Inr design_cfg" using ascii by (intro decode_utf8_ascii) force
    moreover have "\<not> list_ex is_surrogate design_cfg" using ascii by (fastforce simp: list_ex_iff is_surrogate_def)
    moreover have "13 \<notin> set design_cfg" using ascii by fastforce
    ultimately show ?thesis using files by (simp add: read_text_def read_bytes_def text_of_def universal_newlines_id)
  qed
  obtain cfg' bytes where "profile_config profile replacements expected design_cfg = Inr cfg'" "utf8_encode cfg' = Inr bytes"
    using design_config [OF assms] by blast
  moreover have "result_ok (\<lambda>_. False) expected (expected_run expected)"
    using assms exhausted_log_ok [of "\<lambda>_. False"] unfolding PROFILES_def
    by (auto intro!: violation_log_ok simp: lit_def word_char_def is_digit_def)
  ultimately show ?thesis
    using cp cfg files design_tlc_run [OF assms]
    by (simp add: run_def PROFILES_distinct [OF assms] read_bytes_def validate_result_eq_Inr design_command_def)
qed

text \<open>
  C40: exit status 0 of the ReadIndex design check means that the vendored files and the tools are
  the pinned ones and that for every profile TLC checked the model under the shared configuration
  with exactly that profile's setting changed (each setting occurs once) or invariant added, and
  reported what the profile stands for: a completed exhaustive check of more than one state with an
  empty queue and no violation, or a concrete counterexample to exactly the expected invariant.
\<close>

theorem read_index_exit_zero:
  assumes "read_index_exit_status uword w tlc fs timeout = 0"
  shows "0 < timeout \<and> upstream_intact w fs
    \<and> (\<exists>kvs. tools w fs = Inr (PDict kvs) \<and> list_all (pinned w fs) kvs)
    \<and> list_all (design_checked uword w tlc fs timeout) PROFILES"
proof -
  have t: "0 < timeout" and ok: "read_index_main uword w tlc fs timeout = Inr ()"
    using assms by (auto simp: read_index_exit_status_def split: if_splits sum.splits)
  have v: "verify_upstream w fs = Inr ()" and "\<exists>us. mapE (run uword w tlc fs timeout) (map fst PROFILES) = Inr us"
    using ok by (auto simp: read_index_main_def bindE_eq_Inr)
  then have each: "\<exists>u. run uword w tlc fs timeout (fst row) = Inr u" if "row \<in> set PROFILES" for row
    using that unfolding mapE_ex_Inr by auto
  then have all: "list_all (design_checked uword w tlc fs timeout) PROFILES"
    unfolding list_all_iff using run_design_checked [OF _ PROFILES_distinct] by fastforce
  have "(''safe'', [], None) \<in> set PROFILES" by (simp add: PROFILES_def)
  then obtain cp where "classpath w fs = Inr cp" using all by (fastforce simp: list_all_iff design_checked_def)
  then show ?thesis using t all verify_upstream_intact [OF v] by (auto simp: classpath_eq_Inr)
qed

theorem read_index_exit_zero_witness:
  "0 < (120 :: int) \<and> upstream_intact small_world design_files
    \<and> (\<exists>kvs. tools small_world design_files = Inr (PDict kvs) \<and> list_all (pinned small_world design_files) kvs)
    \<and> list_all (design_checked (\<lambda>_. False) small_world design_tlc design_files 120) PROFILES"
proof (rule read_index_exit_zero)
  show "read_index_exit_status (\<lambda>_. False) small_world design_tlc design_files 120 = 0"
  proof -
    have "verify_upstream small_world design_files = Inr ()"
      by (rule small_verify) (simp_all add: design_files_def cached_files_def small_files_def)
    moreover have "mapE (run (\<lambda>_. False) small_world design_tlc design_files 120) (map fst PROFILES) = Inr (map (\<lambda>_. ()) (map fst PROFILES))"
      by (rule mapE_Inr_map) (use design_run in force)
    ultimately show ?thesis by (simp add: read_index_exit_status_def read_index_main_def)
  qed
qed

end
