(* ===== verification/Spec2Isabelle.thy ===== *)
theory Spec2Isabelle
  imports Command_Lines Mutation_Verdicts Read_Index_Facts
begin

text \<open>
  A verification library for the conformance checkers of raftz, the Python programs under
  src/formal that judge recorded executions of the Raft library.

  \<^bold>\<open>The program.\<close>  The Zig library writes traces of three-node executions as newline-delimited JSON.
  Five scripts check them and the tools they rest on:
  \<^item> trace_check.py loads a consensus trace, validates every observation against a closed schema,
    translates the trace to instructions for a TLA+ adapter and lets TLC decide whether the etcd
    specification allows them;
  \<^item> read_trace_check.py does the same for traces with the ReadIndex protocol and a register
    application: it projects the trace to a consensus trace for trace_check.py, builds the steps of a
    read model for a second TLC run, and hands the register history to history_check.py;
  \<^item> history_check.py extracts the history, has TLC search a linearization in
    RaftzRegisterHistory.tla, and verifies and replays the dumped witness itself;
  \<^item> read_index_check.py runs the ReadIndex design model under a list of profiles;
  \<^item> check.py verifies the vendored specification, installs the pinned tools, gives all scripts their
    class path, and runs the baseline models.
  Each script has suites of corrupted inputs that must be rejected, and an exit status.

  \<^bold>\<open>How it is modelled.\<close>  A Python value is a JSON value (\<open>pyval\<close>); a function that may raise returns
  \<open>exc + 'a\<close> (type \<open>res\<close>), with every exception of the source as a value, so that a branch that fails,
  also with an exception the source does not foresee, is a branch of the model.  Python text is a list
  of code points, file contents a list of bytes.  A loop is a fold in the exception monad; all of them
  run over finite data, so every definition is a total function and none needs fuel.  (The JSON scanner
  recurses on the rest of its input and tests that the rest has become shorter, as the termination
  argument; Json_Read_Back shows that the test never fails.)  Python integers are \<open>int\<close>; the only limit
  is Python's refusal to parse more than 4300 digits, which is kept.

  Theories, from the bottom up:
  \<^item> Raftz_Prelude, Py_Values: the monad, its loops (locale \<open>checked_loop\<close>: an invariant kept by every
    iteration holds after the loop), Python values, subscripts, \<open>require\<close>, \<open>fields\<close>, \<open>natural\<close>;
  \<^item> Payload_Codec: \<open>payload\<close> (locales \<open>codec\<close>, \<open>codec_chain\<close>: an encoder with a decoder; UTF-8 and
    hexadecimal implement it);
  \<^item> Json_Text, Json_Parse, Json_Read_Back, Json_Bytes, Json_Indent, Json_Updates: \<open>json.dumps\<close>,
    \<open>json.loads\<close> with and without \<open>unique_object\<close> (locale \<open>pairs_hook\<close>), their round trip, and that
    in-place changes keep a document printable;
  \<^item> Trace_Schema, Schema_Facts: validators of trace_check.py, from \<open>entry\<close> to \<open>observation\<close>;
  \<^item> Trace_Check, Trace_Facts, Trace_Instructions, Trace_Runs: \<open>load\<close>, \<open>write_events\<close>, \<open>instructions\<close>,
    \<open>validate\<close> and \<open>negatives\<close> of trace_check.py;
  \<^item> Register_History: histories, linearizations, and RaftzRegisterHistory.tla as a step relation
    (locale \<open>selector\<close>: a procedure that selects one operation at a time);
  \<^item> History_Check, History_Extract, History_Runs, Witness_Negatives: \<open>validate_history\<close>, \<open>replay\<close>,
    \<open>verify_witness\<close>, \<open>extract\<close>, \<open>check\<close>, \<open>regressions\<close>, \<open>negatives\<close>, \<open>witness_negatives\<close> of
    history_check.py; \<open>replay\<close> and the TLA+ model both implement \<open>selector\<close>;
  \<^item> Read_Trace_Check, Read_Trace_Facts, Read_Trace_Properties, Read_Mutations: read_trace_check.py;
  \<^item> Trace_Files, Trace_Negatives: both loaders at the level of bytes (locale \<open>trace_format\<close>: a loader
    and its writer);
  \<^item> Read_Validation, Read_Verdicts, Mutation_Verdicts: what a pass, a \<open>ConformanceError\<close> and a rejected
    mutation establish;
  \<^item> Tlc_Output: the regular expressions on TLC's log;
  \<^item> Tools_Check, Tools_Facts: check.py over an explicit file system; Read_Index_Check,
    Read_Index_Facts: read_index_check.py; Command_Lines: the command lines of the other three.

  \<^bold>\<open>What is shown.\<close>
  \<^item> Files: \<open>load\<close> accepts exactly the files described by the schema, reads back what \<open>write_events\<close>
    writes, and refuses the malformed files of the negative suite; equal keys mean equal JSON values;
    payloads are injective and decodable.
  \<^item> Consensus traces: the instructions are one group per event, the sends are exactly the requests the
    previous bag does not account for, and a loaded trace is translated exactly when its events allow
    those sends; the refusal of a send is the only exception.
  \<^item> Histories: \<open>replay\<close> accepts exactly the linearizations; the TLA+ model has a run for each of them,
    takes at most one step per operation, and its invariant \<open>NoLinearization\<close> holds exactly when there
    is none; \<open>verify_witness\<close> accepts the dumps of such runs (of at most 4 000 000 bytes) and no others;
    hence \<open>check\<close> is right in both directions.  Extraction yields well-formed histories, one operation per invocation, and
    never revises a completion.
  \<^item> Read traces: the projection of a loaded trace with a campaign and a proposal is a consensus trace,
    and its file is loaded unless escaping makes it longer than 16 000 000 bytes; a passed file has accepted
    projections and read steps and a linearizable history; a \<open>ConformanceError\<close> is a verdict of TLC or of
    the history check, never a malformed trace; the same holds for every mutation counted as rejected.
  \<^item> Suites: the fixed histories of \<open>regressions\<close> have the expected verdicts, the history mutations
    destroy linearizability, the witness corruptions are refused for the stated reasons as long as
    their indented copies are within the size limit of \<open>verify_witness\<close>.
  \<^item> Tools: the class path names only files with their pinned digests, \<open>prepare\<close> installs nothing else,
    also when it fails half way, and makes the class path available, for lock files whose names are
    plain file names (\<open>plain_name\<close>: one path component, as in the repository's tools.lock.json; an
    absolute name or an alias such as \<open>./a\<close> breaks both); exit status 0 of each command line
    means what it should.

  \<^bold>\<open>Parameters.\<close>  Code outside the repository is an argument of the definitions that use it: TLC (from
  the class path, the input and the configuration to its exit code, log and dump, or a timeout), SHA-256,
  the network, the names of temporary directories, Python's printing of floats (\<open>float_repr\<close>) and of
  interpolated values (\<open>py_str\<close>), the decoding of bytes that are not UTF-8 (\<open>other_decode\<close>), the Unicode
  part of the class of word characters (\<open>uword\<close>).  Hypotheses on them are stated where they are used:
  \<open>float_printer\<close> (a printed float is read back as itself), \<open>tlc_exhaustive\<close> (a run that reports success
  has visited all reachable states of the model), \<open>fresh_names\<close> (temporary directories are new).
  Theorems on file contents speak of UTF-8 text without encoded surrogates (\<open>utf8_file\<close>).

  \<^bold>\<open>Not modelled.\<close>  The TLA+ models other than RaftzRegisterHistory.tla and the vendored etcd
  specification are inputs of TLC.  The Raft library, its storage and its transport are Zig code; the
  checkers see them only through traces.  Of the scripts: printing, the artifacts left in run
  directories, failures to create those directories, downloads that break off half way (modelled as
  downloads that write nothing), links and \<open>..\<close> in paths, the texts of the argument
  parser and Python's recursion limit.
\<close>

end
